(* ===== verification/Prelude.thy ===== *)
theory Prelude
  imports Complex_Main "HOL-Library.Word"
begin

text \<open>
  Shared vocabulary of the development: the machine types of the Rust source, byte strings
  and their integer readings, the text helpers the standard library provides, and the fact
  collections the component theories fill.

  Conventions.  A Rust unsigned integer of width \<open>w\<close> is a \<open>w word\<close>; \<open>usize\<close> lengths and
  indices are \<open>nat\<close>.  A release build has no overflow checks, so \<open>+\<close> on words wraps exactly
  as the binary does.  \<open>Instant\<close> and \<open>Duration\<close> are \<open>nat\<close> counts of nanoseconds, the
  resolution of \<open>std::time\<close>.  A \<open>String\<close> or \<open>&str\<close> is the \<open>char list\<close> of its UTF-8 bytes,
  so \<open>length\<close> is \<open>str::len\<close>.
\<close>

type_synonym u8 = "8 word"
type_synonym u16 = "16 word"
type_synonym u32 = "32 word"
type_synonym u64 = "64 word"
type_synonym u128 = "128 word"
type_synonym bytes = "u8 list"
type_synonym instant = nat
type_synonym duration = nat

named_theorems byte_simps "integer readings of byte strings"
named_theorems f64_simps "evaluation of the binary64 operations"
named_theorems inv_simps "unfolding of the component invariants"

section \<open>Generic lemmas\<close>

lemma option_caseE:
  assumes "(case x of None \<Rightarrow> P | Some a \<Rightarrow> Q a)"
  obtains "x = None" "P" | a where "x = Some a" "Q a"
  using assms by (cases x) auto

lemma sum_caseE:
  assumes "(case x of Inl e \<Rightarrow> Inl e | Inr a \<Rightarrow> f a) = Inr r"
  obtains a where "x = Inr a" "f a = Inr r"
  using assms by (cases x) auto

lemma drop_take_append:
  assumes "length ys = n"
  shows "take n (drop (length xs) (xs @ ys @ zs)) = ys"
  using assms by simp

lemma distinct_tl_notin_hd: "distinct xs \<Longrightarrow> xs \<noteq> [] \<Longrightarrow> hd xs \<notin> set (tl xs)"
  by (cases xs) auto

text \<open>Evaluation of a \<open>replicate\<close> with a literal count.\<close>

lemma replicate_numeral: "replicate (numeral k) x = x # replicate (pred_numeral k) x"
  by (simp add: numeral_eq_Suc)

section \<open>Byte strings as integers\<close>

text \<open>
  \<open>to_le k n\<close> is the \<open>k\<close>-byte little-endian form of \<open>n\<close> (\<open>to_le_bytes\<close> at the width of the
  integer), \<open>to_be\<close> the big-endian one; \<open>le_nat\<close> and \<open>be_nat\<close> read a byte string back.
\<close>

primrec to_le :: "nat \<Rightarrow> nat \<Rightarrow> bytes" where
  "to_le 0 n = []"
| "to_le (Suc k) n = word_of_nat n # to_le k (n div 256)"

definition to_be :: "nat \<Rightarrow> nat \<Rightarrow> bytes" where
  "to_be k n = rev (to_le k n)"

primrec le_nat :: "bytes \<Rightarrow> nat" where
  "le_nat [] = 0"
| "le_nat (b # bs) = unat b + 256 * le_nat bs"

definition be_nat :: "bytes \<Rightarrow> nat" where
  "be_nat bs = le_nat (rev bs)"

lemma to_le_numeral: "to_le (numeral k) n = word_of_nat n # to_le (pred_numeral k) (n div 256)"
  by (simp only: numeral_eq_Suc [of k] to_le.simps)

lemma length_to_le [simp]: "length (to_le k n) = k"
  by (induction k arbitrary: n) auto

lemma length_to_be [simp]: "length (to_be k n) = k"
  by (simp add: to_be_def)

lemma unat_lt: "unat (w :: 'a::len word) < 2 ^ LENGTH('a)"
  by (rule unsigned_less)

lemma unat_byte_lt: "unat (b :: u8) < 256"
  using unat_lt [of b] by simp

lemma le_nat_bound: "le_nat bs < 256 ^ length bs"
proof (induction bs)
  case Nil
  then show ?case by simp
next
  case (Cons b bs)
  from Cons.IH have "256 * (le_nat bs + 1) \<le> 256 * 256 ^ length bs" by simp
  with unat_byte_lt [of b] show ?case by simp
qed

lemma be_nat_bound: "be_nat bs < 256 ^ length bs"
  using le_nat_bound [of "rev bs"] by (simp add: be_nat_def)

lemma unat_of_nat_byte [simp]: "unat (word_of_nat n :: u8) = n mod 256"
  by (simp add: unat_of_nat)

lemma le_nat_to_le [byte_simps]: "le_nat (to_le k n) = n mod 256 ^ k"
proof (induction k arbitrary: n)
  case 0
  then show ?case by simp
next
  case (Suc k)
  have "n mod (256 * 256 ^ k) = 256 * (n div 256 mod 256 ^ k) + n mod 256"
    by (rule mod_mult2_eq)
  with Suc.IH show ?case by simp
qed

lemma be_nat_to_be [byte_simps]: "be_nat (to_be k n) = n mod 256 ^ k"
  by (simp add: be_nat_def to_be_def le_nat_to_le)

lemma le_nat_append [byte_simps]: "le_nat (xs @ ys) = le_nat xs + 256 ^ length xs * le_nat ys"
  by (induction xs) (auto simp: algebra_simps)

lemma be_nat_Nil [simp]: "be_nat [] = 0"
  by (simp add: be_nat_def)

lemma be_nat_Cons [byte_simps]: "be_nat (b # bs) = unat b * 256 ^ length bs + be_nat bs"
  by (simp add: be_nat_def le_nat_append)

lemma be_nat_append [byte_simps]: "be_nat (xs @ ys) = be_nat xs * 256 ^ length ys + be_nat ys"
  by (simp add: be_nat_def le_nat_append)

lemma le_nat_rev [byte_simps]: "le_nat (rev bs) = be_nat bs"
  by (simp add: be_nat_def)

lemma be_nat_rev [byte_simps]: "be_nat (rev bs) = le_nat bs"
  by (simp add: be_nat_def)

lemma be_nat_replicate_0 [byte_simps]: "be_nat (replicate n 0) = 0"
  by (induction n) (auto simp: be_nat_Cons)

lemma le_nat_inj: "length xs = length ys \<Longrightarrow> le_nat xs = le_nat ys \<Longrightarrow> xs = ys"
proof (induction xs ys rule: list_induct2)
  case Nil
  then show ?case by simp
next
  case (Cons x xs y ys)
  have eq: "unat x + 256 * le_nat xs = unat y + 256 * le_nat ys"
    using Cons.prems by simp
  have "unat x = unat y"
    using arg_cong [OF eq, of "\<lambda>n. n mod 256"] unat_byte_lt [of x] unat_byte_lt [of y] by simp
  moreover from this eq have "le_nat xs = le_nat ys" by simp
  ultimately have "unat x = unat y" "le_nat xs = le_nat ys" by simp_all
  with Cons.IH show ?case by (simp add: word_unat_eq_iff)
qed

lemma be_nat_inj: "length xs = length ys \<Longrightarrow> be_nat xs = be_nat ys \<Longrightarrow> xs = ys"
  using le_nat_inj [of "rev xs" "rev ys"] by (simp add: be_nat_def)

lemma be_nat_eq_0_iff: "be_nat bs = 0 \<longleftrightarrow> (\<forall>b \<in> set bs. b = 0)"
  by (induction bs) (auto simp: be_nat_Cons unat_eq_0)

lemma to_le_inj:
  assumes "to_le k m = to_le k n"
  shows "m mod 256 ^ k = n mod 256 ^ k"
  using arg_cong [OF assms, of le_nat] by (simp add: le_nat_to_le)

text \<open>
  Rust compares arrays lexicographically.  On equal lengths that is the order of the
  big-endian readings.
\<close>

fun bytes_le :: "bytes \<Rightarrow> bytes \<Rightarrow> bool" where
  "bytes_le [] ys = True"
| "bytes_le (x # xs) [] = False"
| "bytes_le (x # xs) (y # ys) = (x < y \<or> x = y \<and> bytes_le xs ys)"

lemma bytes_le_iff_be_nat:
  "length xs = length ys \<Longrightarrow> bytes_le xs ys \<longleftrightarrow> be_nat xs \<le> be_nat ys"
proof (induction xs ys rule: list_induct2)
  case Nil
  then show ?case by simp
next
  case (Cons x xs y ys)
  let ?w = "256 ^ length ys :: nat"
  have xs: "be_nat xs < ?w" and ys: "be_nat ys < ?w"
    using be_nat_bound [of xs] be_nat_bound [of ys] Cons.hyps by simp_all
  consider "unat x < unat y" | "unat x = unat y" | "unat y < unat x" by linarith
  then show ?case
  proof cases
    case 1
    then have "(unat x + 1) * ?w \<le> unat y * ?w" by (intro mult_right_mono) auto
    then have "unat x * ?w + ?w \<le> unat y * ?w" by (simp add: algebra_simps)
    with 1 xs Cons.hyps show ?thesis by (auto simp: be_nat_Cons word_less_nat_alt)
  next
    case 2
    with Cons show ?thesis by (auto simp: be_nat_Cons word_less_nat_alt word_unat_eq_iff)
  next
    case 3
    then have "(unat y + 1) * ?w \<le> unat x * ?w" by (intro mult_right_mono) auto
    then have "unat y * ?w + ?w \<le> unat x * ?w" by (simp add: algebra_simps)
    with 3 ys Cons.hyps show ?thesis by (auto simp: be_nat_Cons word_less_nat_alt)
  qed
qed

section \<open>Reversal of four-byte words\<close>

text \<open>\<open>for chunk in bytes.chunks_mut(4) \{ chunk.reverse(); \}\<close>: the last chunk may be short.\<close>

fun rev_words :: "bytes \<Rightarrow> bytes" where
  "rev_words (a # b # c # d # rest) = d # c # b # a # rev_words rest"
| "rev_words bs = rev bs"

lemma length_rev_words [simp]: "length (rev_words bs) = length bs"
  by (induction bs rule: rev_words.induct) auto

lemma rev_words_rev_words [simp]: "rev_words (rev_words bs) = bs"
  by (induction bs rule: rev_words.induct) auto

section \<open>Text helpers of the standard library\<close>

text \<open>\<open>char::to_digit(16)\<close>.\<close>

definition hex_digit :: "char \<Rightarrow> nat option" where
  "hex_digit c =
     (let n = of_char c :: nat in
      if 48 \<le> n \<and> n \<le> 57 then Some (n - 48)
      else if 97 \<le> n \<and> n \<le> 102 then Some (n - 87)
      else if 65 \<le> n \<and> n \<le> 70 then Some (n - 55)
      else None)"

text \<open>The digit loop of \<open>from_str_radix\<close>: \<open>None\<close> at a bad digit or when the bound is passed.\<close>

fun hex_digits :: "nat \<Rightarrow> nat \<Rightarrow> string \<Rightarrow> nat option" where
  "hex_digits bound acc [] = Some acc"
| "hex_digits bound acc (c # cs) =
     (case hex_digit c of
        None \<Rightarrow> None
      | Some d \<Rightarrow> (if acc * 16 + d < bound then hex_digits bound (acc * 16 + d) cs else None))"

text \<open>
  \<open>u32::from_str_radix(s, 16).ok()\<close>: the empty string and a lone sign are errors, one leading
  \<open>+\<close> is skipped, and a \<open>-\<close> is an invalid digit of an unsigned type.
\<close>

definition u32_from_hex :: "string \<Rightarrow> u32 option" where
  "u32_from_hex s =
     (if s = [] \<or> s = ''+'' \<or> s = ''-'' then None
      else map_option word_of_nat
             (hex_digits (2 ^ 32) 0 (if hd s = CHR ''+'' then tl s else s)))"

text \<open>Decimal rendering of an unsigned integer (\<open>Display\<close>).\<close>

fun show_nat :: "nat \<Rightarrow> string" where
  "show_nat n = (if n < 10 then [char_of (48 + n)]
                 else show_nat (n div 10) @ [char_of (48 + n mod 10)])"

declare show_nat.simps [simp del]

text \<open>Lower-case hexadecimal rendering with \<open>k\<close> digits, zero padded: \<open>\{:08x\}\<close> for \<open>k = 8\<close>.\<close>

definition hex_char :: "nat \<Rightarrow> char" where
  "hex_char d = (if d < 10 then char_of (48 + d) else char_of (87 + d))"

primrec show_hex :: "nat \<Rightarrow> nat \<Rightarrow> string" where
  "show_hex 0 n = []"
| "show_hex (Suc k) n = show_hex k (n div 16) @ [hex_char (n mod 16)]"

lemma length_show_hex [simp]: "length (show_hex k n) = k"
  by (induction k arbitrary: n) auto

lemma hex_digit_hex_char [simp]: "d < 16 \<Longrightarrow> hex_digit (hex_char d) = Some d"
  by (auto simp: hex_digit_def hex_char_def Let_def)

lemma hex_digits_append:
  "hex_digits b acc (xs @ ys) =
     (case hex_digits b acc xs of None \<Rightarrow> None | Some a \<Rightarrow> hex_digits b a ys)"
  by (induction xs arbitrary: acc) (auto split: option.splits)

lemma hex_digits_show_hex:
  "acc * 16 ^ k + n mod 16 ^ k < b \<Longrightarrow>
   hex_digits b acc (show_hex k n) = Some (acc * 16 ^ k + n mod 16 ^ k)"
proof (induction k arbitrary: acc n)
  case 0
  then show ?case by simp
next
  case (Suc k)
  have split: "n mod 16 ^ Suc k = 16 * (n div 16 mod 16 ^ k) + n mod 16"
    using mod_mult2_eq [of n 16 "16 ^ k"] by simp
  have "acc * 16 ^ k + n div 16 mod 16 ^ k < b"
  proof (rule le_less_trans [OF _ Suc.prems])
    show "acc * 16 ^ k + n div 16 mod 16 ^ k \<le> acc * 16 ^ Suc k + n mod 16 ^ Suc k"
      unfolding split by (intro add_mono) auto
  qed
  then have "hex_digits b acc (show_hex k (n div 16)) = Some (acc * 16 ^ k + n div 16 mod 16 ^ k)"
    by (rule Suc.IH)
  with Suc.prems split show ?case
    by (simp add: hex_digits_append algebra_simps)
qed

text \<open>\<open>str::split_once\<close> at one character.\<close>

fun split_once :: "char \<Rightarrow> string \<Rightarrow> (string \<times> string) option" where
  "split_once c [] = None"
| "split_once c (x # xs) =
     (if x = c then Some ([], xs)
      else map_option (\<lambda>(a, b). (x # a, b)) (split_once c xs))"

lemma split_once_Some: "split_once c s = Some (a, b) \<Longrightarrow> s = a @ c # b \<and> c \<notin> set a"
  by (induction s arbitrary: a b) (auto split: if_splits)

lemma split_once_None: "split_once c s = None \<longleftrightarrow> c \<notin> set s"
  by (induction s) auto

lemma split_once_append: "c \<notin> set a \<Longrightarrow> split_once c (a @ c # b) = Some (a, b)"
  by (induction a) auto

text \<open>\<open>str::eq_ignore_ascii_case\<close>.\<close>

definition ascii_lower :: "char \<Rightarrow> char" where
  "ascii_lower c = (let n = of_char c :: nat in if 65 \<le> n \<and> n \<le> 90 then char_of (n + 32) else c)"

definition eq_ignore_ascii_case :: "string \<Rightarrow> string \<Rightarrow> bool" where
  "eq_ignore_ascii_case a b \<longleftrightarrow> map ascii_lower a = map ascii_lower b"

text \<open>\<open>str::strip_prefix\<close> at one character.\<close>

definition strip_prefix :: "char \<Rightarrow> string \<Rightarrow> string option" where
  "strip_prefix c s = (case s of [] \<Rightarrow> None | x # xs \<Rightarrow> if x = c then Some xs else None)"

text \<open>
  \<open>str::chars\<close>: the byte groups of a UTF-8 string, by lead byte, and the scalar value of a
  group.  \<open>is_control\<close> is general category Cc, \<open>is_whitespace\<close> the White\_Space property.
\<close>

definition utf8_tail :: "char \<Rightarrow> nat" where
  "utf8_tail c = (let n = of_char c :: nat in
     if n < 0xC0 then 0 else if n < 0xE0 then 1 else if n < 0xF0 then 2 else 3)"

fun utf8_chunks :: "string \<Rightarrow> string list" where
  "utf8_chunks [] = []"
| "utf8_chunks (c # cs) = (c # take (utf8_tail c) cs) # utf8_chunks (drop (utf8_tail c) cs)"

fun code_point :: "string \<Rightarrow> nat" where
  "code_point [a] = of_char a"
| "code_point [a, b] = (of_char a mod 32) * 64 + of_char b mod 64"
| "code_point [a, b, c] = (of_char a mod 16) * 4096 + (of_char b mod 64) * 64 + of_char c mod 64"
| "code_point [a, b, c, d] =
     (of_char a mod 8) * 262144 + (of_char b mod 64) * 4096 + (of_char c mod 64) * 64 + of_char d mod 64"
| "code_point _ = 0"

definition chars :: "string \<Rightarrow> nat list" where
  "chars s = map code_point (utf8_chunks s)"

definition is_control :: "nat \<Rightarrow> bool" where
  "is_control n \<longleftrightarrow> n < 0x20 \<or> 0x7F \<le> n \<and> n < 0xA0"

definition is_whitespace :: "nat \<Rightarrow> bool" where
  "is_whitespace n \<longleftrightarrow> 9 \<le> n \<and> n \<le> 13 \<or> n \<in> {0x20, 0x85, 0xA0, 0x1680, 0x2028, 0x2029, 0x202F, 0x205F, 0x3000}
     \<or> 0x2000 \<le> n \<and> n \<le> 0x200A"

text \<open>\<open>str::trim\<close>.\<close>

definition trim :: "string \<Rightarrow> string" where
  "trim s = (let white = (\<lambda>g. is_whitespace (code_point g)) in
     concat (rev (dropWhile white (rev (dropWhile white (utf8_chunks s))))))"

lemma concat_utf8_chunks: "concat (utf8_chunks s) = s"
  by (induction s rule: utf8_chunks.induct) auto

section \<open>Saturating arithmetic\<close>

definition sat_add :: "'a::len word \<Rightarrow> 'a word \<Rightarrow> 'a word" where
  "sat_add a b = (if unat a + unat b < 2 ^ LENGTH('a) then a + b else - 1)"

definition sat_sub :: "'a::len word \<Rightarrow> 'a word \<Rightarrow> 'a word" where
  "sat_sub a b = (if b \<le> a then a - b else 0)"

lemma unat_max_word: "unat (- 1 :: 'a::len word) = 2 ^ LENGTH('a) - 1"
  by (simp add: unsigned_minus_1_eq_mask mask_eq_exp_minus_1)

lemma unat_add_no_wrap:
  "unat a + unat b < 2 ^ LENGTH('a) \<Longrightarrow> unat (a + b) = unat a + unat (b :: 'a::len word)"
  by (simp add: unat_word_ariths)

lemma unat_sat_add: "unat (sat_add a b) = min (2 ^ LENGTH('a) - 1) (unat a + unat (b :: 'a::len word))"
  by (auto simp: sat_add_def unat_add_no_wrap unat_max_word min_def)

lemma unat_sat_sub: "unat (sat_sub a b) = unat a - unat b"
  by (auto simp: sat_sub_def unat_sub word_le_nat_alt)

section \<open>Shifts and masks on words\<close>

lemma unat_push_bit_no_wrap:
  "unat w * 2 ^ n < 2 ^ LENGTH('a) \<Longrightarrow> unat (push_bit n (w :: 'a::len word)) = unat w * 2 ^ n"
  unfolding unsigned_push_bit_eq by (simp add: push_bit_eq_mult take_bit_nat_eq_self)

lemma unat_drop_bit: "unat (drop_bit n w) = unat (w :: 'a::len word) div 2 ^ n"
  unfolding unat_drop_bit_eq by (simp add: drop_bit_eq_div)

lemma unat_and_mask: "unat (and w (mask n)) = unat (w :: 'a::len word) mod 2 ^ n"
  unfolding take_bit_eq_mask [symmetric] unsigned_take_bit_eq by (simp add: take_bit_eq_mod)

lemma unat_ucast_up: "LENGTH('a) \<le> LENGTH('b) \<Longrightarrow> unat (ucast (w :: 'a::len word) :: 'b::len word) = unat w"
  by (simp add: unsigned_ucast_eq take_bit_nat_eq_self less_le_trans [OF unsigned_less])

lemma unat_ucast_mod: "unat (ucast (w :: 'a::len word) :: 'b::len word) = unat w mod 2 ^ LENGTH('b)"
  by (simp add: unsigned_ucast_eq take_bit_eq_mod)

text \<open>\<open>(acc << 8) | byte\<close> appends a byte to the number, as long as nothing is shifted out.\<close>

lemma unat_shift_in_byte:
  fixes w :: "'a::len word" and b :: u8
  assumes fits: "unat w * 256 + 255 < 2 ^ LENGTH('a)" and len: "8 \<le> LENGTH('a)"
  shows "unat (or (push_bit 8 w) (ucast b)) = unat w * 256 + unat b"
proof -
  have "and (push_bit 8 w) (ucast b) = 0"
    by (rule bit_word_eqI) (auto simp: bit_simps dest: bit_imp_le_length)
  then have "or (push_bit 8 w) (ucast b) = push_bit 8 w + ucast b"
    by (simp add: disjunctive_add_eq_or)
  moreover have "unat (push_bit 8 w) = unat w * 256"
    using fits unat_push_bit_no_wrap [of w 8] by simp
  moreover have "unat (ucast b :: 'a word) = unat b"
    using len by (simp add: unat_ucast_up)
  ultimately show ?thesis
    using fits unat_byte_lt [of b] by (simp add: unat_add_no_wrap)
qed

end
