(* ===== verification/Errors.thy ===== *)
theory Errors
  imports Prelude
begin

text \<open>
  The error values of the pool (\<open>src/error.rs\<close>).  The payload of a wrapped library error is
  its text; of \<open>bitcoincore_rpc::Error\<close> the model keeps the one distinction the source makes,
  a JSON-RPC error object with its code against every other failure.  The text of an
  \<open>anyhow\<close> message is the literal of the source, without the interpolated values.
\<close>

datatype rpc_error = JsonRpc int string | RpcOther string

datatype pool_error =
    Parse string
  | UnknownMethod string
  | NotSubscribed
  | NotAuthorized
  | InvalidParams string string
  | StaleJob string
  | DuplicateShare
  | LowDifficulty
  | InvalidHeader
  | Rpc rpc_error
  | TemplateUnavailable
  | SubmitBlockRejected string
  | Banned string
  | RateLimited
  | MessageTooLarge nat
  | Io string
  | ConnectionClosed
  | Other string

type_synonym 'a result = "pool_error + 'a"

datatype stratum_err_code =
  EUnknown | EJobNotFound | EDuplicateShare | ELowDifficultyShare | EUnauthorized | ENotSubscribed

text \<open>The discriminant, \<open>code as u32\<close>.\<close>

fun err_code :: "stratum_err_code \<Rightarrow> u32" where
  "err_code EUnknown = 20"
| "err_code EJobNotFound = 21"
| "err_code EDuplicateShare = 22"
| "err_code ELowDifficultyShare = 23"
| "err_code EUnauthorized = 24"
| "err_code ENotSubscribed = 25"

fun err_message :: "stratum_err_code \<Rightarrow> string" where
  "err_message EUnknown = ''Unknown problem''"
| "err_message EJobNotFound = ''Job not found''"
| "err_message EDuplicateShare = ''Duplicate share''"
| "err_message ELowDifficultyShare = ''Low difficulty share''"
| "err_message EUnauthorized = ''Unauthorized worker''"
| "err_message ENotSubscribed = ''Not subscribed''"

fun submit_failure_label :: "pool_error \<Rightarrow> string" where
  "submit_failure_label (Rpc _) = ''rpc_error''"
| "submit_failure_label (SubmitBlockRejected _) = ''rejected''"
| "submit_failure_label TemplateUnavailable = ''template_unavailable''"
| "submit_failure_label (Io _) = ''io''"
| "submit_failure_label _ = ''other''"

text \<open>The pair the response array \<open>[code, message, null]\<close> is built from.\<close>

fun stratum_code_of :: "pool_error \<Rightarrow> stratum_err_code" where
  "stratum_code_of (StaleJob _) = EJobNotFound"
| "stratum_code_of DuplicateShare = EDuplicateShare"
| "stratum_code_of LowDifficulty = ELowDifficultyShare"
| "stratum_code_of NotAuthorized = EUnauthorized"
| "stratum_code_of NotSubscribed = ENotSubscribed"
| "stratum_code_of _ = EUnknown"

definition to_stratum_error :: "pool_error \<Rightarrow> u32 \<times> string" where
  "to_stratum_error e = (err_code (stratum_code_of e), err_message (stratum_code_of e))"

lemma err_code_inj: "err_code a = err_code b \<Longrightarrow> a = b"
  by (cases a; cases b) auto

lemma submit_failure_label_range:
  "submit_failure_label e \<in> {''rpc_error'', ''rejected'', ''template_unavailable'', ''io'', ''other''}"
  by (cases e) auto

section \<open>Sequencing of fallible steps\<close>

text \<open>The \<open>?\<close> operator: continue with the value, or return the error at once.\<close>

definition bind_res :: "'a result \<Rightarrow> ('a \<Rightarrow> 'b result) \<Rightarrow> 'b result" where
  "bind_res r f = (case r of Inl e \<Rightarrow> Inl e | Inr x \<Rightarrow> f x)"

lemma bind_res_simps [simp]: "bind_res (Inl e) f = Inl e" "bind_res (Inr x) f = f x"
  by (simp_all add: bind_res_def)

lemma bind_res_Inr: "bind_res r f = Inr y \<longleftrightarrow> (\<exists>x. r = Inr x \<and> f x = Inr y)"
  by (cases r) auto

lemma bind_res_InrE:
  assumes "bind_res r f = Inr y"
  obtains x where "r = Inr x" "f x = Inr y"
  using assms by (auto simp: bind_res_Inr)

text \<open>\<open>Option::ok_or\<close> and \<open>collect::<Result<Vec<_>, _>>()\<close>.\<close>

definition ok_or :: "pool_error \<Rightarrow> 'a option \<Rightarrow> 'a result" where
  "ok_or e x = (case x of None \<Rightarrow> Inl e | Some a \<Rightarrow> Inr a)"

lemma ok_or_simps [simp]: "ok_or e None = Inl e" "ok_or e (Some a) = Inr a"
  by (simp_all add: ok_or_def)

lemma ok_or_Inr [simp]: "ok_or e x = Inr a \<longleftrightarrow> x = Some a"
  by (cases x) auto

primrec collect :: "('a \<Rightarrow> 'b result) \<Rightarrow> 'a list \<Rightarrow> 'b list result" where
  "collect f [] = Inr []"
| "collect f (x # xs) =
     bind_res (f x) (\<lambda>y. bind_res (collect f xs) (\<lambda>ys. Inr (y # ys)))"

lemma collect_Inr: "collect f xs = Inr ys \<longleftrightarrow> list_all2 (\<lambda>x y. f x = Inr y) xs ys"
proof (induction xs arbitrary: ys)
  case Nil
  then show ?case by auto
next
  case (Cons x xs)
  then show ?case by (cases ys) (auto simp: bind_res_Inr)
qed

lemma collect_length: "collect f xs = Inr ys \<Longrightarrow> length ys = length xs"
  by (simp add: collect_Inr list_all2_lengthD)

end
