(* ===== verification/Crates.thy ===== *)
theory Crates
  imports Errors
begin

text \<open>
  The library functions the pool calls and does not define: \<open>hex\<close>, \<open>sha2\<close> and the
  transaction encoding of the \<open>bitcoin\<close> crate.  They are the fields of a record, so every
  definition that calls one takes it as an argument.  What the source relies on is stated by
  the predicates \<open>hex_ok\<close>, \<open>sha_ok\<close> and \<open>tx_layout_ok\<close>, which are the documented behaviour of
  those crates; \<open>sample_crates\<close> is one set of functions that satisfies all of them.
\<close>

section \<open>Transactions\<close>

text \<open>The public structures \<open>TxIn\<close>, \<open>TxOut\<close> and \<open>Transaction\<close> the pool fills in.\<close>

record tx_in =
  prev_txid :: bytes
  prev_vout :: u32
  script_sig :: bytes
  sequence :: u32
  witness :: "bytes list"

record tx_out =
  txo_value :: u64
  txo_script :: bytes

record transaction =
  tx_version :: u32
  tx_lock_time :: u32
  tx_inputs :: "tx_in list"
  tx_outputs :: "tx_out list"

record crates =
  hex_encode :: "bytes \<Rightarrow> string"
  hex_decode :: "string \<Rightarrow> bytes option"
  hex_decode_to_slice :: "nat \<Rightarrow> string \<Rightarrow> bytes option"
  sha256 :: "bytes \<Rightarrow> bytes"
  tx_serialize :: "transaction \<Rightarrow> bytes"
  tx_deserialize :: "bytes \<Rightarrow> transaction option"

text \<open>
  \<open>hex::decode\<close> inverts \<open>hex::encode\<close>, and \<open>decode_to_slice\<close> is \<open>decode\<close> with the width of the
  destination enforced.
\<close>

definition hex_ok :: "crates \<Rightarrow> bool" where
  "hex_ok cr \<longleftrightarrow> (\<forall>b. hex_decode cr (hex_encode cr b) = Some b) \<and>
     (\<forall>n s. hex_decode_to_slice cr n s =
        (case hex_decode cr s of None \<Rightarrow> None | Some b \<Rightarrow> if length b = n then Some b else None))"

definition sha_ok :: "crates \<Rightarrow> bool" where
  "sha_ok cr \<longleftrightarrow> (\<forall>d. length (sha256 cr d) = 32)"

text \<open>
  Consensus encoding of a transaction with one input, no witness and a \<open>scriptSig\<close> under 253
  bytes: version, input count, outpoint, length and bytes of the \<open>scriptSig\<close>, sequence, then
  the outputs and lock time.
\<close>

definition tx_layout_ok :: "crates \<Rightarrow> bool" where
  "tx_layout_ok cr \<longleftrightarrow>
     (\<forall>tx i. tx_inputs tx = [i] \<longrightarrow> witness i = [] \<longrightarrow> length (script_sig i) < 253 \<longrightarrow>
        (\<exists>tail. tx_serialize cr tx =
           to_le 4 (unat (tx_version tx)) @ [1] @ prev_txid i @ to_le 4 (unat (prev_vout i)) @
           [word_of_nat (length (script_sig i))] @ script_sig i @ to_le 4 (unat (sequence i)) @ tail))"

lemma hex_decode_encode: "hex_ok cr \<Longrightarrow> hex_decode cr (hex_encode cr b) = Some b"
  by (simp add: hex_ok_def)

lemma hex_encode_inj: "hex_ok cr \<Longrightarrow> hex_encode cr a = hex_encode cr b \<Longrightarrow> a = b"
  by (metis hex_decode_encode option.inject)

lemma hex_decode_to_slice_encode:
  "hex_ok cr \<Longrightarrow> length b = n \<Longrightarrow> hex_decode_to_slice cr n (hex_encode cr b) = Some b"
  by (simp add: hex_ok_def)

lemma hex_decode_to_slice_length:
  "hex_ok cr \<Longrightarrow> hex_decode_to_slice cr n s = Some b \<Longrightarrow> length b = n"
  by (auto simp: hex_ok_def split: option.splits if_splits)

lemma sha_length [simp]: "sha_ok cr \<Longrightarrow> length (sha256 cr d) = 32"
  by (simp add: sha_ok_def)

section \<open>A concrete set of functions\<close>

text \<open>Real hexadecimal and legacy transaction encoding; a stand-in for the digest.\<close>

definition sample_hex_encode :: "bytes \<Rightarrow> string" where
  "sample_hex_encode bs = concat (map (\<lambda>b. show_hex 2 (unat b)) bs)"

fun sample_hex_decode :: "string \<Rightarrow> bytes option" where
  "sample_hex_decode [] = Some []"
| "sample_hex_decode [c] = None"
| "sample_hex_decode (c # d # cs) =
     (case hex_digit c of None \<Rightarrow> None | Some hi \<Rightarrow>
      case hex_digit d of None \<Rightarrow> None | Some lo \<Rightarrow>
      map_option (\<lambda>bs. word_of_nat (16 * hi + lo) # bs) (sample_hex_decode cs))"

definition sample_tx_out :: "tx_out \<Rightarrow> bytes" where
  "sample_tx_out out = to_le 8 (unat (txo_value out)) @ [word_of_nat (length (txo_script out))] @ txo_script out"

definition sample_tx_in :: "tx_in \<Rightarrow> bytes" where
  "sample_tx_in i = prev_txid i @ to_le 4 (unat (prev_vout i)) @
     [word_of_nat (length (script_sig i))] @ script_sig i @ to_le 4 (unat (sequence i))"

definition sample_tx_serialize :: "transaction \<Rightarrow> bytes" where
  "sample_tx_serialize tx =
     to_le 4 (unat (tx_version tx)) @ [word_of_nat (length (tx_inputs tx))] @
     concat (map sample_tx_in (tx_inputs tx)) @ [word_of_nat (length (tx_outputs tx))] @
     concat (map sample_tx_out (tx_outputs tx)) @ to_le 4 (unat (tx_lock_time tx))"

definition sample_crates :: crates where
  "sample_crates =
     \<lparr> hex_encode = sample_hex_encode, hex_decode = sample_hex_decode,
       hex_decode_to_slice = (\<lambda>n s. case sample_hex_decode s of
          None \<Rightarrow> None | Some b \<Rightarrow> if length b = n then Some b else None),
       sha256 = (\<lambda>d. take 32 (d @ replicate 32 0)),
       tx_serialize = sample_tx_serialize, tx_deserialize = (\<lambda>_. None) \<rparr>"

lemma sample_hex_roundtrip: "sample_hex_decode (sample_hex_encode bs) = Some bs"
proof (induction bs)
  case Nil
  then show ?case by (simp add: sample_hex_encode_def)
next
  case (Cons b bs)
  have "16 * (unat b div 16 mod 16) + unat b mod 16 = unat b"
    using unat_byte_lt [of b] by (simp add: less_mult_imp_div_less)
  with Cons show ?case
    by (simp add: sample_hex_encode_def numeral_2_eq_2)
qed

lemma sample_crates_ok: "hex_ok sample_crates" "sha_ok sample_crates" "tx_layout_ok sample_crates"
  by (auto simp: hex_ok_def sha_ok_def tx_layout_ok_def sample_crates_def sample_hex_roundtrip
        sample_tx_serialize_def sample_tx_in_def)

end
