(* ===== verification/Coinbase.thy ===== *)
theory Coinbase
  imports Crates
begin

text \<open>
  Construction of the coinbase transaction (\<open>src/bitcoin/template.rs\<close>): the BIP34 height push,
  the bounds on the \<open>scriptSig\<close>, and the serialized transaction with the offset of its
  extranonce region.  Byte counts are \<open>nat\<close>: a \<open>Vec\<close> is bounded by the address space, so the
  source's \<open>u64\<close> weight arithmetic cannot wrap.
\<close>

section \<open>Definitions\<close>

definition MAX_COINBASE_SCRIPT_SIG :: nat where
  "MAX_COINBASE_SCRIPT_SIG = 100"

definition MIN_COINBASE_SCRIPT_SIG :: nat where
  "MIN_COINBASE_SCRIPT_SIG = 2"

definition COINBASE_WEIGHT_RESERVE :: nat where
  "COINBASE_WEIGHT_RESERVE = 4000"

definition SCRIPT_SIG_OFFSET :: nat where
  "SCRIPT_SIG_OFFSET = 4 + 1 + 36 + 1"

definition check_coinbase_script_sig_len :: "nat \<Rightarrow> unit result" where
  "check_coinbase_script_sig_len len =
     (if \<not> (MIN_COINBASE_SCRIPT_SIG \<le> len \<and> len \<le> MAX_COINBASE_SCRIPT_SIG)
      then Inl (Other ''coinbase scriptSig length outside consensus bounds'') else Inr ())"

text \<open>The loop \<open>while n > 0 \{ bytes.push(n & 0xff); n >>= 8; \}\<close>.\<close>

function height_bytes :: "u64 \<Rightarrow> bytes" where
  "height_bytes n = (if 0 < n then ucast (and n 0xff) # height_bytes (drop_bit 8 n) else [])"
  by pat_completeness auto
termination
proof (relation "measure unat")
  fix n :: u64
  assume "0 < n"
  then have "0 < unat n" by (simp add: word_less_nat_alt)
  then show "(drop_bit 8 n, n) \<in> measure unat" by (simp add: unat_drop_bit)
qed simp

declare height_bytes.simps [simp del]

definition encode_bip34_height :: "u64 \<Rightarrow> bytes" where
  "encode_bip34_height height =
     (if height = 0 then [0]
      else if height \<le> 16 then [0x50 + ucast height]
      else
        let bytes = height_bytes height;
            bytes = (if bytes \<noteq> [] \<and> and (last bytes) 0x80 \<noteq> 0 then bytes @ [0] else bytes)
        in word_of_nat (length bytes) # bytes)"

text \<open>\<open>haystack.windows(n).position(|w| w == needle)\<close>; the needle is never empty here.\<close>

fun find_bytes :: "bytes \<Rightarrow> bytes \<Rightarrow> nat option" where
  "find_bytes haystack needle =
     (if length haystack < length needle \<or> haystack = [] then None
      else if take (length needle) haystack = needle then Some 0
      else map_option Suc (find_bytes (tl haystack) needle))"

declare find_bytes.simps [simp del]

definition coinbase_tx :: "bytes \<Rightarrow> u64 \<Rightarrow> bytes \<Rightarrow> bytes option \<Rightarrow> transaction" where
  "coinbase_tx script_sig_content reward reward_script witness_commitment =
     \<lparr> tx_version = 1, tx_lock_time = 0,
       tx_inputs = [\<lparr> prev_txid = replicate 32 0, prev_vout = 0xFFFFFFFF,
                      script_sig = script_sig_content, sequence = 0xFFFFFFFF, witness = [] \<rparr>],
       tx_outputs = \<lparr> txo_value = reward, txo_script = reward_script \<rparr> #
         (case witness_commitment of None \<Rightarrow> []
          | Some witness_script \<Rightarrow> [\<lparr> txo_value = 0, txo_script = witness_script \<rparr>]) \<rparr>"

definition as_bytes :: "string \<Rightarrow> bytes" where
  "as_bytes s = map of_char s"

definition build_coinbase ::
  "crates \<Rightarrow> u64 \<Rightarrow> u64 \<Rightarrow> bytes \<Rightarrow> string \<Rightarrow> nat \<Rightarrow> nat \<Rightarrow> bytes option \<Rightarrow> (bytes \<times> nat) result" where
  "build_coinbase cr height reward reward_script tag extranonce1_len extranonce2_len witness_commitment =
     (let height_script = encode_bip34_height height;
          tag_bytes = as_bytes tag;
          en_total = extranonce1_len + extranonce2_len in
      if en_total = 0 then Inl (Other ''Total extranonce width must be at least one byte'')
      else
        let script_sig_len = length height_script + length tag_bytes + en_total in
        bind_res (check_coinbase_script_sig_len script_sig_len) (\<lambda>_.
          let content = height_script @ tag_bytes @ replicate en_total 0;
              serialized = tx_serialize cr (coinbase_tx content reward reward_script witness_commitment) in
          if find_bytes serialized content \<noteq> Some SCRIPT_SIG_OFFSET
          then Inl (Other ''coinbase scriptSig is not at the expected offset'')
          else if COINBASE_WEIGHT_RESERVE < length serialized * 4 + 36
          then Inl (Other ''coinbase weighs more than the reserve'')
          else Inr (serialized, SCRIPT_SIG_OFFSET + length height_script + length tag_bytes)))"

section \<open>The height push\<close>

lemma length_as_bytes [simp]: "length (as_bytes s) = length s"
  by (simp add: as_bytes_def)

lemma height_bytes_0 [simp]: "height_bytes 0 = []"
  by (simp add: height_bytes.simps)

lemma height_bytes_step:
  "n \<noteq> 0 \<Longrightarrow> height_bytes n = ucast (and n 0xff) # height_bytes (drop_bit 8 n)"
  by (subst height_bytes.simps) (simp add: word_gt_0)

lemma unat_low_byte: "unat (ucast (and (n :: u64) 0xff) :: u8) = unat n mod 256"
  using unat_and_mask [of n 8] by (simp add: unat_ucast_mod mask_eq_exp_minus_1)

lemma le_nat_height_bytes: "le_nat (height_bytes n) = unat n"
proof (induction n rule: height_bytes.induct)
  case (1 n)
  show ?case
  proof (cases "n = 0")
    case False
    with 1 have "le_nat (height_bytes (drop_bit 8 n)) = unat n div 256"
      by (simp add: word_gt_0 unat_drop_bit)
    with False show ?thesis by (simp add: height_bytes_step unat_low_byte)
  qed simp
qed

lemma height_bytes_last: "n \<noteq> 0 \<Longrightarrow> height_bytes n \<noteq> [] \<and> last (height_bytes n) \<noteq> 0"
proof (induction n rule: height_bytes.induct)
  case (1 n)
  show ?case
  proof (cases "drop_bit 8 n = 0")
    case True
    then have "unat n div 256 = 0" using unat_drop_bit [of 8 n] by simp
    then have "unat n mod 256 = unat n" by simp
    moreover have "unat n \<noteq> 0" using 1 by (simp add: unat_eq_0)
    ultimately have "unat (ucast (and n 0xff) :: u8) \<noteq> 0" using unat_low_byte [of n] by simp
    then have "(ucast (and n 0xff) :: u8) \<noteq> 0" by (metis unat_0)
    then show ?thesis using True 1 by (simp add: height_bytes_step)
  next
    case False
    with 1 have "height_bytes (drop_bit 8 n) \<noteq> [] \<and> last (height_bytes (drop_bit 8 n)) \<noteq> 0"
      by (simp add: word_gt_0)
    with 1 show ?thesis by (simp add: height_bytes_step)
  qed
qed

lemma height_bytes_length: "unat n < 256 ^ k \<Longrightarrow> length (height_bytes n) \<le> k"
proof (induction k arbitrary: n)
  case 0
  then have "n = 0" by (simp add: unat_eq_0)
  then show ?case by simp
next
  case (Suc k)
  show ?case
  proof (cases "n = 0")
    case False
    have "unat n div 256 < 256 ^ k" using Suc.prems by (simp add: less_mult_imp_div_less mult.commute)
    then have "length (height_bytes (drop_bit 8 n)) \<le> k"
      using Suc.IH by (simp add: unat_drop_bit)
    with False show ?thesis by (simp add: height_bytes_step)
  qed simp
qed

lemma sign_bit_iff: "and b 0x80 \<noteq> 0 \<longleftrightarrow> 128 \<le> unat (b :: u8)"
proof -
  have "and b 0x80 = 0 \<longleftrightarrow> \<not> bit b 7"
    using and_exp_eq_0_iff_not_bit [of b 7] by simp
  moreover have "bit b 7 \<longleftrightarrow> odd (unat b div 128)"
    using bit_unsigned_iff [of b 7, where 'a = nat] by (simp add: bit_iff_odd)
  moreover have "odd (unat b div 128) \<longleftrightarrow> 128 \<le> unat b"
  proof -
    have "unat b div 128 < 2" using unat_byte_lt [of b] by (simp add: less_mult_imp_div_less)
    then have "unat b div 128 = 0 \<or> unat b div 128 = 1" by linarith
    then show ?thesis by (auto simp: div_eq_0_iff)
  qed
  ultimately show ?thesis by blast
qed

lemma le_nat_ge_last: "bs \<noteq> [] \<Longrightarrow> unat (last bs) * 256 ^ (length bs - 1) \<le> le_nat bs"
  using le_nat_append [of "butlast bs" "[last bs]"] by (simp add: mult.commute)

lemma encode_bip34_length_ge: "1 \<le> length (encode_bip34_height h)"
  by (simp add: encode_bip34_height_def Let_def)

lemma encode_bip34_length_le:
  assumes "unat h < 2 ^ 31"
  shows "length (encode_bip34_height h) \<le> 5"
proof (cases "h \<le> 16")
  case True
  then show ?thesis by (simp add: encode_bip34_height_def)
next
  case False
  then have h0: "h \<noteq> 0" by auto
  let ?b = "height_bytes h"
  have b: "?b \<noteq> []" using height_bytes_last [OF h0] by simp
  have l4: "length ?b \<le> 4" using assms by (intro height_bytes_length) simp
  have "and (last ?b) 0x80 = 0" if "length ?b = 4"
  proof -
    have "unat (last ?b) * 256 ^ 3 \<le> unat h"
      using le_nat_ge_last [OF b] that by (simp add: le_nat_height_bytes)
    then have "unat (last ?b) < 128" using assms by simp
    then show ?thesis using sign_bit_iff [of "last ?b"] by auto
  qed
  then have "length ?b \<le> 3 \<or> and (last ?b) 0x80 = 0" using l4 by linarith
  with False h0 b l4 show ?thesis by (auto simp: encode_bip34_height_def Let_def)
qed

text \<open>
  The BIP34 push is the minimal script number of the height: one opcode up to 16, otherwise a
  length byte and the little-endian bytes, whose value is the height, whose top bit is clear
  (so it does not read as negative); and the height is at least half of \<open>256^(n-1)\<close> for \<open>n\<close>
  bytes, so no shorter string with a clear top bit carries it.
\<close>

theorem encode_bip34_height_spec:
  "if h = 0 then encode_bip34_height h = [0]
   else if h \<le> 16 then encode_bip34_height h = [0x50 + word_of_nat (unat h)]
   else \<exists>bs. encode_bip34_height h = word_of_nat (length bs) # bs \<and> bs \<noteq> [] \<and> length bs \<le> 9
        \<and> le_nat bs = unat h \<and> unat (last bs) < 128
        \<and> 256 ^ (length bs - 1) \<le> 2 * unat h"
proof (cases "h \<le> 16")
  case True
  then show ?thesis by (simp add: encode_bip34_height_def)
next
  case False
  then have h0: "h \<noteq> 0" by auto
  let ?b = "height_bytes h"
  have b: "?b \<noteq> []" "last ?b \<noteq> 0" using height_bytes_last [OF h0] by simp_all
  have l8: "length ?b \<le> 8" using unat_lt [of h] by (intro height_bytes_length) simp
  have ge: "unat (last ?b) * 256 ^ (length ?b - 1) \<le> unat h"
    using le_nat_ge_last [OF b(1)] by (simp add: le_nat_height_bytes)
  show ?thesis
  proof (cases "and (last ?b) 0x80 = 0")
    case True
    then have "unat (last ?b) < 128" using sign_bit_iff [of "last ?b"] by auto
    moreover
    have "1 * 256 ^ (length ?b - 1) \<le> unat (last ?b) * 256 ^ (length ?b - 1)"
      using b(2) by (intro mult_right_mono) (simp_all add: unat_gt_0 Suc_le_eq)
    then have "256 ^ (length ?b - 1) \<le> 2 * unat h" using ge by linarith
    ultimately show ?thesis
      using False h0 True b l8
      by (auto simp: encode_bip34_height_def Let_def le_nat_height_bytes intro!: exI [of _ ?b])
  next
    case neg: False
    then have "128 \<le> unat (last ?b)" using sign_bit_iff by blast
    then have "128 * 256 ^ (length ?b - 1) \<le> unat (last ?b) * 256 ^ (length ?b - 1)"
      by (rule mult_right_mono) simp
    moreover have "256 ^ length ?b = 256 * (256 :: nat) ^ (length ?b - 1)"
      using b(1) by (cases ?b) auto
    ultimately have "256 ^ length ?b \<le> 2 * unat h" using ge by linarith
    then show ?thesis
      using False h0 neg b l8
      by (auto simp: encode_bip34_height_def Let_def le_nat_append le_nat_height_bytes intro!: exI [of _ "?b @ [0]"])
  qed
qed

section \<open>Where the extranonce lands\<close>

lemma find_bytes_Some_0: "take (length n) h = n \<Longrightarrow> h \<noteq> [] \<Longrightarrow> find_bytes h n = Some 0"
  by (subst find_bytes.simps) (auto dest: arg_cong [of _ _ length])

lemma find_bytes_skip:
  assumes "take (length n) (x # h) \<noteq> n" "length n \<le> length h"
  shows "find_bytes (x # h) n = map_option Suc (find_bytes h n)"
  using assms by (subst find_bytes.simps) auto

lemma find_bytes_skip_append:
  assumes "\<And>i. i < length p \<Longrightarrow> take (length n) (drop i (p @ n @ q)) \<noteq> n" "n \<noteq> []"
  shows "find_bytes (p @ n @ q) n = Some (length p)"
  using assms(1)
proof (induction p)
  case Nil
  then show ?case using assms(2) by (simp add: find_bytes_Some_0)
next
  case (Cons x p)
  have "find_bytes (p @ n @ q) n = Some (length p)"
    using Cons.prems [of "Suc _"] by (intro Cons.IH) simp
  moreover have "take (length n) (x # p @ n @ q) \<noteq> n" using Cons.prems [of 0] by simp
  ultimately show ?case by (simp add: find_bytes_skip)
qed

text \<open>
  The 42 bytes before the \<open>scriptSig\<close> of a coinbase input, and why the content cannot occur
  earlier: its first byte is neither zero nor \<open>0xff\<close>, and where the first byte could match (the
  version, the count, the length byte) what follows does not.
\<close>

definition coinbase_prefix :: "nat \<Rightarrow> bytes" where
  "coinbase_prefix n = [1, 0, 0, 0, 1] @ replicate 32 0 @ [0xff, 0xff, 0xff, 0xff] @ [word_of_nat n]"

lemma length_coinbase_prefix [simp]: "length (coinbase_prefix n) = 42"
  by (simp add: coinbase_prefix_def)

lemma coinbase_prefix_nth:
  "i < 42 \<Longrightarrow> coinbase_prefix n ! i =
     (if i = 0 \<or> i = 4 then 1 else if i < 37 then 0 else if i < 41 then 0xff else word_of_nat n)"
  by (auto simp: coinbase_prefix_def nth_append nth_Cons split: nat.split)

lemma encode_bip34_first:
  assumes "h \<noteq> 0"
  shows "\<exists>b rest. encode_bip34_height h = b # rest \<and> b \<noteq> 0 \<and> b \<noteq> 0xff
          \<and> (b = 1 \<longrightarrow> (\<exists>c rest'. rest = c # rest' \<and> c \<noteq> 0))"
proof (cases "h \<le> 16")
  case True
  have "unat h \<le> 16" "0 < unat h" using True assms by (simp_all add: word_le_nat_alt unat_gt_0)
  define x :: u8 where "x = 0x50 + ucast h"
  have "unat x = 0x50 + unat h"
    using \<open>unat h \<le> 16\<close> by (simp add: x_def unat_word_ariths unat_ucast_mod)
  then have "x \<notin> {0, 1, 0xff}"
    using \<open>unat h \<le> 16\<close> by (auto dest: arg_cong [of _ _ unat])
  with True assms show ?thesis by (simp add: encode_bip34_height_def x_def [symmetric])
next
  case False
  let ?b = "height_bytes h"
  let ?c = "if and (last ?b) 0x80 \<noteq> 0 then ?b @ [0] else ?b"
  have b: "?b \<noteq> []" "last ?b \<noteq> 0" using height_bytes_last [OF assms] by simp_all
  have "length ?b \<le> 8" using unat_lt [of h] by (intro height_bytes_length) simp
  then have l: "1 \<le> length ?c" "length ?c \<le> 9" using b by (auto simp: Suc_le_eq)
  have e: "encode_bip34_height h = word_of_nat (length ?c) # ?c"
    using False assms b by (simp add: encode_bip34_height_def Let_def)
  define n where "n = length ?c"
  have u: "unat (word_of_nat n :: u8) = n" using l by (simp add: n_def [symmetric])
  have "(word_of_nat n :: u8) \<notin> {0, 0xff}"
    using u l by (auto simp: n_def [symmetric] dest: arg_cong [of _ _ unat])
  moreover have "\<exists>c rest'. ?c = c # rest' \<and> c \<noteq> 0" if "(word_of_nat n :: u8) = 1"
  proof -
    have "length ?c = 1" using u arg_cong [OF that, of unat] by (simp add: n_def)
    then have "length ?b = 1" "?c = ?b" using b by (auto split: if_splits)
    then show ?thesis using b by (cases ?b) auto
  qed
  ultimately show ?thesis using e unfolding n_def by blast
qed

lemma content_not_in_prefix:
  assumes h: "h \<noteq> 0" and t: "0 < t" and i: "i < 42"
    and content_def: "content = encode_bip34_height h @ tag @ replicate t 0"
  shows "take (length content) (drop i (coinbase_prefix (length content) @ content @ q)) \<noteq> content"
proof
  let ?s = "coinbase_prefix (length content) @ content @ q"
  assume eq: "take (length content) (drop i ?s) = content"
  have nth: "content ! k = ?s ! (i + k)" if "k < length content" for k
  proof -
    have "i \<le> length ?s" using i by simp
    then have "drop i ?s ! k = ?s ! (i + k)" by (rule nth_drop)
    then show ?thesis using nth_take [OF that, of "drop i ?s"] unfolding eq by simp
  qed
  obtain b rest where br: "encode_bip34_height h = b # rest" "b \<noteq> 0" "b \<noteq> 0xff"
      "b = 1 \<longrightarrow> (\<exists>c rest'. rest = c # rest' \<and> c \<noteq> 0)"
    using encode_bip34_first [OF h] by blast
  have c0: "content ! 0 = b" "0 < length content" by (simp_all add: content_def br)
  have "?s ! i = coinbase_prefix (length content) ! i" using i by (simp add: nth_append)
  with nth [of 0] c0 have b: "b = coinbase_prefix (length content) ! i" by simp
  consider "i = 0 \<or> i = 4" | "i = 41" | "i \<noteq> 0" "i \<noteq> 4" "i < 41" using i by linarith
  then show False
  proof cases
    case 1
    then have "b = 1" using b by (auto simp: coinbase_prefix_nth)
    then obtain c rest' where c: "rest = c # rest'" "c \<noteq> 0" using br(4) by auto
    then have "content ! 1 = c" "1 < length content" by (simp_all add: content_def br)
    moreover have "?s ! (i + 1) = 0" using 1 by (auto simp: nth_append coinbase_prefix_nth)
    ultimately show False using nth [of 1] c(2) by simp
  next
    case 2
    have all: "content ! k = b" if "k < length content" for k
      using that
    proof (induction k)
      case 0
      show ?case by (rule c0(1))
    next
      case (Suc k)
      have "content ! Suc k = ?s ! (42 + k)" using nth [OF Suc.prems] 2 by simp
      also have "\<dots> = content ! k" using Suc.prems by (simp add: nth_append)
      finally show ?case using Suc by simp
    qed
    have "last content = 0" using t by (simp add: content_def)
    then have "content ! (length content - 1) = 0" using c0 by (simp add: last_conv_nth)
    then show False using all [of "length content - 1"] c0 br(2) by simp
  next
    case 3
    then have "b = 0 \<or> b = 0xff" using b by (auto simp: coinbase_prefix_nth split: if_splits)
    then show False using br by simp
  qed
qed

lemma coinbase_serialized:
  assumes "tx_layout_ok cr" "length content < 253"
  shows "\<exists>q. tx_serialize cr (coinbase_tx content reward script wc) =
           coinbase_prefix (length content) @ content @ q"
proof -
  have ff: "to_le 4 0xFFFFFFFF = [0xff, 0xff, 0xff, 0xff]" "to_le 4 (Suc 0) = [1, 0, 0, 0]"
    by (simp_all add: to_le_numeral)
  let ?tx = "coinbase_tx content reward script wc" and ?i = "hd (tx_inputs (coinbase_tx content reward script wc))"
  have "tx_inputs ?tx = [?i]" "witness ?i = []" "script_sig ?i = content" by (simp_all add: coinbase_tx_def)
  with assms obtain tail where "tx_serialize cr ?tx =
      to_le 4 (unat (tx_version ?tx)) @ [1] @ prev_txid ?i @ to_le 4 (unat (prev_vout ?i)) @
      [word_of_nat (length (script_sig ?i))] @ script_sig ?i @ to_le 4 (unat (sequence ?i)) @ tail"
    unfolding tx_layout_ok_def by metis
  then show ?thesis by (simp add: coinbase_tx_def coinbase_prefix_def ff)
qed

lemma build_coinbase_run:
  assumes cr: "tx_layout_ok cr" and h: "height \<noteq> 0" and t: "0 < e1 + e2"
    and len: "length (encode_bip34_height height) + length tag + (e1 + e2) \<le> 100"
  shows "\<exists>p q. length p = 42 \<and>
    build_coinbase cr height reward script tag e1 e2 wc =
      (let ser = p @ encode_bip34_height height @ as_bytes tag @ replicate (e1 + e2) 0 @ q in
       if COINBASE_WEIGHT_RESERVE < length ser * 4 + 36 then Inl (Other ''coinbase weighs more than the reserve'')
       else Inr (ser, 42 + length (encode_bip34_height height) + length tag))"
proof -
  define content where "content = encode_bip34_height height @ as_bytes tag @ replicate (e1 + e2) 0"
  have clen: "2 \<le> length content" "length content \<le> 100"
    using len t encode_bip34_length_ge [of height] unfolding content_def length_append length_replicate length_as_bytes
    by linarith+
  obtain q where ser: "tx_serialize cr (coinbase_tx content reward script wc) =
      coinbase_prefix (length content) @ content @ q"
    using coinbase_serialized [OF cr, of content] clen by force
  have "find_bytes (coinbase_prefix (length content) @ content @ q) content = Some 42"
    using find_bytes_skip_append [of "coinbase_prefix (length content)" content q]
      content_not_in_prefix [OF h t _ content_def] clen by fastforce
  moreover have "check_coinbase_script_sig_len
      (length (encode_bip34_height height) + length tag + (e1 + e2)) = Inr ()"
    using clen by (simp add: check_coinbase_script_sig_len_def content_def
        MIN_COINBASE_SCRIPT_SIG_def MAX_COINBASE_SCRIPT_SIG_def add.assoc)
  ultimately have "build_coinbase cr height reward script tag e1 e2 wc =
      (let ser = coinbase_prefix (length content) @ content @ q in
       if COINBASE_WEIGHT_RESERVE < length ser * 4 + 36 then Inl (Other ''coinbase weighs more than the reserve'')
       else Inr (ser, 42 + length (encode_bip34_height height) + length tag))"
    using t unfolding build_coinbase_def
    by (simp add: Let_def content_def [symmetric] ser SCRIPT_SIG_OFFSET_def)
  then show ?thesis
    unfolding content_def
    by (intro exI [of _ "coinbase_prefix (length content)"] exI [of _ q]) (simp add: content_def)
qed

lemma find_bytes_Some: "find_bytes h n = Some i \<Longrightarrow> \<exists>p q. length p = i \<and> h = p @ n @ q"
proof (induction h n arbitrary: i rule: find_bytes.induct)
  case (1 h n)
  show ?case
  proof (cases "take (length n) h = n")
    case True
    then have "h = n @ drop (length n) h" by (metis append_take_drop_id)
    moreover have "i = 0" using 1 True by (subst (asm) find_bytes.simps) (auto split: if_splits)
    ultimately show ?thesis by (metis append_Nil list.size(3))
  next
    case False
    with 1 have h: "\<not> (length h < length n \<or> h = [])"
      by (subst (asm) (2) find_bytes.simps) (auto split: if_splits)
    with 1(2) False obtain j where j: "i = Suc j" "find_bytes (tl h) n = Some j"
      by (subst (asm) find_bytes.simps) auto
    from 1(1) [OF h False j(2)] obtain p q where pq: "length p = j" "tl h = p @ n @ q" by blast
    then have "length (hd h # p) = i" "h = (hd h # p) @ n @ q" using h j by (auto simp: pq(2) [symmetric])
    then show ?thesis by blast
  qed
qed

lemma check_len_Inr [simp]: "check_coinbase_script_sig_len n = Inr u \<longleftrightarrow> 2 \<le> n \<and> n \<le> 100"
  by (auto simp: check_coinbase_script_sig_len_def MIN_COINBASE_SCRIPT_SIG_def MAX_COINBASE_SCRIPT_SIG_def)

lemma build_coinbase_Inr:
  assumes "build_coinbase cr height reward script tag e1 e2 wc = Inr (ser, off)"
  shows "\<exists>p q. length p = 42 \<and> 0 < e1 + e2
    \<and> length (encode_bip34_height height) + length tag + (e1 + e2) \<le> 100
    \<and> off = 42 + length (encode_bip34_height height) + length tag
    \<and> ser = p @ encode_bip34_height height @ as_bytes tag @ replicate (e1 + e2) 0 @ q
    \<and> length ser * 4 + 36 \<le> 4000"
proof -
  define content where "content = encode_bip34_height height @ as_bytes tag @ replicate (e1 + e2) 0"
  from assms have
    t: "0 < e1 + e2" and
    l: "length (encode_bip34_height height) + length tag + (e1 + e2) \<le> 100" and
    ser: "ser = tx_serialize cr (coinbase_tx content reward script wc)" and
    f: "find_bytes ser content = Some 42" and
    o: "off = 42 + length (encode_bip34_height height) + length tag" and
    w: "length ser * 4 + 36 \<le> 4000"
    by (auto simp: build_coinbase_def Let_def content_def bind_res_Inr SCRIPT_SIG_OFFSET_def
        COINBASE_WEIGHT_RESERVE_def split: if_splits)
  from find_bytes_Some [OF f] obtain p q where "length p = 42" "ser = p @ content @ q" by blast
  with t l o w show ?thesis by (auto simp: content_def)
qed

text \<open>
  C25: For every height from 1, tag and extranonce widths within the 100-byte \<open>scriptSig\<close> cap, the
  coinbase builds: the byte search finds the script at its computed offset and nowhere before
  it, so the only refusal left is the weight reserve, and the extranonce region is the zeroed
  bytes right behind height push and tag.
\<close>

theorem build_coinbase_total:
  assumes "tx_layout_ok cr" "height \<noteq> 0" "0 < e1 + e2"
    and "length (encode_bip34_height height) + length tag + (e1 + e2) \<le> 100"
  shows "\<exists>p q. length p = 42 \<and>
    build_coinbase cr height reward script tag e1 e2 wc =
      (let ser = p @ encode_bip34_height height @ as_bytes tag @ replicate (e1 + e2) 0 @ q in
       if COINBASE_WEIGHT_RESERVE < length ser * 4 + 36 then Inl (Other ''coinbase weighs more than the reserve'')
       else Inr (ser, 42 + length (encode_bip34_height height) + length tag))"
  using build_coinbase_run [OF assms] .

theorem build_coinbase_total_witness:
  "encode_bip34_height 1 = [0x51] \<and>
   (\<exists>p q. length p = 42 \<and>
    build_coinbase sample_crates 1 5000000000 [0x51] ''/pool/'' 4 4 None =
      (let ser = p @ encode_bip34_height 1 @ as_bytes ''/pool/'' @ replicate (4 + 4) 0 @ q in
       if COINBASE_WEIGHT_RESERVE < length ser * 4 + 36 then Inl (Other ''coinbase weighs more than the reserve'')
       else Inr (ser, 42 + length (encode_bip34_height 1) + length ''/pool/'')))"
proof
  show e: "encode_bip34_height 1 = [0x51]" by (simp add: encode_bip34_height_def word_le_nat_alt)
  show "\<exists>p q. length p = 42 \<and>
    build_coinbase sample_crates 1 5000000000 [0x51] ''/pool/'' 4 4 None =
      (let ser = p @ encode_bip34_height 1 @ as_bytes ''/pool/'' @ replicate (4 + 4) 0 @ q in
       if COINBASE_WEIGHT_RESERVE < length ser * 4 + 36 then Inl (Other ''coinbase weighs more than the reserve'')
       else Inr (ser, 42 + length (encode_bip34_height 1) + length ''/pool/''))"
    by (rule build_coinbase_total [OF sample_crates_ok(3)]) (simp_all add: e)
qed

end
