(* ===== verification/F64.thy ===== *)
theory F64
  imports Prelude
begin

text \<open>
  IEEE 754 binary64, as \<open>f64\<close> uses it: a finite value is the rational it denotes, and every
  arithmetic result is the exact rational rounded to nearest, ties to even, with 53
  significant bits, gradual underflow below \<open>2^-1022\<close> and overflow to infinity at
  \<open>2^1024\<close>.  The two zeros are one value; no code modelled here divides by a negative zero or
  reads its sign.  The transcendental functions are not part of this theory: their precision
  is unspecified, so a component that calls one takes it as a parameter.
\<close>

section \<open>Exponents and rounding\<close>

fun ilog2_nat :: "nat \<Rightarrow> nat" where
  "ilog2_nat n = (if n < 2 then 0 else Suc (ilog2_nat (n div 2)))"

declare ilog2_nat.simps [simp del]

definition ilog2 :: "rat \<Rightarrow> int" where
  "ilog2 x = (if 1 \<le> x then int (ilog2_nat (nat \<lfloor>x\<rfloor>))
              else - int (ilog2_nat (nat (\<lceil>1 / x\<rceil> - 1))) - 1)"

definition pow2 :: "int \<Rightarrow> rat" where
  "pow2 e = (if 0 \<le> e then 2 ^ nat e else 1 / 2 ^ nat (- e))"

definition round_even :: "rat \<Rightarrow> int" where
  "round_even x =
     (let f = \<lfloor>x\<rfloor>; d = x - of_int f in
      if d < 1 / 2 then f else if 1 / 2 < d then f + 1 else if even f then f else f + 1)"

definition ulp_exp :: "rat \<Rightarrow> int" where
  "ulp_exp x = max (ilog2 x) (- 1022) - 52"

definition rnd_pos :: "rat \<Rightarrow> rat" where
  "rnd_pos x = of_int (round_even (x / pow2 (ulp_exp x))) * pow2 (ulp_exp x)"

definition rnd :: "rat \<Rightarrow> rat" where
  "rnd x = (if 0 < x then rnd_pos x else if x < 0 then - rnd_pos (- x) else 0)"

section \<open>Values and operations\<close>

text \<open>\<open>Inf True\<close> is negative infinity.\<close>

datatype f64 = NaN | Inf bool | Fin rat

definition f64_of :: "rat \<Rightarrow> f64" where
  "f64_of x = (let r = rnd x in
               if 2 ^ 1024 \<le> r then Inf False else if r \<le> - (2 ^ 1024) then Inf True else Fin r)"

definition f64_of_nat :: "nat \<Rightarrow> f64" where
  "f64_of_nat n = f64_of (of_nat n)"

definition f64_of_word :: "'a::len word \<Rightarrow> f64" where
  "f64_of_word w = f64_of_nat (unat w)"

fun f_neg :: "f64 \<Rightarrow> f64" where
  "f_neg NaN = NaN"
| "f_neg (Inf s) = Inf (\<not> s)"
| "f_neg (Fin x) = Fin (- x)"

fun f_add :: "f64 \<Rightarrow> f64 \<Rightarrow> f64" where
  "f_add (Fin x) (Fin y) = f64_of (x + y)"
| "f_add (Inf s) (Inf t) = (if s = t then Inf s else NaN)"
| "f_add (Inf s) (Fin y) = Inf s"
| "f_add (Fin x) (Inf t) = Inf t"
| "f_add NaN y = NaN"
| "f_add x NaN = NaN"

definition f_sub :: "f64 \<Rightarrow> f64 \<Rightarrow> f64" where
  "f_sub x y = f_add x (f_neg y)"

fun f_mul :: "f64 \<Rightarrow> f64 \<Rightarrow> f64" where
  "f_mul (Fin x) (Fin y) = f64_of (x * y)"
| "f_mul (Inf s) (Inf t) = Inf (s \<noteq> t)"
| "f_mul (Inf s) (Fin y) = (if y = 0 then NaN else Inf (s \<noteq> (y < 0)))"
| "f_mul (Fin x) (Inf t) = (if x = 0 then NaN else Inf ((x < 0) \<noteq> t))"
| "f_mul NaN y = NaN"
| "f_mul x NaN = NaN"

fun f_div :: "f64 \<Rightarrow> f64 \<Rightarrow> f64" where
  "f_div (Fin x) (Fin y) =
     (if y = 0 then (if x = 0 then NaN else Inf (x < 0)) else f64_of (x / y))"
| "f_div (Inf s) (Inf t) = NaN"
| "f_div (Inf s) (Fin y) = Inf (s \<noteq> (y < 0))"
| "f_div (Fin x) (Inf t) = Fin 0"
| "f_div NaN y = NaN"
| "f_div x NaN = NaN"

fun f_lt :: "f64 \<Rightarrow> f64 \<Rightarrow> bool" where
  "f_lt (Fin x) (Fin y) = (x < y)"
| "f_lt (Inf s) (Inf t) = (s \<and> \<not> t)"
| "f_lt (Inf s) (Fin y) = s"
| "f_lt (Fin x) (Inf t) = (\<not> t)"
| "f_lt NaN y = False"
| "f_lt x NaN = False"

fun f_eq :: "f64 \<Rightarrow> f64 \<Rightarrow> bool" where
  "f_eq NaN y = False"
| "f_eq x y = (x = y)"

definition f_le :: "f64 \<Rightarrow> f64 \<Rightarrow> bool" where
  "f_le x y \<longleftrightarrow> f_lt x y \<or> f_eq x y"

definition is_finite :: "f64 \<Rightarrow> bool" where
  "is_finite x = (case x of Fin _ \<Rightarrow> True | _ \<Rightarrow> False)"

text \<open>\<open>f64::max\<close> and \<open>f64::min\<close> return the other operand when one is a NaN.\<close>

definition f_max :: "f64 \<Rightarrow> f64 \<Rightarrow> f64" where
  "f_max x y = (if x = NaN then y else if y = NaN then x else if f_lt x y then y else x)"

definition f_min :: "f64 \<Rightarrow> f64 \<Rightarrow> f64" where
  "f_min x y = (if x = NaN then y else if y = NaN then x else if f_lt y x then y else x)"

text \<open>\<open>f64::clamp\<close> panics unless \<open>lo <= hi\<close>; the panic is \<open>None\<close>.\<close>

definition f_clamp :: "f64 \<Rightarrow> f64 \<Rightarrow> f64 \<Rightarrow> f64 option" where
  "f_clamp x lo hi =
     (if f_le lo hi then Some (if f_lt x lo then lo else if f_lt hi x then hi else x) else None)"

text \<open>\<open>f64::round\<close>: to the nearest integer, halves away from zero.\<close>

definition round_away :: "rat \<Rightarrow> rat" where
  "round_away x = (if 0 \<le> x then of_int \<lfloor>x + 1 / 2\<rfloor> else - of_int \<lfloor>1 / 2 - x\<rfloor>)"

fun f_round :: "f64 \<Rightarrow> f64" where
  "f_round (Fin x) = Fin (round_away x)"
| "f_round x = x"

text \<open>The cast \<open>as u64\<close>: truncation, saturating at the ends of the type, a NaN is \<open>0\<close>.\<close>

fun f_to_u64 :: "f64 \<Rightarrow> u64" where
  "f_to_u64 NaN = 0"
| "f_to_u64 (Inf s) = (if s then 0 else - 1)"
| "f_to_u64 (Fin x) =
     (if x \<le> 0 then 0 else if 2 ^ 64 \<le> x then - 1 else word_of_int \<lfloor>x\<rfloor>)"

text \<open>\<open>Duration::as_secs_f64\<close> and \<open>Instant\<close> differences, from a nanosecond count.\<close>

definition as_secs_f64 :: "duration \<Rightarrow> f64" where
  "as_secs_f64 d = f_add (f64_of_nat (d div 1000000000))
                         (f_div (f64_of_nat (d mod 1000000000)) (Fin 1000000000))"

section \<open>Properties of rounding\<close>

lemma ilog2_nat_bounds: "0 < n \<Longrightarrow> 2 ^ ilog2_nat n \<le> n \<and> n < 2 ^ Suc (ilog2_nat n)"
proof (induction n rule: ilog2_nat.induct)
  case (1 n)
  show ?case
  proof (cases "n < 2")
    case True
    with 1 show ?thesis by (simp add: ilog2_nat.simps [of n])
  next
    case False
    define p :: nat where "p = 2 ^ ilog2_nat (n div 2)"
    from False 1 have "p \<le> n div 2" "n div 2 < 2 * p"
      by (auto simp: p_def)
    then have "2 * p \<le> n \<and> n < 4 * p" by linarith
    with False show ?thesis by (simp add: ilog2_nat.simps [of n] p_def)
  qed
qed

lemma ilog2_nat_rat:
  assumes "0 < n"
  shows "2 ^ ilog2_nat n \<le> (of_nat n :: rat)" "of_nat n + 1 \<le> (2 :: rat) ^ Suc (ilog2_nat n)"
proof -
  have "of_nat (2 ^ ilog2_nat n) \<le> (of_nat n :: rat)"
    using ilog2_nat_bounds [OF assms] by (simp only: of_nat_le_iff)
  then show "2 ^ ilog2_nat n \<le> (of_nat n :: rat)" by simp
  have "of_nat (Suc n) \<le> (of_nat (2 ^ Suc (ilog2_nat n)) :: rat)"
    using ilog2_nat_bounds [OF assms] by (simp only: of_nat_le_iff Suc_le_eq)
  then show "of_nat n + 1 \<le> (2 :: rat) ^ Suc (ilog2_nat n)" by (simp add: add.commute)
qed

lemma pow2_pos [simp]: "0 < pow2 e"
  by (simp add: pow2_def)

lemma pow2_nonzero [simp]: "pow2 e \<noteq> 0"
  using pow2_pos [of e] by linarith

lemma pow2_powi: "pow2 e = 2 powi e"
  by (auto simp: pow2_def power_int_def inverse_eq_divide power_one_over)

lemma pow2_add: "pow2 (a + b) = pow2 a * pow2 b"
  by (simp add: pow2_powi power_int_add)

lemma pow2_nat: "pow2 (int n) = 2 ^ n"
  by (simp add: pow2_def)

lemma pow2_0 [simp]: "pow2 0 = 1"
  by (simp add: pow2_def)

lemma pow2_minus: "pow2 (- e) = 1 / pow2 e"
  by (auto simp: pow2_def)

lemma pow2_diff: "pow2 a / pow2 b = pow2 (a - b)"
  using pow2_add [of "a - b" b] by (simp add: field_simps)

lemma pow2_int: "0 \<le> e \<Longrightarrow> pow2 e = of_int (2 ^ nat e)"
  by (simp add: pow2_def)

lemma pow2_mono: "a \<le> b \<Longrightarrow> pow2 a \<le> pow2 b"
proof -
  assume "a \<le> b"
  then have "1 \<le> pow2 (b - a)" by (simp add: pow2_def)
  then show ?thesis using pow2_diff [of b a] by (simp add: field_simps)
qed

lemma pow2_strict_mono: "a < b \<Longrightarrow> pow2 a < pow2 b"
  using pow2_mono [of "a + 1" b] pow2_add [of a 1] pow2_pos [of a] pow2_nat [of 1]
  by (simp del: pow2_pos)

lemma pow2_less_cancel: "pow2 a < pow2 b \<Longrightarrow> a < b"
  using pow2_mono [of b a] by linarith

lemma ilog2_bounds:
  assumes "0 < x"
  shows "pow2 (ilog2 x) \<le> x" "x < pow2 (ilog2 x + 1)"
proof -
  have "pow2 (ilog2 x) \<le> x \<and> x < pow2 (ilog2 x + 1)"
  proof (cases "1 \<le> x")
    case True
    define m where "m = nat \<lfloor>x\<rfloor>"
    have "1 \<le> \<lfloor>x\<rfloor>" using True by simp
    then have m: "0 < m" "of_nat m = (of_int \<lfloor>x\<rfloor> :: rat)" by (simp_all add: m_def)
    have "of_nat m \<le> x" "x < of_nat m + 1" unfolding m(2) by linarith+
    moreover have "pow2 (int (ilog2_nat m) + 1) = 2 ^ Suc (ilog2_nat m)"
      using pow2_nat [of "Suc (ilog2_nat m)"] by (simp add: add.commute)
    moreover have "ilog2 x = int (ilog2_nat m)"
      using True by (simp add: ilog2_def m_def)
    ultimately show ?thesis
      using ilog2_nat_rat [OF m(1)] unfolding pow2_nat by (metis less_le_trans order_trans pow2_nat)
  next
    case False
    define m where "m = nat (\<lceil>1 / x\<rceil> - 1)"
    have y: "1 < 1 / x" using False assms by (simp add: field_simps)
    then have "2 \<le> \<lceil>1 / x\<rceil>" by (simp add: le_ceiling_iff)
    then have im: "0 < m" "int m = \<lceil>1 / x\<rceil> - 1" unfolding m_def by linarith+
    then have m: "0 < m" "of_nat m = (of_int (\<lceil>1 / x\<rceil> - 1) :: rat)"
      by (simp_all only: im(2) [symmetric] of_int_of_nat_eq)
    have "of_nat m < 1 / x" "1 / x \<le> of_nat m + 1" unfolding m(2) by linarith+
    with ilog2_nat_rat [OF m(1)]
    have k: "2 ^ ilog2_nat m < 1 / x" "1 / x \<le> 2 ^ Suc (ilog2_nat m)" by linarith+
    have e: "ilog2 x = - int (Suc (ilog2_nat m))" "ilog2 x + 1 = - int (ilog2_nat m)"
      using False by (simp_all add: ilog2_def m_def)
    show ?thesis
      unfolding e(2) unfolding e(1) pow2_minus pow2_nat using k assms by (simp add: field_simps)
  qed
  then show "pow2 (ilog2 x) \<le> x" "x < pow2 (ilog2 x + 1)" by simp_all
qed

lemma ilog2_mono: "0 < x \<Longrightarrow> x \<le> y \<Longrightarrow> ilog2 x \<le> ilog2 y"
  using pow2_less_cancel [of "ilog2 x" "ilog2 y + 1"] ilog2_bounds [of x] ilog2_bounds [of y]
  by linarith

lemma ilog2_less: "0 < x \<Longrightarrow> x < pow2 e \<Longrightarrow> ilog2 x < e"
  using pow2_less_cancel [of "ilog2 x" e] ilog2_bounds [of x] by linarith

lemma ulp_exp_mono: "0 < x \<Longrightarrow> x \<le> y \<Longrightarrow> ulp_exp x \<le> ulp_exp y"
  using ilog2_mono [of x y] by (auto simp: ulp_exp_def)

lemma round_even_floor: "\<lfloor>x\<rfloor> \<le> round_even x" "round_even x \<le> \<lfloor>x\<rfloor> + 1"
  by (auto simp: round_even_def Let_def)

lemma round_even_of_int [simp]: "round_even (of_int n) = n"
  by (simp add: round_even_def)

lemma round_even_mono: "x \<le> y \<Longrightarrow> round_even x \<le> round_even y"
proof -
  assume le: "x \<le> y"
  show ?thesis
  proof (cases "\<lfloor>x\<rfloor> = \<lfloor>y\<rfloor>")
    case True
    with le show ?thesis by (auto simp: round_even_def Let_def)
  next
    case False
    with floor_mono [OF le] have "\<lfloor>x\<rfloor> + 1 \<le> \<lfloor>y\<rfloor>" by simp
    with round_even_floor [of x] round_even_floor [of y] show ?thesis by linarith
  qed
qed

lemma round_even_error: "\<bar>of_int (round_even x) - x\<bar> \<le> 1 / 2"
proof -
  have "of_int \<lfloor>x\<rfloor> \<le> x" "x < of_int \<lfloor>x\<rfloor> + 1" by linarith+
  then show ?thesis by (auto simp: round_even_def Let_def abs_le_iff)
qed

text \<open>Rounding cannot cross a point of the grid it rounds to.\<close>

lemma rnd_pos_grid:
  assumes "g = of_int k * pow2 (ulp_exp x)"
  shows "x \<le> g \<Longrightarrow> rnd_pos x \<le> g" "g \<le> x \<Longrightarrow> g \<le> rnd_pos x"
proof -
  let ?u = "pow2 (ulp_exp x)"
  have g: "g / ?u = of_int k" using assms by simp
  { assume "x \<le> g"
    then have "x / ?u \<le> of_int k" unfolding g [symmetric] by (intro divide_right_mono) (auto intro: less_imp_le)
    then have "round_even (x / ?u) \<le> k" using round_even_mono by fastforce
    then show "rnd_pos x \<le> g" unfolding rnd_pos_def assms by (intro mult_right_mono) (auto intro: less_imp_le) }
  { assume "g \<le> x"
    then have "of_int k \<le> x / ?u" unfolding g [symmetric] by (intro divide_right_mono) (auto intro: less_imp_le)
    then have "k \<le> round_even (x / ?u)" using round_even_mono by fastforce
    then show "g \<le> rnd_pos x" unfolding rnd_pos_def assms by (intro mult_right_mono) (auto intro: less_imp_le) }
qed

lemma pow2_grid: "a \<le> b \<Longrightarrow> pow2 b = of_int (2 ^ nat (b - a)) * pow2 a"
  using pow2_add [of "b - a" a] pow2_int [of "b - a"] by simp

lemma rnd_pos_nonneg: "0 < x \<Longrightarrow> 0 \<le> rnd_pos x"
  using rnd_pos_grid(2) [of 0 0 x] by simp

lemma rnd_pos_mono:
  assumes "0 < x" "x \<le> y"
  shows "rnd_pos x \<le> rnd_pos y"
proof (cases "ulp_exp x = ulp_exp y")
  case True
  have "x / pow2 (ulp_exp y) \<le> y / pow2 (ulp_exp y)"
    using assms by (intro divide_right_mono) (auto intro: less_imp_le)
  then show ?thesis
    unfolding rnd_pos_def True by (intro mult_right_mono) (auto intro: less_imp_le round_even_mono)
next
  case False
  with ulp_exp_mono [OF assms] have lt: "ulp_exp x < ulp_exp y" by simp
  let ?p = "ilog2 y"
  from lt have y: "ulp_exp y = ?p - 52" and x: "ilog2 x < ?p" "ulp_exp x \<le> ?p - 53"
    by (auto simp: ulp_exp_def)
  have "x \<le> pow2 ?p"
    using ilog2_bounds(2) [OF assms(1)] pow2_mono [of "ilog2 x + 1" ?p] x by linarith
  then have "rnd_pos x \<le> pow2 ?p"
    using rnd_pos_grid(1) [OF pow2_grid [of "ulp_exp x" ?p]] x by simp
  also have "pow2 ?p \<le> rnd_pos y"
    using rnd_pos_grid(2) [OF pow2_grid [of "ulp_exp y" ?p]] y ilog2_bounds(1) [of y] assms by simp
  finally show ?thesis .
qed

lemma rnd_minus: "rnd (- x) = - rnd x"
  by (simp add: rnd_def)

lemma rnd_0 [simp]: "rnd 0 = 0"
  by (simp add: rnd_def)

lemma rnd_mono: "x \<le> y \<Longrightarrow> rnd x \<le> rnd y"
proof -
  assume le: "x \<le> y"
  consider "0 < x" | "x \<le> 0" "0 \<le> y" | "y < 0" by linarith
  then show ?thesis
  proof cases
    case 1
    with le show ?thesis by (simp add: rnd_def rnd_pos_mono)
  next
    case 2
    then show ?thesis using rnd_pos_nonneg [of y] rnd_pos_nonneg [of "- x"] by (auto simp: rnd_def)
  next
    case 3
    with le show ?thesis using rnd_pos_mono [of "- y" "- x"] by (simp add: rnd_def)
  qed
qed

lemma rnd_nonneg: "0 \<le> x \<Longrightarrow> 0 \<le> rnd x"
  using rnd_mono [of 0 x] by simp

text \<open>A value with a 53-bit integer significand is its own rounding.\<close>

lemma rnd_exact_pos:
  assumes "0 < k" "k < 2 ^ 53" "- 1074 \<le> e"
  shows "rnd (of_int k * pow2 e) = of_int k * pow2 e"
proof -
  let ?x = "of_int k * pow2 e"
  have pos: "0 < ?x" using assms by simp
  have "(of_int k :: rat) < of_int (2 ^ 53)" using assms(2) by (simp only: of_int_less_iff)
  then have "?x < 2 ^ 53 * pow2 e" by (simp add: mult_strict_right_mono)
  then have "?x < pow2 (53 + e)" using pow2_nat [of 53] by (simp add: pow2_add)
  then have "ilog2 ?x < 53 + e" using pos by (rule ilog2_less [rotated])
  with assms(3) have "ulp_exp ?x \<le> e" by (simp add: ulp_exp_def)
  then have "?x = of_int (k * 2 ^ nat (e - ulp_exp ?x)) * pow2 (ulp_exp ?x)"
    using pow2_grid [of "ulp_exp ?x" e] by simp
  from rnd_pos_grid [OF this] pos show ?thesis by (simp add: rnd_def)
qed

lemma rnd_exact:
  assumes "\<bar>k\<bar> \<le> 2 ^ 53" "- 1074 \<le> e"
  shows "rnd (of_int k * pow2 e) = of_int k * pow2 e"
proof -
  have pos: "rnd (of_int j * pow2 e) = of_int j * pow2 e" if "0 < j" "j \<le> 2 ^ 53" for j
  proof (cases "j = 2 ^ 53")
    case True
    have "of_int j * pow2 e = of_int (2 ^ 52) * pow2 (e + 1)"
      using pow2_nat [of 1] by (simp add: True pow2_add)
    with rnd_exact_pos [of "2 ^ 52" "e + 1"] assms(2) show ?thesis by simp
  next
    case False
    with that assms show ?thesis by (intro rnd_exact_pos) auto
  qed
  consider "k = 0" | "0 < k" | "0 < - k" by linarith
  then show ?thesis
  proof cases
    case 1
    then show ?thesis by simp
  next
    case 2
    with pos [of k] assms(1) show ?thesis by simp
  next
    case 3
    with pos [of "- k"] assms(1) rnd_minus [of "of_int k * pow2 e"] show ?thesis by simp
  qed
qed

lemma rnd_int: "\<bar>k\<bar> \<le> 2 ^ 53 \<Longrightarrow> rnd (of_int k) = of_int k"
  using rnd_exact [of k 0] by simp

lemma rnd_nat: "n \<le> 2 ^ 53 \<Longrightarrow> rnd (of_nat n) = of_nat n"
  using rnd_int [of "int n"] by simp

lemma rnd_pow2: "- 1074 \<le> e \<Longrightarrow> rnd (pow2 e) = pow2 e"
  using rnd_exact [of 1 e] by simp

text \<open>Relative error of half a unit in the last place, on the normal range.\<close>

lemma rnd_error:
  assumes "pow2 (- 1022) \<le> x"
  shows "\<bar>rnd x - x\<bar> \<le> x * pow2 (- 53)"
proof -
  have pos: "0 < x" using assms pow2_pos [of "- 1022"] by linarith
  let ?u = "pow2 (ulp_exp x)"
  have "rnd x - x = (of_int (round_even (x / ?u)) - x / ?u) * ?u"
    using pos by (simp add: rnd_def rnd_pos_def left_diff_distrib)
  then have "\<bar>rnd x - x\<bar> = \<bar>of_int (round_even (x / ?u)) - x / ?u\<bar> * ?u"
    by (simp add: abs_mult abs_of_pos)
  also have "\<dots> \<le> 1 / 2 * ?u"
    using round_even_error by (intro mult_right_mono) (auto intro: less_imp_le)
  also have "ulp_exp x = ilog2 x - 52"
    using pow2_less_cancel [of "- 1022" "ilog2 x + 1"] ilog2_bounds [OF pos] assms
    by (simp add: ulp_exp_def)
  then have "1 / 2 * ?u = pow2 (ilog2 x) * pow2 (- 53)"
    using pow2_add [of "ilog2 x" "- 52"] pow2_add [of 1 "- 53"] pow2_nat [of 1] by simp
  also have "\<dots> \<le> x * pow2 (- 53)"
    using ilog2_bounds [OF pos] by (intro mult_right_mono) (auto intro: less_imp_le)
  finally show ?thesis .
qed

section \<open>Properties of the operations\<close>

lemma f_le_Fin [simp]: "f_le (Fin x) (Fin y) \<longleftrightarrow> x \<le> y"
  by (auto simp: f_le_def)

lemma f_le_refl: "x \<noteq> NaN \<Longrightarrow> f_le x x"
  by (cases x) (auto simp: f_le_def)

lemma f_le_trans: "f_le x y \<Longrightarrow> f_le y z \<Longrightarrow> f_le x z"
  by (cases x; cases y; cases z) (auto simp: f_le_def split: if_splits)

lemma f_lt_le_trans: "f_lt x y \<Longrightarrow> f_le y z \<Longrightarrow> f_lt x z"
  by (cases x; cases y; cases z) (auto simp: f_le_def split: if_splits)

lemma f_le_not_NaN: "f_le x y \<Longrightarrow> x \<noteq> NaN \<and> y \<noteq> NaN"
  by (cases x; cases y) (auto simp: f_le_def)

lemma f_lt_not_NaN: "f_lt x y \<Longrightarrow> x \<noteq> NaN \<and> y \<noteq> NaN"
  by (cases x; cases y) auto

lemma f_not_lt: "x \<noteq> NaN \<Longrightarrow> y \<noteq> NaN \<Longrightarrow> \<not> f_lt x y \<longleftrightarrow> f_le y x"
  by (cases x; cases y) (auto simp: f_le_def)

lemma is_finite_simps [simp]: "is_finite (Fin x)" "\<not> is_finite NaN" "\<not> is_finite (Inf s)"
  by (simp_all add: is_finite_def)

lemma is_finite_iff: "is_finite x \<longleftrightarrow> (\<exists>r. x = Fin r)"
  by (cases x) auto

lemma f64_of_Fin:
  assumes "\<bar>x\<bar> \<le> 2 ^ 1023"
  shows "f64_of x = Fin (rnd x)"
proof -
  have p: "rnd (2 ^ 1023) = 2 ^ 1023"
    using rnd_pow2 [of 1023] pow2_nat [of 1023] by simp
  have "rnd x \<le> 2 ^ 1023"
    using rnd_mono [of x "2 ^ 1023"] assms unfolding p by simp
  moreover have "- (2 ^ 1023) \<le> rnd x"
    using rnd_mono [of "- (2 ^ 1023)" x] assms unfolding rnd_minus p by linarith
  ultimately have "rnd x < 2 ^ 1024" "- (2 ^ 1024) < rnd x" by simp_all
  then show ?thesis by (simp add: f64_of_def Let_def)
qed

lemma f64_of_not_NaN: "f64_of x \<noteq> NaN"
  by (simp add: f64_of_def Let_def)

lemma f64_of_mono: "x \<le> y \<Longrightarrow> f_le (f64_of x) (f64_of y)"
  using rnd_mono [of x y] by (auto simp: f64_of_def Let_def f_le_def)

lemma f64_of_0 [simp]: "f64_of 0 = Fin 0"
  by (simp add: f64_of_Fin)

lemma f64_of_nonneg: "0 \<le> x \<Longrightarrow> f_le (Fin 0) (f64_of x)"
  using f64_of_mono [of 0 x] by simp

lemma f64_of_int_exact: "\<bar>k\<bar> \<le> 2 ^ 53 \<Longrightarrow> f64_of (of_int k) = Fin (of_int k)"
proof -
  assume k: "\<bar>k\<bar> \<le> 2 ^ 53"
  then have "\<bar>of_int k\<bar> \<le> (of_int (2 ^ 53) :: rat)"
    by (simp only: of_int_abs [symmetric] of_int_le_iff)
  then have "\<bar>of_int k\<bar> \<le> (2 ^ 1023 :: rat)"
    by (rule order_trans) simp
  with rnd_int [OF k] show ?thesis by (simp add: f64_of_Fin)
qed

lemma f64_of_nat_exact: "n \<le> 2 ^ 53 \<Longrightarrow> f64_of_nat n = Fin (of_nat n)"
  using f64_of_int_exact [of "int n"] by (simp add: f64_of_nat_def)

lemma f64_of_nat_Fin: "n \<le> 2 ^ 1023 \<Longrightarrow> f64_of_nat n = Fin (rnd (of_nat n))"
proof -
  assume "n \<le> 2 ^ 1023"
  then have "(of_nat n :: rat) \<le> of_nat (2 ^ 1023)" by (simp only: of_nat_le_iff)
  then show ?thesis by (simp add: f64_of_nat_def f64_of_Fin)
qed

lemma f64_of_nat_mono: "m \<le> n \<Longrightarrow> f_le (f64_of_nat m) (f64_of_nat n)"
  by (simp add: f64_of_nat_def f64_of_mono)

lemma f64_of_u64_Fin: "f64_of_word (w :: u64) = Fin (rnd (of_nat (unat w)))"
proof -
  have "unat w < 2 ^ 64" using unsigned_less [of w] by simp
  then have "unat w \<le> 2 ^ 1023" by (rule less_imp_le [THEN order_trans]) simp
  then show ?thesis by (simp add: f64_of_word_def f64_of_nat_Fin)
qed

lemma f64_of_u64_exact: "unat (w :: u64) \<le> 2 ^ 53 \<Longrightarrow> f64_of_word w = Fin (of_nat (unat w))"
  by (simp add: f64_of_word_def f64_of_nat_exact)

lemma f_clamp_bounds:
  assumes "f_clamp x lo hi = Some y" "x \<noteq> NaN"
  shows "f_le lo y" "f_le y hi"
  using assms f_le_not_NaN [of lo hi] f_not_lt [of x lo] f_not_lt [of hi x] f_le_refl [of lo] f_le_refl [of hi]
  by (auto simp: f_clamp_def split: if_splits)

lemma f_clamp_total: "f_le lo hi \<Longrightarrow> \<exists>y. f_clamp x lo hi = Some y"
  by (simp add: f_clamp_def)

lemma f_max_ge: "y \<noteq> NaN \<Longrightarrow> f_le y (f_max x y)"
  by (cases x; cases y) (auto simp: f_max_def f_le_def)

lemma f_max_ge1: "x \<noteq> NaN \<Longrightarrow> f_le x (f_max x y)"
  by (cases x; cases y) (auto simp: f_max_def f_le_def)

lemma f_min_le: "y \<noteq> NaN \<Longrightarrow> f_le (f_min x y) y"
  by (cases x; cases y) (auto simp: f_min_def f_le_def)

lemma round_away_int: "round_away (of_int k) = of_int k"
proof -
  have "\<lfloor>of_int k + 1 / 2 :: rat\<rfloor> = k" "\<lfloor>1 / 2 - of_int k :: rat\<rfloor> = - k" by linarith+
  then show ?thesis by (simp add: round_away_def)
qed

lemma round_away_mono: "x \<le> y \<Longrightarrow> round_away x \<le> round_away y"
proof -
  assume le: "x \<le> y"
  have a: "0 \<le> (of_int \<lfloor>z + 1 / 2\<rfloor> :: rat)" if "0 \<le> z" for z :: rat using that by simp
  have b: "0 \<le> (of_int \<lfloor>1 / 2 - z\<rfloor> :: rat)" if "z < 0" for z :: rat using that by simp
  consider "0 \<le> x" | "x < 0" "0 \<le> y" | "y < 0" by linarith
  then show ?thesis
  proof cases
    case 1
    with le show ?thesis by (auto simp: round_away_def intro!: floor_mono)
  next
    case 2
    with a [of y] b [of x] show ?thesis unfolding round_away_def by (simp del: of_int_0_le_iff)
  next
    case 3
    with le show ?thesis by (auto simp: round_away_def intro!: floor_mono)
  qed
qed

lemma f_to_u64_int:
  "n < 2 ^ 64 \<Longrightarrow> f_to_u64 (Fin (of_nat n)) = word_of_nat n"
proof -
  assume "n < 2 ^ 64"
  then have "(of_nat n :: rat) < of_nat (2 ^ 64)" by (simp only: of_nat_less_iff)
  then show ?thesis by (cases "n = 0") auto
qed

lemma f_to_u64_mono:
  assumes "x \<le> y"
  shows "unat (f_to_u64 (Fin x)) \<le> unat (f_to_u64 (Fin y))"
proof -
  have u: "unat (f_to_u64 (Fin z)) = (if z \<le> 0 then 0 else if 2 ^ 64 \<le> z then 2 ^ 64 - 1 else nat \<lfloor>z\<rfloor>)" for z
  proof -
    have "unat (word_of_int \<lfloor>z\<rfloor> :: u64) = nat \<lfloor>z\<rfloor>" if "0 < z" "z < 2 ^ 64"
    proof -
      have "0 \<le> \<lfloor>z\<rfloor>" "\<lfloor>z\<rfloor> < 2 ^ 64" using that by (simp_all add: floor_less_iff)
      then show ?thesis by (simp add: unsigned_of_int take_bit_int_eq_self)
    qed
    then show ?thesis by (simp add: unat_max_word)
  qed
  have "nat \<lfloor>z\<rfloor> \<le> 2 ^ 64 - 1" if "z < 2 ^ 64" for z :: rat
  proof -
    have "\<lfloor>z\<rfloor> < 2 ^ 64" using that by (simp add: floor_less_iff)
    then have "nat \<lfloor>z\<rfloor> < 2 ^ 64" using nat_mono_iff [of "2 ^ 64" "\<lfloor>z\<rfloor>"] by simp
    then show ?thesis by simp
  qed
  with assms show ?thesis unfolding u by (auto intro!: nat_mono floor_mono)
qed

text \<open>Non-negative operands.\<close>

lemma f_le_0_cases: "f_le (Fin 0) x \<longleftrightarrow> x = Inf False \<or> (\<exists>r. x = Fin r \<and> 0 \<le> r)"
  by (cases x) (auto simp: f_le_def)

lemma f_add_ge:
  assumes "0 \<le> t" "rnd m = m" "\<bar>m\<bar> \<le> 2 ^ 1023" "f_le (Fin m) z"
  shows "f_le (Fin m) (f_add (Fin t) z)"
proof (cases z)
  case (Fin r)
  then have "f_le (f64_of m) (f64_of (t + r))" using assms by (intro f64_of_mono) simp
  then show ?thesis using Fin assms by (simp add: f64_of_Fin)
qed (use assms in \<open>auto simp: f_le_def\<close>)

lemma f_add_nonneg: "f_le (Fin 0) x \<Longrightarrow> f_le (Fin 0) y \<Longrightarrow> f_le (Fin 0) (f_add x y)"
  by (auto simp: f_le_0_cases [of x] f_le_0_cases [of y] f64_of_nonneg) (auto simp: f_le_def)

lemma f_mul_nonneg:
  "f_le (Fin 0) x \<Longrightarrow> 0 \<le> m \<Longrightarrow> f_mul x (Fin m) = NaN \<or> f_le (Fin 0) (f_mul x (Fin m))"
  by (auto simp: f_le_0_cases [of x] f64_of_nonneg) (auto simp: f_le_def split: if_splits)

lemma f_mul_ge:
  assumes "f_le (Fin 1) x" "0 \<le> m"
  shows "f_mul x (Fin m) = NaN \<or> f_le (f64_of m) (f_mul x (Fin m))"
proof (cases x)
  case (Fin r)
  then have "m \<le> r * m" using assms by (simp add: mult_le_cancel_right1)
  then show ?thesis using Fin by (simp add: f64_of_mono)
next
  case (Inf s)
  then show ?thesis using assms f64_of_not_NaN [of m]
    by (cases "f64_of m") (auto simp: f_le_def not_less)
qed (use assms in \<open>auto simp: f_le_def\<close>)

lemma as_secs_f64_nonneg: "f_le (Fin 0) (as_secs_f64 d)"
proof -
  have n: "f_le (Fin 0) (f64_of_nat k)" for k by (simp add: f64_of_nat_def f64_of_nonneg)
  have "f_le (Fin 0) (f_div (f64_of_nat k) (Fin 1000000000))" for k
    using n [of k] by (auto simp: f_le_0_cases [of "f64_of_nat k"] f64_of_nonneg) (auto simp: f_le_def)
  then show ?thesis unfolding as_secs_f64_def by (intro f_add_nonneg n)
qed

lemma as_secs_f64_ge_1:
  assumes "1000000000 \<le> d"
  shows "f_le (Fin 1) (as_secs_f64 d)"
proof -
  let ?a = "f64_of_nat (d div 1000000000)" and ?b = "f_div (f64_of_nat (d mod 1000000000)) (Fin 1000000000)"
  have "1 \<le> d div 1000000000" using assms by (simp add: Suc_le_eq div_greater_zero_iff)
  then have a: "f_le (Fin 1) ?a"
    using f64_of_nat_mono [of 1 "d div 1000000000"] f64_of_nat_exact [of 1] by simp
  have "d mod 1000000000 \<le> 2 ^ 53" by (rule less_imp_le [OF less_le_trans [of _ 1000000000]]) simp_all
  then obtain r where b: "?b = Fin r \<or> ?b = Inf False" "0 \<le> r"
    by (simp add: f64_of_nat_exact) (metis f_le_0_cases f64_of_nonneg divide_nonneg_nonneg of_nat_0_le_iff zero_le_numeral order_refl)
  show ?thesis
  proof (cases ?a)
    case (Fin x)
    then have "1 \<le> x" using a by simp
    then have "f_le (f64_of 1) (f64_of (x + r))" using b(2) by (intro f64_of_mono) simp
    moreover have "f64_of 1 = Fin 1" using f64_of_int_exact [of 1] by simp
    ultimately have "f_le (Fin 1) (f64_of (x + r))" by simp
    then show ?thesis using Fin b(1)
      by (elim disjE) (simp_all add: as_secs_f64_def f_le_def [of _ "Inf False"])
  qed (use a b in \<open>auto simp: as_secs_f64_def f_le_def\<close>)
qed

end
