(* ===== verification/Config.thy ===== *)
theory Config
  imports Coinbase F64
begin

text \<open>
  Configuration (\<open>src/config.rs\<close>) and the chain context (\<open>src/settings.rs\<close>): the settings
  records, the boot-time validation, the environment overrides applied to the parsed TOML, the
  cookie and path helpers.  The TOML parser and the deserializer into the records are library
  code; \<open>load\<close> takes them as functions.  \<open>usize\<close> settings are \<open>nat\<close>.
\<close>

section \<open>Settings\<close>

record pool_config =
  pc_listen_addr :: string
  pc_coinbase_tag :: string
  pc_initial_difficulty :: u64
  pc_extranonce1_size :: nat
  pc_extranonce2_size :: nat
  pc_max_connections :: nat
  pc_idle_timeout_secs :: u64
  pc_found_block_dir :: string
  pc_confirmation_depth :: u32
  pc_network :: "string option"
  pc_strict_gbt_rules :: bool

record sv2_config =
  s2_enabled :: bool
  s2_persist_authority_key :: bool
  s2_authority_key_file :: string
  s2_cert_validity_secs :: u32

record rpc_config =
  rc_url :: string
  rc_cookie_path :: "string option"
  rc_user :: "string option"
  rc_password :: "string option"
  rc_timeout_secs :: u64

record zmq_config =
  zc_hashblock_endpoint :: string
  zc_poll_fallback :: bool
  zc_poll_interval_ms :: u64

record vardiff_config =
  vc_target_share_time_secs :: u64
  vc_retarget_interval_secs :: u64
  vc_min_difficulty :: u64
  vc_max_difficulty :: u64
  vc_max_retarget_factor :: f64
  vc_deadzone_low :: f64
  vc_deadzone_high :: f64

record security_config =
  sc_max_connections_per_ip :: u32
  sc_max_shares_per_sec :: u32
  sc_ban_duration_secs :: u64
  sc_max_invalid_shares :: u32
  sc_max_message_bytes :: nat
  sc_max_worker_name_len :: nat
  sc_max_authorizations_per_session :: u32

record metrics_config =
  mc_prometheus_addr :: string
  mc_stats_db_path :: "string option"

record logging_config =
  lc_level :: string
  lc_json :: bool
  lc_log_dir :: "string option"

record config =
  c_pool :: pool_config
  c_bitcoin_rpc :: rpc_config
  c_zmq :: zmq_config
  c_vardiff :: vardiff_config
  c_security :: security_config
  c_metrics :: metrics_config
  c_logging :: logging_config
  c_sv2 :: sv2_config

text \<open>The serde defaults.\<close>

definition default_found_block_dir :: string where "default_found_block_dir = ''found-blocks''"
definition default_confirmation_depth :: u32 where "default_confirmation_depth = 6"
definition default_strict_gbt_rules :: bool where "default_strict_gbt_rules = True"
definition default_deadzone_low :: f64 where "default_deadzone_low = f64_of (667 / 1000)"
definition default_deadzone_high :: f64 where "default_deadzone_high = f64_of (3 / 2)"
definition default_max_worker_name_len :: nat where "default_max_worker_name_len = 128"
definition default_max_authorizations_per_session :: u32 where
  "default_max_authorizations_per_session = 8"

definition default_sv2_config :: sv2_config where
  "default_sv2_config =
     \<lparr> s2_enabled = True, s2_persist_authority_key = True,
       s2_authority_key_file = ''sv2-authority.key'', s2_cert_validity_secs = 365 * 24 * 60 * 60 \<rparr>"

section \<open>Paths and credentials\<close>

text \<open>\<open>Path::join\<close>: an absolute right-hand side replaces the left one.\<close>

definition path_join :: "string \<Rightarrow> string \<Rightarrow> string" where
  "path_join base rest =
     (if rest \<noteq> [] \<and> hd rest = CHR ''/'' then rest
      else if base = [] \<or> last base = CHR ''/'' then base @ rest
      else base @ ''/'' @ rest)"

definition expand_tilde :: "string option \<Rightarrow> string \<Rightarrow> string" where
  "expand_tilde home path =
     (if take 2 path = ''~/'' then
        (case home of Some h \<Rightarrow> path_join h (drop 2 path) | None \<Rightarrow> path)
      else path)"

definition log_dir_path :: "string option \<Rightarrow> logging_config \<Rightarrow> string option" where
  "log_dir_path home cfg =
     (case lc_log_dir cfg of
        None \<Rightarrow> None
      | Some dir \<Rightarrow> if trim dir = [] then None else Some (expand_tilde home (trim dir)))"

text \<open>\<open>read_file\<close> is the file system: the contents of a readable file.\<close>

definition read_cookie ::
  "string option \<Rightarrow> (string \<Rightarrow> string option) \<Rightarrow> rpc_config \<Rightarrow> (string \<times> string) option" where
  "read_cookie home read_file cfg =
     (let raw = (case rc_cookie_path cfg of Some p \<Rightarrow> p | None \<Rightarrow> ''~/.bitcoin/.cookie'') in
      case read_file (expand_tilde home raw) of
        None \<Rightarrow> None
      | Some contents \<Rightarrow> split_once (CHR '':'') (trim contents))"

definition rpc_auth ::
  "string option \<Rightarrow> (string \<Rightarrow> string option) \<Rightarrow> rpc_config \<Rightarrow> (string \<times> string) result" where
  "rpc_auth home read_file cfg =
     (case read_cookie home read_file cfg of
        Some up \<Rightarrow> Inr up
      | None \<Rightarrow>
          (case (rc_user cfg, rc_password cfg) of
             (Some u, Some p) \<Rightarrow> Inr (u, p)
           | _ \<Rightarrow> Inl (Other ''No RPC credentials available'')))"

section \<open>Validation\<close>

definition f_ge :: "f64 \<Rightarrow> f64 \<Rightarrow> bool" where
  "f_ge x y = f_le y x"

text \<open>One clause per \<open>bail!\<close>, in the order of the source.\<close>

definition validate_vardiff :: "vardiff_config \<Rightarrow> unit result" where
  "validate_vardiff v =
     (if vc_target_share_time_secs v = 0 then Inl (Other ''target_share_time_secs must be >= 1'')
      else if vc_min_difficulty v = 0 then Inl (Other ''min_difficulty must be >= 1'')
      else if vc_min_difficulty v > vc_max_difficulty v
      then Inl (Other ''min_difficulty must not exceed max_difficulty'')
      else if \<not> is_finite (vc_max_retarget_factor v) \<or> f_le (vc_max_retarget_factor v) (Fin 1)
      then Inl (Other ''max_retarget_factor must be > 1.0'')
      else if \<not> is_finite (vc_deadzone_low v) \<or> f_le (vc_deadzone_low v) (Fin 0)
        \<or> f_ge (vc_deadzone_low v) (Fin 1)
      then Inl (Other ''deadzone_low must be between 0.0 and 1.0'')
      else if \<not> is_finite (vc_deadzone_high v) \<or> f_le (vc_deadzone_high v) (Fin 1)
      then Inl (Other ''deadzone_high must be > 1.0'')
      else Inr ())"

definition validate :: "config \<Rightarrow> unit result" where
  "validate c =
     (let pool = c_pool c; sv2 = c_sv2 c in
      if mc_stats_db_path (c_metrics c) = Some [] then Inl (Other ''stats_db_path is empty'')
      else if pc_extranonce1_size pool + pc_extranonce2_size pool = 0
      then Inl (Other ''extranonce1_size + extranonce2_size must be >= 1'')
      else
        let widest_height_push = 5;
            script_sig_len = widest_height_push + length (pc_coinbase_tag pool)
              + pc_extranonce1_size pool + pc_extranonce2_size pool in
        bind_res (check_coinbase_script_sig_len script_sig_len) (\<lambda>_.
          if \<not> (1 \<le> pc_confirmation_depth pool \<and> pc_confirmation_depth pool \<le> 100)
          then Inl (Other ''confirmation_depth must be between 1 and 100'')
          else bind_res (validate_vardiff (c_vardiff c)) (\<lambda>_.
            if s2_enabled sv2 \<and> s2_persist_authority_key sv2 \<and> trim (s2_authority_key_file sv2) = []
            then Inl (Other ''authority_key_file must not be empty'')
            else Inr ())))"

section \<open>Environment overrides\<close>

text \<open>The scalar parsers of the standard library: \<open>i64\<close>, \<open>bool\<close> and \<open>f64\<close>.\<close>

definition is_digit :: "char \<Rightarrow> bool" where
  "is_digit c \<longleftrightarrow> (let n = of_char c :: nat in 48 \<le> n \<and> n \<le> 57)"

definition digits_value :: "string \<Rightarrow> nat" where
  "digits_value ds = foldl (\<lambda>acc c. acc * 10 + (of_char c - 48)) 0 ds"

definition split_sign :: "string \<Rightarrow> bool \<times> string" where
  "split_sign s = (case s of
     c # cs \<Rightarrow> if c = CHR ''-'' then (True, cs) else if c = CHR ''+'' then (False, cs) else (False, s)
   | [] \<Rightarrow> (False, []))"

definition parse_i64 :: "string \<Rightarrow> int option" where
  "parse_i64 s =
     (let (neg, ds) = split_sign s in
      if ds = [] \<or> \<not> list_all is_digit ds then None
      else let n = (if neg then - int (digits_value ds) else int (digits_value ds)) in
           if - (2 ^ 63) \<le> n \<and> n < 2 ^ 63 then Some n else None)"

definition parse_bool :: "string \<Rightarrow> bool option" where
  "parse_bool s = (if s = ''true'' then Some True else if s = ''false'' then Some False else None)"

text \<open>The exponent part: absent, or \<open>e\<close> with an optional sign and at least one digit.\<close>

definition parse_exponent :: "string \<Rightarrow> int option" where
  "parse_exponent s = (case s of
     [] \<Rightarrow> Some 0
   | c # cs \<Rightarrow>
       if c = CHR ''e'' \<or> c = CHR ''E'' then
         let (neg, ds) = split_sign cs in
         if ds = [] \<or> \<not> list_all is_digit ds then None
         else Some (if neg then - int (digits_value ds) else int (digits_value ds))
       else None)"

definition parse_f64 :: "string \<Rightarrow> f64 option" where
  "parse_f64 s =
     (let (neg, r) = split_sign s; apply_sign = (\<lambda>x. if neg then f_neg x else x) in
      if eq_ignore_ascii_case r ''inf'' \<or> eq_ignore_ascii_case r ''infinity'' then Some (Inf neg)
      else if eq_ignore_ascii_case r ''nan'' then Some NaN
      else
        let ip = takeWhile is_digit r; r1 = dropWhile is_digit r;
            dot = (r1 \<noteq> [] \<and> hd r1 = CHR ''.'');
            fp = (if dot then takeWhile is_digit (tl r1) else []);
            r2 = (if dot then dropWhile is_digit (tl r1) else r1) in
        if ip = [] \<and> fp = [] then None
        else map_option (\<lambda>e. apply_sign
               (f64_of (of_nat (digits_value (ip @ fp)) * 10 powi (e - int (length fp)))))
             (parse_exponent r2))"

datatype toml =
    TString string | TInteger int | TFloat f64 | TBoolean bool | TDatetime string
  | TArray "toml list" | TTable "string \<Rightarrow> toml option"

definition infer_toml_scalar :: "string \<Rightarrow> toml" where
  "infer_toml_scalar raw =
     (if 2 \<le> length raw \<and> hd raw = CHR 0x22 \<and> last raw = CHR 0x22
      then TString (butlast (tl raw))
      else if raw = ''true'' \<or> raw = ''false'' then TBoolean (raw = ''true'')
      else case parse_i64 raw of Some i \<Rightarrow> TInteger i
      | None \<Rightarrow> (case parse_f64 raw of Some f \<Rightarrow> TFloat f | None \<Rightarrow> TString raw))"

definition ENV_PREFIX :: string where "ENV_PREFIX = ''BTCPOOL_''"

definition CONFIG_SECTIONS :: "string list" where
  "CONFIG_SECTIONS = [''pool'', ''bitcoin_rpc'', ''zmq'', ''vardiff'', ''security'', ''metrics'', ''logging'', ''sv2'']"

text \<open>\<open>str::split_once\<close> at the two-character separator.\<close>

fun split_once2 :: "string \<Rightarrow> (string \<times> string) option" where
  "split_once2 [] = None"
| "split_once2 (c # cs) =
     (if c = CHR ''_'' \<and> cs \<noteq> [] \<and> hd cs = CHR ''_'' then Some ([], tl cs)
      else map_option (\<lambda>(a, b). (c # a, b)) (split_once2 cs))"

definition parse_override :: "toml option \<Rightarrow> string \<Rightarrow> toml result" where
  "parse_override present raw =
     (case present of
        Some (TInteger _) \<Rightarrow> ok_or (Other ''override does not parse as the type in the file'')
                               (map_option TInteger (parse_i64 raw))
      | Some (TFloat _) \<Rightarrow> ok_or (Other ''override does not parse as the type in the file'')
                             (map_option TFloat (parse_f64 raw))
      | Some (TBoolean _) \<Rightarrow> ok_or (Other ''override does not parse as the type in the file'')
                               (map_option TBoolean (parse_bool raw))
      | Some (TString _) \<Rightarrow> Inr (TString raw)
      | Some _ \<Rightarrow> Inl (Other ''cannot override non-scalar'')
      | None \<Rightarrow> Inr (infer_toml_scalar raw))"

definition apply_override ::
  "(string \<Rightarrow> toml option) \<Rightarrow> string \<times> string \<Rightarrow> (string \<Rightarrow> toml option) result" where
  "apply_override rt v =
     (let (name, raw) = v in
      if take 8 name \<noteq> ENV_PREFIX then Inr rt
      else case split_once2 (drop 8 name) of
        None \<Rightarrow> Inl (Other ''expected BTCPOOL_<SECTION>__<KEY>'')
      | Some (section, key) \<Rightarrow>
          let section = map ascii_lower section; key = map ascii_lower key in
          if section = [] \<or> key = [] then Inl (Other ''empty section or key'')
          else if section \<notin> set CONFIG_SECTIONS then Inl (Other ''not a config section'')
          else (case (case rt section of None \<Rightarrow> TTable Map.empty | Some t \<Rightarrow> t) of
                  TTable table \<Rightarrow>
                    bind_res (parse_override (table key) raw)
                      (\<lambda>parsed. Inr (rt(section \<mapsto> TTable (table(key \<mapsto> parsed)))))
                | _ \<Rightarrow> Inl (Other ''section is not a table'')))"

primrec apply_env_overrides ::
  "(string \<Rightarrow> toml option) \<Rightarrow> (string \<times> string) list \<Rightarrow> (string \<Rightarrow> toml option) result" where
  "apply_env_overrides rt [] = Inr rt"
| "apply_env_overrides rt (v # vs) = bind_res (apply_override rt v) (\<lambda>r. apply_env_overrides r vs)"

definition load ::
  "(string \<Rightarrow> toml result) \<Rightarrow> (toml \<Rightarrow> config result) \<Rightarrow> string result \<Rightarrow> (string \<times> string) list \<Rightarrow> config result" where
  "load parse_toml interpret_toml file env =
     bind_res file (\<lambda>raw. bind_res (parse_toml raw) (\<lambda>value.
       case value of
         TTable rt \<Rightarrow>
           bind_res (apply_env_overrides rt env) (\<lambda>rt'.
           bind_res (interpret_toml (TTable rt')) (\<lambda>config.
           bind_res (validate config) (\<lambda>_. Inr config)))
       | _ \<Rightarrow> Inl (Other ''Config root is not a TOML table'')))"

section \<open>Chain context\<close>

datatype network = Bitcoin | Testnet | Testnet4 | Signet | Regtest

definition settings_network :: "string \<Rightarrow> string option" where
  "settings_network node_chain =
     (if node_chain = ''main'' then Some ''mainnet''
      else if node_chain = ''test'' then Some ''testnet''
      else if node_chain = ''testnet4'' then Some ''testnet4''
      else if node_chain = ''signet'' then Some ''signet''
      else if node_chain = ''regtest'' then Some ''regtest'' else None)"

definition settings_new :: "pool_config \<Rightarrow> string \<Rightarrow> string result" where
  "settings_new cfg node_chain =
     (case settings_network node_chain of
        None \<Rightarrow> Inl (Other ''node reports unrecognized chain'')
      | Some network \<Rightarrow>
          (case pc_network cfg of
             Some asserted \<Rightarrow>
               if asserted \<noteq> network then Inl (Other ''network assertion does not match the node'')
               else Inr network
           | None \<Rightarrow> Inr network))"

text \<open>\<open>bitcoin_network\<close>: the \<open>unreachable!\<close> arm is \<open>None\<close>.\<close>

definition bitcoin_network :: "string \<Rightarrow> network option" where
  "bitcoin_network network =
     (if network = ''mainnet'' then Some Bitcoin
      else if network = ''testnet'' then Some Testnet
      else if network = ''testnet4'' then Some Testnet4
      else if network = ''signet'' then Some Signet
      else if network = ''regtest'' then Some Regtest else None)"

section \<open>What a validated configuration guarantees\<close>

lemma validate_vardiff_Inr:
  "validate_vardiff v = Inr u \<longleftrightarrow>
     vc_target_share_time_secs v \<noteq> 0 \<and> vc_min_difficulty v \<noteq> 0 \<and>
     vc_min_difficulty v \<le> vc_max_difficulty v \<and>
     (\<exists>r. vc_max_retarget_factor v = Fin r \<and> 1 < r) \<and>
     (\<exists>r. vc_deadzone_low v = Fin r \<and> 0 < r \<and> r < 1) \<and>
     (\<exists>r. vc_deadzone_high v = Fin r \<and> 1 < r)"
  by (auto simp: validate_vardiff_def is_finite_iff f_ge_def not_le split: if_splits)

lemma validate_Inr:
  assumes "validate c = Inr u"
  shows "0 < pc_extranonce1_size (c_pool c) + pc_extranonce2_size (c_pool c)"
    "5 + length (pc_coinbase_tag (c_pool c)) + pc_extranonce1_size (c_pool c) + pc_extranonce2_size (c_pool c) \<le> 100"
    "1 \<le> pc_confirmation_depth (c_pool c)" "pc_confirmation_depth (c_pool c) \<le> 100"
    "validate_vardiff (c_vardiff c) = Inr ()"
  using assms by (auto simp: validate_def Let_def bind_res_Inr split: if_splits)

text \<open>
  A configuration that passed validation never makes the coinbase builder refuse on length:
  for every height the four-byte push can carry (below \<open>2^31\<close>), the \<open>scriptSig\<close> of its tag and
  extranonce widths is within the consensus bounds.
\<close>

theorem validate_bounds_script_sig:
  assumes "validate c = Inr ()" and "unat height < 2 ^ 31"
  shows "check_coinbase_script_sig_len
      (length (encode_bip34_height height) + length (pc_coinbase_tag (c_pool c))
       + (pc_extranonce1_size (c_pool c) + pc_extranonce2_size (c_pool c))) = Inr ()"
proof -
  have "1 \<le> length (encode_bip34_height height)" "length (encode_bip34_height height) \<le> 5"
    using encode_bip34_length_ge encode_bip34_length_le [OF assms(2)] by auto
  with validate_Inr [OF assms(1)] show ?thesis unfolding check_len_Inr by linarith
qed

definition sample_config :: config where
  "sample_config =
     \<lparr> c_pool = \<lparr> pc_listen_addr = ''0.0.0.0:3333'', pc_coinbase_tag = ''/btcpool/'',
         pc_initial_difficulty = 1024, pc_extranonce1_size = 4, pc_extranonce2_size = 4,
         pc_max_connections = 64, pc_idle_timeout_secs = 300, pc_found_block_dir = ''found-blocks'',
         pc_confirmation_depth = 6, pc_network = None, pc_strict_gbt_rules = True \<rparr>,
       c_bitcoin_rpc = \<lparr> rc_url = ''http://127.0.0.1:8332'', rc_cookie_path = None, rc_user = None,
         rc_password = None, rc_timeout_secs = 15 \<rparr>,
       c_zmq = \<lparr> zc_hashblock_endpoint = [], zc_poll_fallback = True, zc_poll_interval_ms = 500 \<rparr>,
       c_vardiff = \<lparr> vc_target_share_time_secs = 10, vc_retarget_interval_secs = 60,
         vc_min_difficulty = 512, vc_max_difficulty = 1000000, vc_max_retarget_factor = Fin 4,
         vc_deadzone_low = Fin (1 / 2), vc_deadzone_high = Fin 2 \<rparr>,
       c_security = \<lparr> sc_max_connections_per_ip = 10, sc_max_shares_per_sec = 10,
         sc_ban_duration_secs = 600, sc_max_invalid_shares = 50, sc_max_message_bytes = 16384,
         sc_max_worker_name_len = 128, sc_max_authorizations_per_session = 8 \<rparr>,
       c_metrics = \<lparr> mc_prometheus_addr = [], mc_stats_db_path = None \<rparr>,
       c_logging = \<lparr> lc_level = ''info'', lc_json = False, lc_log_dir = None \<rparr>,
       c_sv2 = \<lparr> s2_enabled = True, s2_persist_authority_key = False,
         s2_authority_key_file = [], s2_cert_validity_secs = 31536000 \<rparr> \<rparr>"

lemma sample_config_valid: "validate sample_config = Inr ()"
  by (simp add: validate_def sample_config_def validate_vardiff_def f_ge_def word_le_nat_alt
      word_less_nat_alt check_coinbase_script_sig_len_def MIN_COINBASE_SCRIPT_SIG_def
      MAX_COINBASE_SCRIPT_SIG_def)

theorem validate_bounds_script_sig_witness:
  "check_coinbase_script_sig_len
      (length (encode_bip34_height 900000) + length (pc_coinbase_tag (c_pool sample_config))
       + (pc_extranonce1_size (c_pool sample_config) + pc_extranonce2_size (c_pool sample_config))) = Inr ()"
  using validate_bounds_script_sig [OF sample_config_valid, of 900000] by simp

lemma settings_network_recognized:
  "settings_new cfg chain = Inr net \<Longrightarrow> bitcoin_network net \<noteq> None"
  by (auto simp: settings_new_def settings_network_def bitcoin_network_def split: if_splits option.splits)

end
