(* ===== verification/Security.thy ===== *)
theory Security
  imports Config
begin

text \<open>
  The denial-of-service layer (\<open>src/security/mod.rs\<close>): ban list, sliding-window connection
  limiter, worker-name rules, token bucket, invalid-share counter and the per-session guard.
  Each \<open>Instant::now()\<close> of the source is an argument of the operation, in the order the source
  reads the clock; \<open>DashMap\<close>s are maps.
\<close>

datatype ip_addr = V4 "32 word" | V6 "128 word"

definition secs :: "nat \<Rightarrow> duration" where
  "secs n = n * 1000000000"

section \<open>Ban list\<close>

record ban_list =
  bl_entries :: "ip_addr \<rightharpoonup> instant \<times> string"
  bl_duration :: duration

definition ban_list_new :: "u64 \<Rightarrow> ban_list" where
  "ban_list_new ban_duration_secs =
     \<lparr> bl_entries = Map.empty, bl_duration = secs (unat ban_duration_secs) \<rparr>"

definition ban :: "ban_list \<Rightarrow> ip_addr \<Rightarrow> string \<Rightarrow> instant \<Rightarrow> ban_list" where
  "ban bl ip reason now =
     bl\<lparr> bl_entries := (bl_entries bl)(ip \<mapsto> (now + bl_duration bl, reason)) \<rparr>"

definition is_banned :: "ban_list \<Rightarrow> ip_addr \<Rightarrow> instant \<Rightarrow> instant \<Rightarrow> bool \<times> ban_list" where
  "is_banned bl ip now1 now2 =
     (case bl_entries bl ip of
        None \<Rightarrow> (False, bl)
      | Some (until, reason) \<Rightarrow>
          if now1 < until then (True, bl)
          else (False, if now2 \<ge> until then bl\<lparr> bl_entries := (bl_entries bl)(ip := None) \<rparr> else bl))"

definition ban_prune :: "ban_list \<Rightarrow> instant \<Rightarrow> ban_list" where
  "ban_prune bl now =
     bl\<lparr> bl_entries := (\<lambda>ip. case bl_entries bl ip of
           Some (until, reason) \<Rightarrow> if now < until then Some (until, reason) else None
         | None \<Rightarrow> None) \<rparr>"

section \<open>Connection rate limiter\<close>

record rate_limiter =
  rl_windows :: "ip_addr \<rightharpoonup> instant list"
  rl_max_per_minute :: u32

definition rate_limiter_new :: "u32 \<Rightarrow> rate_limiter" where
  "rate_limiter_new m = \<lparr> rl_windows = Map.empty, rl_max_per_minute = m \<rparr>"

text \<open>\<open>Instant::now().checked_sub(Duration::from_secs(60))\<close>.\<close>

definition one_minute_before :: "instant \<Rightarrow> instant option" where
  "one_minute_before now = (if secs 60 \<le> now then Some (now - secs 60) else None)"

definition check_and_record :: "rate_limiter \<Rightarrow> ip_addr \<Rightarrow> instant \<Rightarrow> instant \<Rightarrow> bool \<times> rate_limiter" where
  "check_and_record rl ip now1 now2 =
     (let entry = (case rl_windows rl ip of None \<Rightarrow> [] | Some ts \<Rightarrow> ts);
          entry = (case one_minute_before now1 of
                     Some cutoff \<Rightarrow> filter (\<lambda>t. t > cutoff) entry | None \<Rightarrow> entry) in
      if length entry \<ge> unat (rl_max_per_minute rl)
      then (False, rl\<lparr> rl_windows := (rl_windows rl)(ip \<mapsto> entry) \<rparr>)
      else (True, rl\<lparr> rl_windows := (rl_windows rl)(ip \<mapsto> entry @ [now2]) \<rparr>))"

definition rate_prune :: "rate_limiter \<Rightarrow> instant \<Rightarrow> rate_limiter" where
  "rate_prune rl now =
     (case one_minute_before now of
        None \<Rightarrow> rl
      | Some cutoff \<Rightarrow>
          rl\<lparr> rl_windows := (\<lambda>ip. case rl_windows rl ip of
                Some ts \<Rightarrow> if list_ex (\<lambda>t. t > cutoff) ts then Some ts else None
              | None \<Rightarrow> None) \<rparr>)"

section \<open>Worker names\<close>

definition validate_worker_name :: "string \<Rightarrow> nat \<Rightarrow> unit result" where
  "validate_worker_name name max_len =
     (if name = [] then Inl (InvalidParams ''worker name'' ''worker name must not be empty'')
      else if length name > max_len then Inl (InvalidParams ''worker name'' ''worker name too long'')
      else if list_ex (\<lambda>c. is_control c \<or> is_whitespace c) (chars name)
      then Inl (InvalidParams ''worker name''
                  ''worker name must not contain control or whitespace characters'')
      else Inr ())"

section \<open>Token bucket\<close>

record share_rate_limiter =
  tb_tokens :: f64
  tb_max_per_sec :: f64
  tb_last_refill :: instant

definition share_rate_new :: "u32 \<Rightarrow> instant \<Rightarrow> share_rate_limiter" where
  "share_rate_new max_per_sec now =
     (let rate = f64_of_word max_per_sec in
      \<lparr> tb_tokens = rate, tb_max_per_sec = rate, tb_last_refill = now \<rparr>)"

text \<open>\<open>elapsed\<close> saturates at zero; the second reading becomes the refill time.\<close>

definition try_consume :: "share_rate_limiter \<Rightarrow> instant \<Rightarrow> instant \<Rightarrow> bool \<times> share_rate_limiter" where
  "try_consume tb now1 now2 =
     (let elapsed = as_secs_f64 (now1 - tb_last_refill tb);
          tokens = f_min (f_add (tb_tokens tb) (f_mul elapsed (tb_max_per_sec tb))) (tb_max_per_sec tb);
          tb = tb\<lparr> tb_tokens := tokens, tb_last_refill := now2 \<rparr> in
      if f_le (Fin 1) tokens then (True, tb\<lparr> tb_tokens := f_sub tokens (Fin 1) \<rparr>) else (False, tb))"

section \<open>Counters and the session guard\<close>

record invalid_share_counter =
  is_count :: u32
  is_max :: u32

definition invalid_shares_new :: "u32 \<Rightarrow> invalid_share_counter" where
  "invalid_shares_new m = \<lparr> is_count = 0, is_max = m \<rparr>"

definition record_invalid :: "invalid_share_counter \<Rightarrow> bool \<times> invalid_share_counter" where
  "record_invalid c =
     (if is_max c = 0 then (False, c)
      else let c = c\<lparr> is_count := is_count c + 1 \<rparr> in (is_count c \<ge> is_max c, c))"

record session_guard =
  sg_share_rate :: share_rate_limiter
  sg_invalid_shares :: invalid_share_counter
  sg_max_message_bytes :: nat
  sg_max_worker_name_len :: nat
  sg_authorizations :: u32
  sg_max_authorizations :: u32

definition session_guard_new :: "security_config \<Rightarrow> instant \<Rightarrow> session_guard" where
  "session_guard_new cfg now =
     \<lparr> sg_share_rate = share_rate_new (sc_max_shares_per_sec cfg) now,
       sg_invalid_shares = invalid_shares_new (sc_max_invalid_shares cfg),
       sg_max_message_bytes = sc_max_message_bytes cfg,
       sg_max_worker_name_len = sc_max_worker_name_len cfg,
       sg_authorizations = 0,
       sg_max_authorizations = sc_max_authorizations_per_session cfg \<rparr>"

definition record_new_authorization :: "session_guard \<Rightarrow> bool \<times> session_guard" where
  "record_new_authorization g =
     (if sg_max_authorizations g = 0 then (True, g)
      else let g = g\<lparr> sg_authorizations := sg_authorizations g + 1 \<rparr> in
           (\<not> (sg_authorizations g > sg_max_authorizations g), g))"

definition check_message_size :: "session_guard \<Rightarrow> nat \<Rightarrow> unit result" where
  "check_message_size g len =
     (if len > sg_max_message_bytes g then Inl (MessageTooLarge len) else Inr ())"

definition check_worker_name :: "session_guard \<Rightarrow> string \<Rightarrow> unit result" where
  "check_worker_name g name = validate_worker_name name (sg_max_worker_name_len g)"

section \<open>Budgets\<close>

text \<open>
  The contract the two per-session counters share: spending is free while the limit is zero,
  otherwise every spend raises the count by one and reports whether it has gone \<open>over\<close>.
\<close>

locale spend_budget =
  fixes spend :: "'s \<Rightarrow> bool \<times> 's"
    and used :: "'s \<Rightarrow> u32"
    and limit :: "'s \<Rightarrow> u32"
    and over :: "nat \<Rightarrow> nat \<Rightarrow> bool"
  assumes spend_off: "limit s = 0 \<Longrightarrow> spend s = (False, s)"
    and spend_count: "limit s \<noteq> 0 \<Longrightarrow> used (snd (spend s)) = used s + 1"
    and spend_over: "limit s \<noteq> 0 \<Longrightarrow> fst (spend s) = over (unat (limit s)) (unat (used s + 1))"
    and spend_limit: "limit (snd (spend s)) = limit s"
begin

definition after :: "nat \<Rightarrow> 's \<Rightarrow> 's" where
  "after n = (snd \<circ> spend) ^^ n"

lemma limit_after: "limit (after n s) = limit s"
  by (induction n) (auto simp: after_def spend_limit)

lemma used_after: "limit s \<noteq> 0 \<Longrightarrow> used (after n s) = used s + word_of_nat n"
  by (induction n) (use limit_after in \<open>auto simp: after_def spend_count\<close>)

lemma nth_spend:
  assumes "limit s \<noteq> 0" "used s = 0" "n < 2 ^ 32 - 1"
  shows "fst (spend (after n s)) = over (unat (limit s)) (Suc n)"
proof -
  have "unat (used (after n s) + 1) = Suc n"
    using assms by (simp add: used_after unat_word_ariths unat_of_nat)
  then show ?thesis using assms by (simp add: spend_over limit_after)
qed

lemma nth_spend_off: "limit s = 0 \<Longrightarrow> \<not> fst (spend (after n s))"
  using limit_after [of n s] spend_off [of "after n s"] by simp

end

interpretation invalid_budget: spend_budget record_invalid is_count is_max "\<lambda>m n. m \<le> n"
  by unfold_locales (auto simp: record_invalid_def word_le_nat_alt)

text \<open>The authorization counter reports the negation: \<open>false\<close> once the cap is exceeded.\<close>

definition spend_authorization :: "session_guard \<Rightarrow> bool \<times> session_guard" where
  "spend_authorization g = (\<not> fst (record_new_authorization g), snd (record_new_authorization g))"

interpretation auth_budget:
  spend_budget spend_authorization sg_authorizations sg_max_authorizations "\<lambda>m n. m < n"
  by unfold_locales (auto simp: spend_authorization_def record_new_authorization_def Let_def word_less_nat_alt)

text \<open>
  A session is told to disconnect exactly from its \<open>max\<close>-th invalid share on, and may
  authorize exactly \<open>max\<close> distinct identities; a limit of zero disables either counter.
\<close>

theorem session_budgets:
  assumes "n < 2 ^ 32 - 1"
  shows "(fst (record_invalid (((snd \<circ> record_invalid) ^^ n) (invalid_shares_new m)))
            \<longleftrightarrow> m \<noteq> 0 \<and> unat m \<le> Suc n)
       \<and> (fst (record_new_authorization (((snd \<circ> record_new_authorization) ^^ n) (session_guard_new cfg t)))
            \<longleftrightarrow> sc_max_authorizations_per_session cfg = 0
              \<or> Suc n \<le> unat (sc_max_authorizations_per_session cfg))"
proof (rule conjI)
  show "fst (record_invalid (((snd \<circ> record_invalid) ^^ n) (invalid_shares_new m)))
      \<longleftrightarrow> m \<noteq> 0 \<and> unat m \<le> Suc n"
    using invalid_budget.nth_spend [of "invalid_shares_new m" n]
      invalid_budget.nth_spend_off [of "invalid_shares_new m" n] assms
    by (cases "m = 0") (simp_all add: invalid_budget.after_def invalid_shares_new_def)
  have eq: "snd \<circ> spend_authorization = snd \<circ> record_new_authorization"
    by (auto simp: spend_authorization_def)
  show "fst (record_new_authorization (((snd \<circ> record_new_authorization) ^^ n) (session_guard_new cfg t)))
      \<longleftrightarrow> sc_max_authorizations_per_session cfg = 0
        \<or> Suc n \<le> unat (sc_max_authorizations_per_session cfg)"
    using auth_budget.nth_spend [of "session_guard_new cfg t" n]
      auth_budget.nth_spend_off [of "session_guard_new cfg t" n] assms
    by (cases "sc_max_authorizations_per_session cfg = 0")
       (simp_all add: auth_budget.after_def eq session_guard_new_def spend_authorization_def, metis not_le)
qed

theorem session_budgets_witness:
  "fst (record_invalid (((snd \<circ> record_invalid) ^^ 49) (invalid_shares_new 50)))
   \<and> \<not> fst (record_new_authorization
        (((snd \<circ> record_new_authorization) ^^ 49) (session_guard_new (c_security sample_config) 0)))"
  using session_budgets [of 49 50 "c_security sample_config" 0] by (simp add: sample_config_def)

section \<open>The sliding window\<close>

text \<open>
  The limiter as a machine: connection attempts and periodic prunes.  The ghost component
  \<open>adm\<close> collects the admission times per address.
\<close>

datatype rl_event = Attempt ip_addr instant instant | RlPrune instant

fun rl_step :: "rate_limiter \<times> (ip_addr \<Rightarrow> instant list) \<Rightarrow> rl_event \<Rightarrow> rate_limiter \<times> (ip_addr \<Rightarrow> instant list)" where
  "rl_step (rl, adm) (Attempt ip now1 now2) =
     (let (ok, rl') = check_and_record rl ip now1 now2 in
      (rl', if ok then adm(ip := adm ip @ [now2]) else adm))"
| "rl_step (rl, adm) (RlPrune now) = (rate_prune rl now, adm)"

text \<open>The clock never runs backwards between the readings of a run.\<close>

fun readings :: "rl_event \<Rightarrow> instant list" where
  "readings (Attempt ip now1 now2) = [now1, now2]"
| "readings (RlPrune now) = [now]"

definition rl_run :: "rate_limiter \<Rightarrow> rl_event list \<Rightarrow> rate_limiter \<times> (ip_addr \<Rightarrow> instant list)" where
  "rl_run rl es = foldl rl_step (rl, \<lambda>_. []) es"

abbreviation recent :: "instant \<Rightarrow> instant list \<Rightarrow> instant list" where
  "recent now ts \<equiv> filter (\<lambda>t. now < t + secs 60) ts"

abbreviation window :: "rate_limiter \<Rightarrow> ip_addr \<Rightarrow> instant list" where
  "window rl ip \<equiv> (case rl_windows rl ip of None \<Rightarrow> [] | Some ts \<Rightarrow> ts)"

text \<open>
  At time \<open>now\<close> the window of an address still holds every admission of the last minute, and
  no minute of the adm has more than the maximum.
\<close>

definition rl_inv :: "instant \<Rightarrow> rate_limiter \<times> (ip_addr \<Rightarrow> instant list) \<Rightarrow> bool" where
  "rl_inv now s \<longleftrightarrow>
     (\<forall>ip. recent now (window (fst s) ip) = recent now (snd s ip)
         \<and> (\<forall>t \<in> set (snd s ip). t \<le> now)
         \<and> (\<forall>T. length (filter (\<lambda>t. t \<le> T) (recent T (snd s ip))) \<le> unat (rl_max_per_minute (fst s))))"

lemma recent_later:
  "now \<le> now' \<Longrightarrow> recent now xs = recent now ys \<Longrightarrow> recent now' xs = recent now' ys"
proof -
  assume le: "now \<le> now'" and eq: "recent now xs = recent now ys"
  have "recent now' zs = recent now' (recent now zs)" for zs
    using le by (auto simp: filter_filter intro!: filter_cong)
  then show ?thesis using eq by metis
qed

lemma rl_inv_later:
  assumes "rl_inv now s" "now \<le> now'"
  shows "rl_inv now' s"
  unfolding rl_inv_def
proof (intro allI conjI)
  fix ip T
  show "recent now' (window (fst s) ip) = recent now' (snd s ip)"
    using assms recent_later [of now now' "window (fst s) ip" "snd s ip"] by (simp add: rl_inv_def)
  show "\<forall>t \<in> set (snd s ip). t \<le> now'" using assms unfolding rl_inv_def by (meson order_trans)
  show "length (filter (\<lambda>t. t \<le> T) (recent T (snd s ip))) \<le> unat (rl_max_per_minute (fst s))"
    using assms by (simp add: rl_inv_def)
qed

lemma kept_entry:
  "(case one_minute_before now of Some cutoff \<Rightarrow> filter (\<lambda>t. t > cutoff) ts | None \<Rightarrow> ts)
   = (if secs 60 \<le> now then recent now ts else ts)"
  by (auto simp: one_minute_before_def intro!: filter_cong)

lemma recent_kept: "recent now (if secs 60 \<le> now then recent now ts else ts) = recent now ts"
  by simp

lemma recent_all: "now < secs 60 \<Longrightarrow> recent now ts = ts"
  by (auto simp: filter_id_conv)

lemma length_recent_later: "now \<le> now' \<Longrightarrow> length (recent now' ts) \<le> length (recent now ts)"
  by (induction ts) auto

lemma rl_inv_attempt:
  assumes inv: "rl_inv now (rl, adm)" and le: "now \<le> now1" "now1 \<le> now2"
  shows "rl_inv now2 (rl_step (rl, adm) (Attempt ip now1 now2))"
proof -
  let ?w = "window rl ip"
  define entry where "entry = (if secs 60 \<le> now1 then recent now1 ?w else ?w)"
  have inv1: "recent now1 (window rl i) = recent now1 (adm i)" "\<forall>t \<in> set (adm i). t \<le> now"
    "length (filter (\<lambda>t. t \<le> T) (recent T (adm i))) \<le> unat (rl_max_per_minute rl)" for i T
    using rl_inv_later [OF inv le(1)] inv by (simp_all add: rl_inv_def)
  have inv2: "recent now2 (window rl i) = recent now2 (adm i)" for i
    using recent_later [OF le(2) inv1(1)] .
  have e2: "recent now2 entry = recent now2 (adm ip)"
    using recent_later [OF le(2), of entry ?w] inv2 [of ip] by (simp add: entry_def)
  have le_entry: "length (recent T (adm ip)) \<le> length entry" if "now1 \<le> T" for T
  proof -
    have "length (recent T (adm ip)) \<le> length (recent now1 ?w)"
      using length_recent_later [OF that, of "adm ip"] inv1(1) [of ip] by simp
    also have "\<dots> \<le> length entry" by (simp add: entry_def)
    finally show ?thesis .
  qed
  have step: "rl_step (rl, adm) (Attempt ip now1 now2) =
     (if unat (rl_max_per_minute rl) \<le> length entry
      then (rl\<lparr> rl_windows := (rl_windows rl)(ip \<mapsto> entry) \<rparr>, adm)
      else (rl\<lparr> rl_windows := (rl_windows rl)(ip \<mapsto> entry @ [now2]) \<rparr>, adm(ip := adm ip @ [now2])))"
    by (simp add: check_and_record_def Let_def kept_entry entry_def [symmetric])
  have old: "\<forall>t \<in> set (adm i). t \<le> now2" for i using inv1(2) [of i] le by auto
  have new: "length (filter (\<lambda>t. t \<le> T) (recent T (adm ip @ [now2]))) \<le> unat (rl_max_per_minute rl)"
    if "length entry < unat (rl_max_per_minute rl)" for T
  proof (cases "now2 \<le> T")
    case True
    then have "length (filter (\<lambda>t. t \<le> T) (recent T (adm ip @ [now2]))) \<le> length (recent T (adm ip)) + 1"
      using length_filter_le [of "\<lambda>t. t \<le> T" "recent T (adm ip)"] by simp
    with le_entry [of T] True le that show ?thesis by linarith
  next
    case False
    then show ?thesis using inv1(3) [of T ip] by simp
  qed
  show ?thesis
  proof (cases "unat (rl_max_per_minute rl) \<le> length entry")
    case True
    then show ?thesis unfolding step using inv1(3) inv2 e2 old by (auto simp: rl_inv_def)
  next
    case False
    then have "unat (rl_max_per_minute rl) > length entry" by simp
    from new [OF this] show ?thesis
      unfolding step rl_inv_def using False inv1(3) inv2 e2 old
      by (intro allI conjI) (simp_all del: filter_append, auto)
  qed
qed

lemma rl_inv_prune:
  assumes inv: "rl_inv now (rl, adm)" and le: "now \<le> now'"
  shows "rl_inv now' (rl_step (rl, adm) (RlPrune now'))"
proof -
  have w: "recent now' (window (rate_prune rl now') ip) = recent now' (window rl ip)" for ip
    by (auto simp: rate_prune_def one_minute_before_def list_ex_iff
        intro!: filter_False [symmetric] split: option.split)
  have "rl_max_per_minute (rate_prune rl now') = rl_max_per_minute rl"
    by (simp add: rate_prune_def split: option.split)
  with rl_inv_later [OF inv le] w show ?thesis by (simp add: rl_inv_def)
qed

lemma rl_inv_run:
  assumes "rl_inv now s" "sorted (now # concat (map readings es))"
  shows "\<exists>now'. rl_inv now' (foldl rl_step s es)"
  using assms
proof (induction es arbitrary: now s)
  case Nil
  then show ?case by auto
next
  case (Cons e es)
  obtain rl adm where s: "s = (rl, adm)" by (cases s)
  show ?case
  proof (cases e)
    case (Attempt ip now1 now2)
    then have "rl_inv now2 (rl_step s e)" "sorted (now2 # concat (map readings es))"
      using Cons.prems rl_inv_attempt [of now rl adm now1 now2 ip] s by auto
    from Cons.IH [OF this] show ?thesis by simp
  next
    case (RlPrune now')
    then have "rl_inv now' (rl_step s e)" "sorted (now' # concat (map readings es))"
      using Cons.prems rl_inv_prune [of now rl adm now'] s by auto
    from Cons.IH [OF this] show ?thesis by simp
  qed
qed

lemma rl_max_step: "rl_max_per_minute (fst (rl_step s e)) = rl_max_per_minute (fst s)"
  by (cases s; cases e) (auto simp: check_and_record_def rate_prune_def Let_def split: option.splits)

lemma rl_max_run: "rl_max_per_minute (fst (foldl rl_step s es)) = rl_max_per_minute (fst s)"
  by (induction es arbitrary: s) (auto simp: rl_max_step)

text \<open>
  Whatever the order of attempts from any addresses and of prunes, with a clock that does not
  run backwards, no address is ever admitted more than the configured number of times within
  any 60-second window.
\<close>

theorem rate_limit_window:
  assumes "sorted (concat (map readings es))"
  shows "length (filter (\<lambda>t. T < t + secs 60 \<and> t \<le> T) (snd (rl_run (rate_limiter_new m) es) ip)) \<le> unat m"
proof -
  have "rl_inv 0 (rate_limiter_new m, \<lambda>_. [])"
    by (simp add: rl_inv_def rate_limiter_new_def)
  then obtain now where "rl_inv now (rl_run (rate_limiter_new m) es)"
    using rl_inv_run assms unfolding rl_run_def by fastforce
  then show ?thesis
    by (simp add: rl_inv_def rl_run_def rl_max_run rate_limiter_new_def conj_commute)
qed

theorem rate_limit_window_witness:
  "snd (rl_run (rate_limiter_new 2)
      [Attempt (V4 1) 1 2, Attempt (V4 1) 3 4, Attempt (V4 1) 5 6, RlPrune 7]) (V4 1) = [2, 4]
   \<and> length (filter (\<lambda>t. 8 < t + secs 60 \<and> t \<le> 8) (snd (rl_run (rate_limiter_new 2)
      [Attempt (V4 1) 1 2, Attempt (V4 1) 3 4, Attempt (V4 1) 5 6, RlPrune 7]) (V4 1))) \<le> 2"
proof
  show "snd (rl_run (rate_limiter_new 2)
      [Attempt (V4 1) 1 2, Attempt (V4 1) 3 4, Attempt (V4 1) 5 6, RlPrune 7]) (V4 1) = [2, 4]"
    by (simp add: rl_run_def check_and_record_def rate_limiter_new_def one_minute_before_def secs_def)
  show "length (filter (\<lambda>t. 8 < t + secs 60 \<and> t \<le> 8) (snd (rl_run (rate_limiter_new 2)
      [Attempt (V4 1) 1 2, Attempt (V4 1) 3 4, Attempt (V4 1) 5 6, RlPrune 7]) (V4 1))) \<le> 2"
    using rate_limit_window [of "[Attempt (V4 1) 1 2, Attempt (V4 1) 3 4, Attempt (V4 1) 5 6, RlPrune 7]" 8 2 "V4 1"]
    by simp
qed

section \<open>The token bucket\<close>

declare of_nat_unat [simp del]

definition tb_inv :: "u32 \<Rightarrow> share_rate_limiter \<Rightarrow> bool" where
  "tb_inv m tb \<longleftrightarrow> tb_max_per_sec tb = Fin (of_nat (unat m)) \<and>
     (\<exists>t. tb_tokens tb = Fin t \<and> 0 \<le> t \<and> t \<le> of_nat (unat m))"

lemma u32_exact: "f64_of_word (m :: u32) = Fin (of_nat (unat m))" "rnd (of_nat (unat m)) = of_nat (unat m)"
proof -
  have "unat m \<le> 2 ^ 53" using unat_lt [of m] by simp
  then show "f64_of_word m = Fin (of_nat (unat m))" "rnd (of_nat (unat m)) = of_nat (unat m)"
    by (simp_all add: f64_of_word_def f64_of_nat_exact rnd_nat)
qed

lemma u32_le: "(of_nat (unat (m :: u32)) :: rat) \<le> 2 ^ 1023"
proof -
  have "(of_nat (unat m) :: rat) \<le> of_nat (2 ^ 32)" using unat_lt [of m] by (simp only: of_nat_le_iff) simp
  then show ?thesis by (rule order_trans) simp
qed

lemma tb_inv_new: "tb_inv m (share_rate_new m now)"
  by (simp add: tb_inv_def share_rate_new_def Let_def u32_exact)

lemma refill_bounds:
  assumes "0 \<le> t" "t \<le> of_nat (unat (m :: u32))"
  shows "\<exists>y. f_min (f_add (Fin t) (f_mul (as_secs_f64 d) (Fin (of_nat (unat m))))) (Fin (of_nat (unat m))) = Fin y
           \<and> 0 \<le> y \<and> y \<le> of_nat (unat m)
           \<and> (secs 1 \<le> d \<longrightarrow> y = of_nat (unat m))"
proof -
  let ?m = "of_nat (unat m) :: rat"
  let ?z = "f_mul (as_secs_f64 d) (Fin ?m)"
  have z: "?z = NaN \<or> f_le (Fin 0) ?z" using f_mul_nonneg [OF as_secs_f64_nonneg] by simp
  have x: "f_add (Fin t) ?z = NaN \<or> f_le (Fin 0) (f_add (Fin t) ?z)"
    using z assms(1) f_add_nonneg [of "Fin t" ?z] by (cases "?z = NaN") auto
  have full: "f_add (Fin t) ?z = NaN \<or> f_le (Fin ?m) (f_add (Fin t) ?z)" if "secs 1 \<le> d"
  proof -
    have "?z = NaN \<or> f_le (f64_of ?m) ?z"
      using f_mul_ge [OF as_secs_f64_ge_1 [of d], of ?m] that by (simp add: secs_def)
    then have "?z = NaN \<or> f_le (Fin ?m) ?z" using u32_le [of m] by (simp add: f64_of_Fin u32_exact)
    then show ?thesis using f_add_ge [of t ?m ?z] assms(1) u32_le [of m] by (auto simp: u32_exact)
  qed
  show ?thesis
    using x full by (cases "f_add (Fin t) ?z") (auto simp: f_min_def f_le_def)
qed

lemma tb_step:
  assumes "tb_inv m tb"
  shows "tb_inv m (snd (try_consume tb now1 now2))"
    and "m \<noteq> 0 \<Longrightarrow> tb_last_refill tb + secs 1 \<le> now1 \<Longrightarrow> fst (try_consume tb now1 now2)"
proof -
  let ?m = "of_nat (unat m) :: rat"
  obtain t where t: "tb_tokens tb = Fin t" "0 \<le> t" "t \<le> ?m" and mx: "tb_max_per_sec tb = Fin ?m"
    using assms by (auto simp: tb_inv_def)
  obtain y where y: "f_min (f_add (Fin t) (f_mul (as_secs_f64 (now1 - tb_last_refill tb)) (Fin ?m))) (Fin ?m) = Fin y"
      "0 \<le> y" "y \<le> ?m" "secs 1 \<le> now1 - tb_last_refill tb \<longrightarrow> y = ?m"
    using refill_bounds [OF t(2,3), of "now1 - tb_last_refill tb"] by blast
  have sub: "\<exists>r. f_sub (Fin y) (Fin 1) = Fin r \<and> 0 \<le> r \<and> r \<le> ?m" if "1 \<le> y"
  proof -
    have "\<bar>y - 1\<bar> \<le> 2 ^ 1023" using that y(3) u32_le [of m] by simp
    then have "f_sub (Fin y) (Fin 1) = Fin (rnd (y - 1))" by (simp add: f_sub_def f64_of_Fin)
    moreover have "0 \<le> rnd (y - 1)" using that by (simp add: rnd_nonneg)
    moreover have "rnd (y - 1) \<le> ?m" using rnd_mono [of "y - 1" ?m] y(3) by (simp add: u32_exact)
    ultimately show ?thesis by blast
  qed
  show "tb_inv m (snd (try_consume tb now1 now2))"
    using y(1-3) sub by (auto simp: tb_inv_def try_consume_def Let_def t(1) mx)
  assume "m \<noteq> 0" "tb_last_refill tb + secs 1 \<le> now1"
  then have "y = ?m" "1 \<le> ?m" using y(4) by (auto simp: unat_gt_0 Suc_le_eq)
  then show "fst (try_consume tb now1 now2)" using y(1) by (simp add: try_consume_def Let_def t(1) mx)
qed

text \<open>
  Over any sequence of submits the bucket never holds less than zero or more than the
  configured burst, so rounding can neither lock a session out nor let it bank credit; and a
  session that was silent for a second always gets its next share through, when shares are
  allowed at all.
\<close>

theorem token_bucket_bounds:
  assumes "tb = foldl (\<lambda>tb r. snd (try_consume tb (fst r) (snd r))) (share_rate_new m now) rs"
  shows "(\<exists>t. tb_tokens tb = Fin t \<and> 0 \<le> t \<and> t \<le> of_nat (unat m))
       \<and> (m \<noteq> 0 \<and> tb_last_refill tb + secs 1 \<le> now1 \<longrightarrow> fst (try_consume tb now1 now2))"
proof -
  have "tb_inv m (foldl (\<lambda>tb r. snd (try_consume tb (fst r) (snd r))) b rs)" if "tb_inv m b" for b
    using that by (induction rs arbitrary: b) (auto simp: tb_step)
  then have "tb_inv m tb" using tb_inv_new assms by blast
  then show ?thesis using tb_step(2) [of m tb now1 now2] by (auto simp: tb_inv_def)
qed

theorem token_bucket_bounds_witness:
  "fst (try_consume (snd (try_consume (share_rate_new 1 0) 0 0)) (secs 1) (secs 1))"
proof -
  have "tb_last_refill (snd (try_consume (share_rate_new 1 0) 0 0)) = 0"
    by (simp add: try_consume_def Let_def)
  then show ?thesis
    using token_bucket_bounds [of "snd (try_consume (share_rate_new 1 0) 0 0)" 1 0 "[(0, 0)]" "secs 1" "secs 1"]
    by simp
qed

section \<open>Bans\<close>

text \<open>
  A ban holds for the configured time and no longer: until then every query answers banned
  and neither queries nor prunes drop it; from then on a query answers not banned and removes
  the entry; no operation on one address changes the verdict on another.
\<close>

theorem ban_duration:
  "fst (is_banned (ban bl ip reason t) ip' now now2) =
     (if ip' = ip then now < t + bl_duration bl else fst (is_banned bl ip' now now2))
   \<and> bl_entries (ban_prune (ban bl ip reason t) now) ip =
     (if now < t + bl_duration bl then Some (t + bl_duration bl, reason) else None)
   \<and> bl_entries (snd (is_banned (ban bl ip reason t) ip now (now + d))) ip =
     (if now < t + bl_duration bl then Some (t + bl_duration bl, reason) else None)"
  by (auto simp: is_banned_def ban_def ban_prune_def split: option.splits)

lemma worker_name_ok:
  "validate_worker_name n k = Inr u \<longleftrightarrow>
     n \<noteq> [] \<and> length n \<le> k \<and> list_all (\<lambda>c. \<not> is_control c \<and> \<not> is_whitespace c) (chars n)"
  by (auto simp: validate_worker_name_def list_ex_iff list_all_iff split: if_splits)

end
