(* ===== verification/Identity.thy ===== *)
theory Identity
  imports Security
begin

text \<open>
  Miner identities (\<open>src/mining/identity.rs\<close>): the user name \<open>address[.label]\<close> and the payout
  it names.  Addresses are values of the \<open>bitcoin\<close> crate, a type parameter with its four
  operations.
\<close>

record payout_descriptor =
  pd_address :: string
  pd_script_pubkey :: bytes

record miner_identity =
  mi_full_name :: string
  mi_canonical_name :: string
  mi_payout :: payout_descriptor
  mi_worker_label :: "string option"

record 'a address_api =
  a_parse :: "string \<Rightarrow> 'a option"
  a_require_network :: "'a \<Rightarrow> network \<Rightarrow> 'a option"
  a_to_string :: "'a \<Rightarrow> string"
  a_script_pubkey :: "'a \<Rightarrow> bytes"

definition invalid_identity :: "string \<Rightarrow> pool_error" where
  "invalid_identity detail = InvalidParams ''miner identity'' detail"

definition validate_identity_text :: "string \<Rightarrow> nat \<Rightarrow> unit result" where
  "validate_identity_text raw max_len =
     (case validate_worker_name raw max_len of
        Inl (InvalidParams m detail) \<Rightarrow> Inl (invalid_identity detail)
      | r \<Rightarrow> r)"

fun network_name :: "network \<Rightarrow> string" where
  "network_name Bitcoin = ''mainnet''"
| "network_name Testnet = ''testnet''"
| "network_name Testnet4 = ''testnet4''"
| "network_name Signet = ''signet''"
| "network_name Regtest = ''regtest''"

definition identity_parse :: "'a address_api \<Rightarrow> string \<Rightarrow> network \<Rightarrow> nat \<Rightarrow> miner_identity result" where
  "identity_parse api raw network max_len =
     bind_res (validate_identity_text raw max_len) (\<lambda>_.
     bind_res (case split_once (CHR ''.'') raw of
                 Some (address, label) \<Rightarrow>
                   if label = [] then Inl (invalid_identity ''worker label after '.' must not be empty'')
                   else Inr (address, Some label)
               | None \<Rightarrow> Inr (raw, None)) (\<lambda>(address, worker_label).
     if address = [] then Inl (invalid_identity ''payout address must not be empty'')
     else
     bind_res (ok_or (invalid_identity ''payout address is not a valid Bitcoin address'')
                 (a_parse api address)) (\<lambda>parsed.
     bind_res (ok_or (invalid_identity (''payout address is not valid for '' @ network_name network))
                 (a_require_network api parsed network)) (\<lambda>checked.
     let address = a_to_string api checked in
     Inr \<lparr> mi_full_name = raw,
           mi_canonical_name = (case worker_label of Some label \<Rightarrow> address @ ''.'' @ label | None \<Rightarrow> address),
           mi_payout = \<lparr> pd_address = address, pd_script_pubkey = a_script_pubkey api checked \<rparr>,
           mi_worker_label = worker_label \<rparr>))))"

section \<open>Canonical names\<close>

text \<open>
  What the crate documents of an address: it prints to text that parses back to it and stays
  on its network, and the text of an address contains no dot.
\<close>

definition address_ok :: "'a address_api \<Rightarrow> bool" where
  "address_ok api \<longleftrightarrow>
     (\<forall>s n p a. a_parse api s = Some p \<longrightarrow> a_require_network api p n = Some a \<longrightarrow>
        a_parse api (a_to_string api a) = Some a \<and> a_require_network api a n = Some a \<and>
        a_to_string api a \<noteq> [] \<and> CHR ''.'' \<notin> set (a_to_string api a))"

lemma identity_parse_Inr:
  assumes "identity_parse api raw net k = Inr mi"
  obtains addr p a where
    "validate_worker_name raw k = Inr ()" "addr \<noteq> []"
    "case split_once (CHR ''.'') raw of
       None \<Rightarrow> addr = raw \<and> mi_worker_label mi = None
     | Some (x, l) \<Rightarrow> addr = x \<and> l \<noteq> [] \<and> mi_worker_label mi = Some l"
    "a_parse api addr = Some p" "a_require_network api p net = Some a"
    "mi_full_name mi = raw"
    "mi_payout mi = \<lparr> pd_address = a_to_string api a, pd_script_pubkey = a_script_pubkey api a \<rparr>"
    "mi_canonical_name mi = a_to_string api a @ (case mi_worker_label mi of None \<Rightarrow> [] | Some l \<Rightarrow> ''.'' @ l)"
  using assms
  by (auto simp: identity_parse_def validate_identity_text_def bind_res_Inr Let_def
      split: option.splits if_splits sum.splits pool_error.splits)


definition sample_address :: "string address_api" where
  "sample_address = \<lparr> a_parse = (\<lambda>s. if s \<noteq> [] \<and> CHR ''.'' \<notin> set s then Some (map ascii_lower s) else None),
     a_require_network = (\<lambda>a n. if a \<noteq> [] \<and> CHR ''.'' \<notin> set a \<and> map ascii_lower a = a then Some a else None),
     a_to_string = (\<lambda>a. a), a_script_pubkey = as_bytes \<rparr>"

lemma sample_address_ok: "address_ok sample_address"
  by (auto simp: address_ok_def sample_address_def split: if_splits)


end
