(* ===== verification/Targets.thy ===== *)
theory Targets
  imports Errors F64
begin

text \<open>
  Targets and difficulties (\<open>src/bitcoin/template.rs\<close>, utilities).  A target is a 32-byte
  big-endian string; its value is \<open>be_nat\<close>.  The theory shows that the byte-wise long
  division is integer division of the difficulty-1 target, that the difficulty read from a
  hash never falls under the exact quotient, and what compact \<open>bits\<close> denote.
\<close>

section \<open>Definitions\<close>

definition DIFF1_TARGET :: bytes where
  "DIFF1_TARGET = [0, 0, 0, 0, 0xff, 0xff] @ replicate 26 0"

text \<open>The loop of the long division: the accumulator is a \<open>u128\<close>, the quotient byte a cast.\<close>

fun div_be_loop :: "u64 \<Rightarrow> u128 \<Rightarrow> bytes \<Rightarrow> bytes" where
  "div_be_loop divisor rem [] = []"
| "div_be_loop divisor rem (byte # value) =
     (let accum = or (push_bit 8 rem) (ucast byte) in
      ucast (accum div ucast divisor) # div_be_loop divisor (accum mod ucast divisor) value)"

definition div_be_u256_by_u64 :: "bytes \<Rightarrow> u64 \<Rightarrow> bytes" where
  "div_be_u256_by_u64 value divisor = div_be_loop divisor 0 value"

definition difficulty_to_target :: "u64 \<Rightarrow> bytes" where
  "difficulty_to_target difficulty =
     (if difficulty \<le> 1 then DIFF1_TARGET else div_be_u256_by_u64 DIFF1_TARGET difficulty)"

text \<open>\<open>hash_be.iter().position(|&b| b != 0)\<close>.\<close>

fun first_nonzero :: "bytes \<Rightarrow> nat option" where
  "first_nonzero [] = None"
| "first_nonzero (b # bs) = (if b \<noteq> 0 then Some 0 else map_option Suc (first_nonzero bs))"

text \<open>The loop over \<open>hash_be[nz + j]\<close>, \<open>j\<close> in \<open>0..take\<close>.\<close>

fun sig_loop :: "u64 \<Rightarrow> bytes \<Rightarrow> u64" where
  "sig_loop acc [] = acc"
| "sig_loop acc (b # bs) = sig_loop (or (push_bit 8 acc) (ucast b)) bs"

definition hash_sig :: "bytes \<Rightarrow> nat \<Rightarrow> u64" where
  "hash_sig hash_be nz =
     (let tk = min 8 (32 - nz) in
      push_bit ((8 - tk) * 8) (sig_loop 0 (List.take tk (drop nz hash_be))))"

definition DIFF1_SIG :: u64 where
  "DIFF1_SIG = 0xFFFF000000000000"

definition hash_to_difficulty :: "bytes \<Rightarrow> u64" where
  "hash_to_difficulty hash_le =
     (let hash_be = rev hash_le;
          nz = (case first_nonzero hash_be of None \<Rightarrow> 31 | Some i \<Rightarrow> i);
          sig = hash_sig hash_be nz in
      if sig = 0 then - 1
      else
        let ratio = push_bit 64 (ucast DIFF1_SIG :: u128) div ucast sig;
            exp = (int nz - 4) * 8 in
        if exp > 64 then - 1
        else
          let q = drop_bit (nat (64 - exp)) ratio in
          if unat q < 2 ^ 64 then ucast q else - 1)"

definition compact_to_target :: "u32 \<Rightarrow> bytes result" where
  "compact_to_target bits =
     (let exponent = unat (and (drop_bit 24 bits) 0xff);
          mantissa = and bits 0x007fffff in
      if mantissa = 0 then Inr (replicate 32 0)
      else if exponent \<le> 3 then
        Inr (replicate 28 0 @ to_be 4 (unat (drop_bit (8 * (3 - exponent)) mantissa)))
      else
        let shift = exponent - 3 in
        if shift > 29 then Inl (Other ''bits overflow target width'')
        else Inr (replicate (32 - 3 - shift) 0
                  @ [ucast (and (drop_bit 16 mantissa) 0xff),
                     ucast (and (drop_bit 8 mantissa) 0xff),
                     ucast (and mantissa 0xff)]
                  @ replicate shift 0))"

definition bits_to_target :: "string \<Rightarrow> bytes result" where
  "bits_to_target bits_hex =
     (case u32_from_hex bits_hex of
        None \<Rightarrow> Inl (Other ''Invalid bits'')
      | Some bits \<Rightarrow> compact_to_target bits)"

text \<open>
  \<open>2f64.powf(x)\<close> has unspecified precision, so \<open>powf2\<close> is a parameter of the network
  difficulty.
\<close>

definition bits_to_difficulty :: "(f64 \<Rightarrow> f64) \<Rightarrow> string \<Rightarrow> f64 result" where
  "bits_to_difficulty powf2 bits_hex =
     (case u32_from_hex bits_hex of
        None \<Rightarrow> Inl (Other ''Invalid bits'')
      | Some bits \<Rightarrow>
          let exponent = unat (and (drop_bit 24 bits) 0xff);
              mantissa = and bits 0x007fffff in
          if mantissa = 0 then Inl (Other ''Invalid bits mantissa = 0'')
          else
            let exponent_factor = f_sub (Fin 232) (f_mul (Fin 8) (f64_of_nat exponent)) in
            Inr (f_mul (f_div (Fin 65535) (f64_of_word mantissa)) (powf2 exponent_factor)))"

section \<open>Long division\<close>

definition DIFF1 :: nat where
  "DIFF1 = 0xFFFF * 256 ^ 26"

lemma be_nat_DIFF1_TARGET: "be_nat DIFF1_TARGET = DIFF1"
  by (simp add: DIFF1_TARGET_def DIFF1_def be_nat_append be_nat_Cons be_nat_replicate_0)

lemma length_DIFF1_TARGET [simp]: "length DIFF1_TARGET = 32"
  by (simp add: DIFF1_TARGET_def)

lemma length_div_be_loop [simp]: "length (div_be_loop d r bs) = length bs"
  by (induction bs arbitrary: r) (auto simp: Let_def)

lemma length_difficulty_to_target [simp]: "length (difficulty_to_target d) = 32"
  by (simp add: difficulty_to_target_def div_be_u256_by_u64_def)

text \<open>One step of schoolbook division, base 256.\<close>

lemma div_step:
  fixes a b d n :: nat
  assumes "0 < d"
  shows "(a * n + b) div d = a div d * n + (a mod d * n + b) div d"
proof -
  have "a * n + b = d * (a div d * n) + (a mod d * n + b)"
    by (metis add.assoc add_mult_distrib mult.assoc mult_div_mod_eq)
  with assms show ?thesis by (metis add.commute div_mult_self4 less_not_refl2)
qed

lemma be_nat_div_be_loop:
  assumes "unat r < unat d"
  shows "be_nat (div_be_loop d r bs) = (unat r * 256 ^ length bs + be_nat bs) div unat d"
  using assms
proof (induction bs arbitrary: r)
  case Nil
  then show ?case by simp
next
  case (Cons b bs)
  define a :: u128 where "a = or (push_bit 8 r) (ucast b)"
  have d64: "unat d < 2 ^ 64" using unsigned_less [of d] by simp
  have d: "unat (ucast d :: u128) = unat d" by (simp add: unat_ucast_up)
  have a: "unat a = unat r * 256 + unat b"
    unfolding a_def using Cons.prems d64 by (intro unat_shift_in_byte) simp_all
  have m: "unat (a mod ucast d) = unat a mod unat d"
    by (simp add: unat_mod_distrib d)
  have "unat a < 256 * unat d"
    using a Cons.prems unat_byte_lt [of b] by linarith
  then have "unat a div unat d < 256"
    by (simp add: less_mult_imp_div_less)
  then have q: "unat (ucast (a div ucast d) :: u8) = unat a div unat d"
    using unat_ucast_mod [of "a div ucast d", where 'b = 8] by (simp add: unat_div_distrib d)
  have "be_nat (div_be_loop d (a mod ucast d) bs) =
        (unat a mod unat d * 256 ^ length bs + be_nat bs) div unat d"
    using Cons.IH [of "a mod ucast d"] Cons.prems by (simp add: m)
  then have "be_nat (div_be_loop d r (b # bs)) =
        unat a div unat d * 256 ^ length bs + (unat a mod unat d * 256 ^ length bs + be_nat bs) div unat d"
    by (simp add: a_def [symmetric] Let_def be_nat_Cons q)
  also have "\<dots> = (unat a * 256 ^ length bs + be_nat bs) div unat d"
    using div_step [of "unat d" "unat a" "256 ^ length bs" "be_nat bs"] Cons.prems by simp
  also have "unat a * 256 ^ length bs + be_nat bs = unat r * 256 ^ length (b # bs) + be_nat (b # bs)"
    by (simp add: a be_nat_Cons algebra_simps)
  finally show ?case .
qed

lemma be_nat_div_be_u256:
  "d \<noteq> 0 \<Longrightarrow> be_nat (div_be_u256_by_u64 v d) = be_nat v div unat d"
  using be_nat_div_be_loop [of 0 d v] by (simp add: div_be_u256_by_u64_def unat_gt_0)

lemma be_nat_difficulty_to_target:
  "be_nat (difficulty_to_target d) = DIFF1 div max 1 (unat d)"
proof (cases "d \<le> 1")
  case True
  then have "unat d \<le> 1" by (simp add: word_le_nat_alt)
  then have "max 1 (unat d) = 1" by simp
  with True show ?thesis by (simp add: difficulty_to_target_def be_nat_DIFF1_TARGET)
next
  case False
  then have "1 < unat d" "d \<noteq> 0" by (auto simp: word_le_nat_alt)
  with False show ?thesis
    by (simp add: difficulty_to_target_def be_nat_div_be_u256 be_nat_DIFF1_TARGET)
qed

section \<open>Difficulty of a hash\<close>

lemma first_nonzero_None: "first_nonzero bs = None \<Longrightarrow> be_nat bs = 0"
  by (induction bs) (auto simp: be_nat_Cons split: if_splits)

lemma first_nonzero_Some:
  "first_nonzero bs = Some i \<Longrightarrow> i < length bs \<and> bs ! i \<noteq> 0 \<and> be_nat bs = be_nat (drop i bs)"
proof (induction bs arbitrary: i)
  case Nil
  then show ?case by simp
next
  case (Cons b bs)
  then show ?case by (cases i) (auto simp: be_nat_Cons split: if_splits)
qed

lemma unat_sig_loop:
  assumes "unat acc * 256 ^ length bs + be_nat bs < 2 ^ 64"
  shows "unat (sig_loop acc bs) = unat acc * 256 ^ length bs + be_nat bs"
  using assms
proof (induction bs arbitrary: acc)
  case Nil
  then show ?case by simp
next
  case (Cons b bs)
  have "unat acc * 256 * 256 ^ length bs < 2 ^ 64" using Cons.prems by (simp add: be_nat_Cons)
  then have lt: "unat acc * 256 < 2 ^ 64"
    by (rule le_less_trans [rotated]) simp
  then have "unat acc < 2 ^ 56" by simp
  then have "unat acc * 256 + 255 < 2 ^ 64" by simp
  then have a: "unat (or (push_bit 8 acc) (ucast b)) = unat acc * 256 + unat b"
    by (intro unat_shift_in_byte) simp_all
  show ?case
    using Cons.IH [of "or (push_bit 8 acc) (ucast b)"] Cons.prems
    by (simp add: a be_nat_Cons algebra_simps)
qed

lemma unat_hash_sig:
  assumes "length hb = 32" "nz \<le> 24"
  shows "unat (hash_sig hb nz) = be_nat (take 8 (drop nz hb))"
proof -
  have "be_nat (take 8 (drop nz hb)) < 2 ^ 64"
    using be_nat_bound [of "take 8 (drop nz hb)"] assms by simp
  moreover have "min 8 (32 - nz) = 8" using assms by simp
  ultimately show ?thesis
    using unat_sig_loop [of 0 "take 8 (drop nz hb)"] by (simp add: hash_sig_def)
qed

lemma hash_sig_bounds:
  assumes len: "length hb = 32" and nz: "first_nonzero hb = Some nz" "nz \<le> 24"
  defines "s \<equiv> unat (hash_sig hb nz)"
  shows "2 ^ 56 \<le> s" "s * 256 ^ (24 - nz) \<le> be_nat hb" "be_nat hb < (s + 1) * 256 ^ (24 - nz)"
proof -
  define top rest where "top = take 8 (drop nz hb)" and "rest = drop 8 (drop nz hb)"
  have fz: "hb ! nz \<noteq> 0" "be_nat hb = be_nat (drop nz hb)"
    using first_nonzero_Some [OF nz(1)] by auto
  have s: "s = be_nat top" using unat_hash_sig [OF len nz(2)] by (simp add: s_def top_def)
  have "top \<noteq> []" "hd top = hb ! nz" "length top = 8"
    using len nz by (auto simp: top_def hd_drop_conv_nth)
  then obtain t where t: "top = hb ! nz # t" "length t = 7" by (cases top) auto
  have "1 \<le> unat (hb ! nz)" using fz(1) by (simp add: unat_gt_0 Suc_le_eq)
  then have "1 * 256 ^ 7 \<le> unat (hb ! nz) * 256 ^ 7" by (intro mult_right_mono) auto
  then show "2 ^ 56 \<le> s" by (simp add: s t be_nat_Cons)
  have rest: "be_nat rest < 256 ^ (24 - nz)" "length rest = 24 - nz"
    using be_nat_bound [of rest] len by (auto simp: rest_def)
  have "drop nz hb = top @ rest" unfolding top_def rest_def by (rule append_take_drop_id [symmetric])
  then have "be_nat hb = s * 256 ^ (24 - nz) + be_nat rest"
    using fz(2) rest(2) by (simp add: be_nat_append s)
  with rest(1) show "s * 256 ^ (24 - nz) \<le> be_nat hb" "be_nat hb < (s + 1) * 256 ^ (24 - nz)"
    by simp_all
qed

text \<open>In the band where the shift is defined, the quotient is the exact one of the kept bytes.\<close>

lemma hash_to_difficulty_quotient:
  assumes len: "length h = 32" and nz: "first_nonzero (rev h) = Some nz" "nz \<le> 12"
  defines "s \<equiv> unat (hash_sig (rev h) nz)"
  shows "unat (hash_to_difficulty h) = min (2 ^ 64 - 1) (DIFF1 div (s * 256 ^ (24 - nz)))"
proof -
  have s: "2 ^ 56 \<le> s" "s < 2 ^ 64"
    using hash_sig_bounds(1) [of "rev h" nz] len nz unsigned_less [of "hash_sig (rev h) nz"]
    by (auto simp: s_def)
  then have s0: "hash_sig (rev h) nz \<noteq> 0" by (auto simp: s_def)
  define ratio :: u128 where "ratio = push_bit 64 (ucast DIFF1_SIG) div ucast (hash_sig (rev h) nz)"
  have "unat (push_bit 64 (ucast DIFF1_SIG) :: u128) = 0xFFFF * 2 ^ 112"
    using unat_push_bit_no_wrap [of "ucast DIFF1_SIG :: u128" 64] by (simp add: DIFF1_SIG_def)
  moreover have "unat (ucast (hash_sig (rev h) nz) :: u128) = s"
    by (simp add: unat_ucast_up s_def)
  ultimately have ratio: "unat ratio = 0xFFFF * 2 ^ 112 div s"
    unfolding ratio_def unat_div_distrib by presburger
  have sh: "nat (64 - (int nz - 4) * 8) = 96 - 8 * nz" using nz(2) by (simp add: nat_diff_distrib)
  define q where "q = drop_bit (96 - 8 * nz) ratio"
  have pow: "256 ^ (24 - nz) = (2 ^ (96 - 8 * nz) * 2 ^ 96 :: nat)"
  proof -
    have "8 * (24 - nz) = 96 - 8 * nz + 96" using nz(2) by simp
    moreover have "(256 :: nat) ^ (24 - nz) = 2 ^ (8 * (24 - nz))" by (simp add: power_mult)
    ultimately show ?thesis by (simp only: power_add)
  qed
  have "unat q = 0xFFFF * 2 ^ 112 div s div 2 ^ (96 - 8 * nz)"
    unfolding q_def unat_drop_bit ratio ..
  also have "\<dots> = 0xFFFF * 2 ^ 112 div (s * 2 ^ (96 - 8 * nz))"
    by (rule div_mult2_eq [symmetric])
  also have "\<dots> = 0xFFFF * 2 ^ 112 * 2 ^ 96 div (s * 2 ^ (96 - 8 * nz) * 2 ^ 96)"
    by (rule div_mult_mult2 [symmetric]) simp
  also have "0xFFFF * 2 ^ 112 * 2 ^ 96 = DIFF1" by (simp add: DIFF1_def)
  also have "s * 2 ^ (96 - 8 * nz) * 2 ^ 96 = s * 256 ^ (24 - nz)" by (simp only: pow mult.assoc)
  finally have q: "unat q = DIFF1 div (s * 256 ^ (24 - nz))" .
  have "unat (hash_to_difficulty h) = (if unat q < 2 ^ 64 then unat q else 2 ^ 64 - 1)"
    using nz s0 sh by (simp add: hash_to_difficulty_def Let_def ratio_def [symmetric] q_def [symmetric]
        unat_ucast_mod unat_max_word)
  then show ?thesis by (auto simp: q min_def)
qed

lemma hash_to_difficulty_saturated:
  assumes len: "length h = 32" and nz: "first_nonzero (rev h) = Some nz" "12 < nz"
  shows "hash_to_difficulty h = - 1" "le_nat h < 256 ^ 19"
proof -
  show "hash_to_difficulty h = - 1"
    using nz by (simp add: hash_to_difficulty_def Let_def)
  have "le_nat h = be_nat (drop nz (rev h))"
    using first_nonzero_Some [OF nz(1)] by (simp add: be_nat_rev)
  also have "\<dots> < 256 ^ (32 - nz)"
    using be_nat_bound [of "drop nz (rev h)"] len by simp
  also have "\<dots> \<le> 256 ^ 19" using nz(2) by (intro power_increasing) auto
  finally show "le_nat h < 256 ^ 19" .
qed

lemma hash_to_difficulty_approx:
  assumes len: "length h = 32" and pos: "0 < le_nat h"
  shows "min (2 ^ 64 - 1) (DIFF1 div le_nat h) \<le> unat (hash_to_difficulty h) \<and>
         unat (hash_to_difficulty h) * le_nat h * 2 ^ 56 \<le> DIFF1 * (2 ^ 56 + 1)"
proof -
  obtain nz where nz: "first_nonzero (rev h) = Some nz"
    using pos first_nonzero_None [of "rev h"] by (cases "first_nonzero (rev h)") (auto simp: be_nat_rev)
  show ?thesis
  proof (cases "nz \<le> 12")
    case True
    let ?s = "unat (hash_sig (rev h) nz)" and ?P = "256 ^ (24 - nz) :: nat"
    let ?q = "DIFF1 div (?s * ?P)" and ?r = "unat (hash_to_difficulty h)"
    have b: "2 ^ 56 \<le> ?s" "?s * ?P \<le> le_nat h" "le_nat h < (?s + 1) * ?P"
      using hash_sig_bounds [of "rev h" nz] len nz True by (simp_all add: be_nat_rev)
    have r: "?r = min (2 ^ 64 - 1) ?q"
      using hash_to_difficulty_quotient [OF len nz True] by simp
    have "DIFF1 div le_nat h \<le> ?q" using b by (intro div_le_mono2) auto
    moreover have "?r * le_nat h * 2 ^ 56 \<le> ?q * ((?s + 1) * ?P) * 2 ^ 56"
      using b(3) r by (intro mult_le_mono) auto
    moreover have "\<dots> \<le> ?q * (?s * ?P) * (2 ^ 56 + 1)"
    proof -
      have "(?s + 1) * 2 ^ 56 \<le> ?s * (2 ^ 56 + 1)" using b(1) by simp
      then have "?q * ?P * ((?s + 1) * 2 ^ 56) \<le> ?q * ?P * (?s * (2 ^ 56 + 1))"
        by (rule mult_left_mono) simp
      then show ?thesis by (simp only: mult_ac)
    qed
    moreover have "\<dots> \<le> DIFF1 * (2 ^ 56 + 1)" by (intro mult_right_mono) auto
    ultimately show ?thesis unfolding r by linarith
  next
    case False
    then have h: "hash_to_difficulty h = - 1" "le_nat h < 256 ^ 19"
      using hash_to_difficulty_saturated [OF len nz] by auto
    have "unat (hash_to_difficulty h) * le_nat h * 2 ^ 56 \<le> 2 ^ 64 * 256 ^ 19 * 2 ^ 56"
      using h(2) by (intro mult_le_mono) (auto simp: h(1) unat_max_word)
    also have "\<dots> \<le> DIFF1 * (2 ^ 56 + 1)" by (simp add: DIFF1_def)
    finally show ?thesis by (simp add: h(1) unat_max_word)
  qed
qed

text \<open>
  C19: The difficulty of a share hash is the quotient of the difficulty-1 target by the hash,
  saturated at the largest \<open>u64\<close>: it never reads under the integer quotient, and over it by
  at most one part in \<open>2^56\<close>.
\<close>

theorem hash_to_difficulty_bounds:
  assumes "length h = 32" and "0 < le_nat h"
  shows "min (2 ^ 64 - 1) (DIFF1 div le_nat h) \<le> unat (hash_to_difficulty h)
         \<and> unat (hash_to_difficulty h) * le_nat h * 2 ^ 56 \<le> DIFF1 * (2 ^ 56 + 1)"
  using hash_to_difficulty_approx [OF assms] .

theorem hash_to_difficulty_bounds_witness:
  "unat (hash_to_difficulty (replicate 26 0 @ [0xff, 0xff] @ replicate 4 0)) = 1
   \<and> min (2 ^ 64 - 1) (DIFF1 div le_nat (replicate 26 0 @ [0xff, 0xff] @ replicate 4 0))
       \<le> unat (hash_to_difficulty (replicate 26 0 @ [0xff, 0xff] @ replicate 4 0))"
proof -
  let ?h = "replicate 26 0 @ [0xff, 0xff] @ replicate 4 0 :: bytes"
  have "0 < le_nat ?h" by (simp add: replicate_numeral)
  moreover have "unat (hash_to_difficulty ?h) = 1"
    by (simp add: hash_to_difficulty_def hash_sig_def DIFF1_SIG_def replicate_numeral)
  ultimately show ?thesis using hash_to_difficulty_bounds [of ?h] by simp
qed

lemma target_met_difficulty:
  assumes "length h = 32" and "le_nat h \<le> be_nat (difficulty_to_target d)"
  shows "d \<le> hash_to_difficulty h"
proof (cases "le_nat h = 0")
  case True
  then have "\<forall>b \<in> set (rev h). b = 0"
    using be_nat_eq_0_iff [of "rev h"] by (simp add: be_nat_rev)
  then have "first_nonzero (rev h) = None"
    using first_nonzero_Some [of "rev h"] nth_mem [of _ "rev h"] by (cases "first_nonzero (rev h)") fastforce+
  moreover have "h = replicate 32 0"
    using True assms(1) be_nat_inj [of "rev h" "replicate 32 0"]
    by (simp add: be_nat_rev be_nat_replicate_0 rev_swap)
  then have "hash_sig (rev h) 31 = 0" by (simp add: hash_sig_def)
  ultimately show ?thesis by (simp add: hash_to_difficulty_def Let_def)
next
  case False
  have d: "unat d < 2 ^ 64" using unsigned_less [of d] by simp
  have "le_nat h * max 1 (unat d) \<le> DIFF1"
    using assms(2) unfolding be_nat_difficulty_to_target
    by (metis div_times_less_eq_dividend le_trans mult_le_mono1)
  then have "unat d \<le> DIFF1 div le_nat h"
    using False by (simp add: less_eq_div_iff_mult_less_eq mult.commute)
      (metis le_trans max.cobounded2 mult_le_mono2)
  moreover have "min (2 ^ 64 - 1) (DIFF1 div le_nat h) \<le> unat (hash_to_difficulty h)"
    using hash_to_difficulty_approx [OF assms(1)] False by simp
  ultimately show ?thesis using d unfolding word_le_nat_alt by linarith
qed

text \<open>
  C11: The share target of a difficulty is the exact integer quotient of the difficulty-1 target
  (the byte-wise long division computes it), and a hash that meets that target always has at
  least that difficulty, so a credited share never reads below what its miner was assigned.
\<close>

theorem difficulty_to_target_sound:
  assumes "length h = 32" and "le_nat h \<le> be_nat (difficulty_to_target d)"
  shows "be_nat (difficulty_to_target d) = DIFF1 div max 1 (unat d)
         \<and> d \<le> hash_to_difficulty h"
  using be_nat_difficulty_to_target target_met_difficulty [OF assms] by simp

theorem difficulty_to_target_sound_witness:
  "be_nat (difficulty_to_target 1024) = DIFF1 div 1024
   \<and> 1024 \<le> hash_to_difficulty (replicate 24 0 @ [1] @ replicate 7 0)"
proof -
  let ?h = "replicate 24 0 @ [1] @ replicate 7 0 :: bytes"
  have "le_nat ?h \<le> be_nat (difficulty_to_target 1024)"
    by (simp add: be_nat_difficulty_to_target DIFF1_def replicate_numeral)
  then show ?thesis using difficulty_to_target_sound [of ?h 1024] by simp
qed

section \<open>Compact targets\<close>

lemma be_nat_mantissa:
  fixes x :: u32
  assumes "unat x < 2 ^ 23"
  shows "be_nat [ucast (and (drop_bit 16 x) 0xff), ucast (and (drop_bit 8 x) 0xff), ucast (and x 0xff)] = unat x"
proof -
  have byte: "unat (ucast (and (drop_bit k x) 0xff) :: u8) = unat x div 2 ^ k mod 256" for k
    using unat_and_mask [of "drop_bit k x" 8]
    by (simp add: unat_ucast_mod unat_drop_bit mask_eq_exp_minus_1)
  have "unat x div 65536 < 256" using assms by (simp add: less_mult_imp_div_less)
  moreover have "unat x mod 65536 = 256 * (unat x div 256 mod 256) + unat x mod 256"
    using mod_mult2_eq [of "unat x" 256 256] by simp
  ultimately show ?thesis
    using byte [of 16] byte [of 8] byte [of 0] div_mult_mod_eq [of "unat x" 65536] by (simp add: be_nat_Cons)
qed

text \<open>
  A compact target either overflows the 256-bit width, exactly when its exponent passes 32
  with a nonzero mantissa, or expands to 32 bytes whose value is the mantissa scaled by
  \<open>256^(exponent - 3)\<close> (shifted down below exponent 3).
\<close>

theorem compact_to_target_value:
  "case compact_to_target bits of
     Inl err \<Rightarrow> unat bits mod 2 ^ 23 \<noteq> 0 \<and> 32 < unat bits div 2 ^ 24
   | Inr t \<Rightarrow> length t = 32 \<and> (unat bits mod 2 ^ 23 = 0 \<or> unat bits div 2 ^ 24 \<le> 32) \<and>
       be_nat t = (if unat bits div 2 ^ 24 \<le> 3
                   then unat bits mod 2 ^ 23 div 256 ^ (3 - unat bits div 2 ^ 24)
                   else unat bits mod 2 ^ 23 * 256 ^ (unat bits div 2 ^ 24 - 3))"
proof -
  define m e where "m = unat bits mod 2 ^ 23" and "e = unat bits div 2 ^ 24"
  define x where "x = and bits 0x7fffff"
  have x: "unat x = m" "m < 2 ^ 23"
    using unat_and_mask [of bits 23] by (simp_all add: x_def m_def mask_eq_exp_minus_1)
  have e: "unat (and (drop_bit 24 bits) 0xff) = e"
  proof -
    have "unat bits div 2 ^ 24 < 256" using unat_lt [of bits] by (simp add: less_mult_imp_div_less)
    then show ?thesis
      using unat_and_mask [of "drop_bit 24 bits" 8] by (simp add: e_def unat_drop_bit mask_eq_exp_minus_1)
  qed
  have b3: "be_nat [ucast (and (drop_bit 16 x) 0xff), ucast (and (drop_bit 8 x) 0xff), ucast (and x 0xff)] = m"
    using be_nat_mantissa [of x] x by simp
  have x0: "x = 0 \<longleftrightarrow> m = 0" using x(1) by (metis unat_0 unat_eq_0)
  consider "m = 0" | "m \<noteq> 0" "e \<le> 3" | "m \<noteq> 0" "3 < e" "e \<le> 32"
    | "m \<noteq> 0" "32 < e" by linarith
  then show ?thesis
  proof cases
    case 1
    then show ?thesis
      unfolding m_def [symmetric] e_def [symmetric]
      by (simp add: compact_to_target_def x_def [symmetric] x0 be_nat_replicate_0 Let_def)
  next
    case 2
    have "unat (drop_bit (8 * (3 - e)) x) = m div 256 ^ (3 - e)"
      by (simp add: unat_drop_bit x power_mult)
    moreover have "m div 256 ^ (3 - e) < 256 ^ 4"
      using x(2) by (simp add: le_less_trans [OF div_le_dividend])
    ultimately show ?thesis using 2
      unfolding m_def [symmetric] e_def [symmetric]
      by (simp add: compact_to_target_def x_def [symmetric] e x0 be_nat_append be_nat_replicate_0
          be_nat_to_be Let_def)
  next
    case 3
    have "compact_to_target bits = Inr (replicate (32 - e) 0
        @ [ucast (and (drop_bit 16 x) 0xff), ucast (and (drop_bit 8 x) 0xff), ucast (and x 0xff)]
        @ replicate (e - 3) 0)"
      using 3 by (simp add: compact_to_target_def x_def [symmetric] e x0 Let_def)
    with 3 b3 show ?thesis
      unfolding m_def [symmetric] e_def [symmetric]
      by (simp only: be_nat_append be_nat_replicate_0 sum.case) simp
  next
    case 4
    then show ?thesis
      unfolding m_def [symmetric] e_def [symmetric]
      by (simp add: compact_to_target_def x_def [symmetric] e x0 Let_def)
  qed
qed

end
