(* ===== verification/Merkle.thy ===== *)
theory Merkle
  imports Crates
begin

text \<open>
  The merkle branch of the coinbase (\<open>src/bitcoin/template.rs\<close>): the branch sent to miners, the
  root recomputed from it on every share, and the proof that this root is the one of the whole
  transaction tree.
\<close>

section \<open>Definitions\<close>

definition double_sha256 :: "crates \<Rightarrow> bytes \<Rightarrow> bytes" where
  "double_sha256 cr data = sha256 cr (sha256 cr data)"

text \<open>
  One round of \<open>level.chunks(2)\<close>.  The level has been padded to an even length, so the short
  chunk, whose \<open>pair[1]\<close> would panic, does not occur.
\<close>

fun next_level :: "crates \<Rightarrow> bytes option list \<Rightarrow> bytes option list" where
  "next_level cr (a # b # rest) =
     (case (a, b) of
        (Some left, Some right) \<Rightarrow> Some (double_sha256 cr (left @ right))
      | _ \<Rightarrow> None) # next_level cr rest"
| "next_level cr _ = []"

lemma length_next_level [simp]: "length (next_level cr level) = length level div 2"
  by (induction cr level rule: next_level.induct) auto

definition pad_even :: "'a list \<Rightarrow> 'a list" where
  "pad_even level = (if length level mod 2 \<noteq> 0 then level @ [last level] else level)"

function merkle_loop :: "crates \<Rightarrow> bytes option list \<Rightarrow> nat \<Rightarrow> bytes list \<Rightarrow> bytes list" where
  "merkle_loop cr level path_index branch =
     (if 1 < length level then
        let level = pad_even level;
            sibling_index = (if path_index mod 2 = 0 then path_index + 1 else path_index - 1);
            branch = (case level ! sibling_index of Some sibling \<Rightarrow> branch @ [sibling] | None \<Rightarrow> branch)
        in merkle_loop cr (next_level cr level) (path_index div 2) branch
      else branch)"
  by pat_completeness auto
termination
  by (relation "measure (\<lambda>(cr, level, i, b). length level)") (auto simp: pad_even_def)

declare merkle_loop.simps [simp del]

definition compute_merkle_branch_raw :: "crates \<Rightarrow> bytes list \<Rightarrow> bytes list" where
  "compute_merkle_branch_raw cr txids =
     (if txids = [] then [] else merkle_loop cr (None # map Some txids) 0 [])"

definition merkle_root_of :: "crates \<Rightarrow> bytes list \<Rightarrow> bytes \<Rightarrow> bytes" where
  "merkle_root_of cr branch coinbase =
     foldl (\<lambda>hash b. double_sha256 cr (hash @ b)) (double_sha256 cr coinbase) branch"

section \<open>The transaction tree\<close>

text \<open>The consensus definition: hash the leaves in pairs, the last one with itself if it is alone.\<close>

fun merkle_pairs :: "crates \<Rightarrow> bytes list \<Rightarrow> bytes list" where
  "merkle_pairs cr (a # b # rest) = double_sha256 cr (a @ b) # merkle_pairs cr rest"
| "merkle_pairs cr [a] = [double_sha256 cr (a @ a)]"
| "merkle_pairs cr [] = []"

lemma length_merkle_pairs [simp]: "length (merkle_pairs cr xs) = (length xs + 1) div 2"
  by (induction cr xs rule: merkle_pairs.induct) auto

function tree_root :: "crates \<Rightarrow> bytes list \<Rightarrow> bytes" where
  "tree_root cr [] = replicate 32 0"
| "tree_root cr [x] = x"
| "tree_root cr (x # y # zs) = tree_root cr (merkle_pairs cr (x # y # zs))"
  by pat_completeness auto
termination
  by (relation "measure (\<lambda>(cr, xs). length xs)") auto

section \<open>The branch is the sibling path\<close>

lemma next_level_pad_even:
  "next_level cr (map Some (pad_even xs)) = map Some (merkle_pairs cr xs)"
proof (induction cr xs rule: merkle_pairs.induct)
  case (1 cr a b rest)
  have "pad_even (a # b # rest) = a # b # pad_even rest" if "rest \<noteq> []"
    using that by (auto simp: pad_even_def)
  moreover have "pad_even [a, b] = [a, b]" by (simp add: pad_even_def)
  ultimately show ?case using 1 by (cases "rest = []") (auto simp: pad_even_def)
next
  case (2 cr a)
  then show ?case by (simp add: pad_even_def)
next
  case (3 cr)
  then show ?case by (simp add: pad_even_def)
qed

lemma pad_even_hidden:
  "pad_even (None # Some t # map Some ts) = None # Some t # map Some (pad_even ts)" if "ts \<noteq> []"
  using that by (auto simp: pad_even_def last_map)

lemma merkle_loop_step:
  "merkle_loop cr (None # map Some (t # ts)) 0 br =
   merkle_loop cr (None # map Some (merkle_pairs cr ts)) 0 (br @ [t])"
proof -
  have "pad_even (None # Some t # map Some ts) = None # Some t # map Some (pad_even ts)"
    using pad_even_hidden [of ts t] by (cases "ts = []") (auto simp: pad_even_def)
  then show ?thesis
    by (subst merkle_loop.simps) (simp add: Let_def next_level_pad_even)
qed

lemma merkle_loop_done: "merkle_loop cr [None] 0 br = br"
  by (subst merkle_loop.simps) simp

lemma tree_root_step: "tree_root cr (h # t # ts) = tree_root cr (double_sha256 cr (h @ t) # merkle_pairs cr ts)"
  by simp

lemma merkle_loop_root:
  "foldl (\<lambda>hash b. double_sha256 cr (hash @ b)) h (merkle_loop cr (None # map Some ts) 0 br) =
   tree_root cr (foldl (\<lambda>hash b. double_sha256 cr (hash @ b)) h br # ts)"
proof (induction "length ts" arbitrary: ts br rule: less_induct)
  case less
  show ?case
  proof (cases ts)
    case Nil
    then show ?thesis by (simp add: merkle_loop_done)
  next
    case (Cons t us)
    have "length (merkle_pairs cr us) < length ts" using Cons by simp
    from less [OF this, of "br @ [t]"] show ?thesis
      unfolding Cons merkle_loop_step tree_root_step by simp
  qed
qed

lemma merkle_loop_length:
  "2 ^ length (merkle_loop cr (None # map Some ts) 0 br) \<le> 2 ^ length br * max 1 (2 * length ts)"
proof (induction "length ts" arbitrary: ts br rule: less_induct)
  case less
  show ?case
  proof (cases ts)
    case Nil
    then show ?thesis by (simp add: merkle_loop_done)
  next
    case (Cons t us)
    have lt: "length (merkle_pairs cr us) < length ts" using Cons by simp
    have "2 ^ length (merkle_loop cr (None # map Some ts) 0 br)
          \<le> 2 ^ length br * (2 * max 1 (2 * ((length us + 1) div 2)))"
      using less [OF lt, of "br @ [t]"] unfolding Cons merkle_loop_step by simp
    also have "\<dots> \<le> 2 ^ length br * max 1 (2 * length ts)"
      using Cons by (intro mult_left_mono) auto
    finally show ?thesis .
  qed
qed

text \<open>
  C6: The root a share is checked with, folded from the coinbase hash along the branch sent to the
  miner, is the root of the full transaction tree with the coinbase as its first leaf, whatever
  the number of transactions; and the branch is logarithmic in that number.
\<close>

theorem merkle_branch_root:
  "merkle_root_of cr (compute_merkle_branch_raw cr txids) coinbase =
     tree_root cr (double_sha256 cr coinbase # txids)
   \<and> 2 ^ length (compute_merkle_branch_raw cr txids) \<le> max 1 (2 * length txids)"
  using merkle_loop_root [of cr "double_sha256 cr coinbase" txids "[]"]
    merkle_loop_length [of cr txids "[]"]
  by (cases txids) (auto simp: merkle_root_of_def compute_merkle_branch_raw_def)

end
