(* ===== verification/Rpc.thy ===== *)
theory Rpc
  imports Crates F64
begin

text \<open>
  The node client (\<open>src/bitcoin/rpc.rs\<close>).  The HTTP client, the JSON values it returns and the
  node behind it are library code and environment: a record of functions, polymorphic in the
  client type \<open>'c\<close>, the JSON value type \<open>'v\<close> and the state \<open>'w\<close> of the outside world that each
  call may change.  The pool's own part, cookie rotation, template parsing and the
  classification of what the node answers, is defined over it.
\<close>

section \<open>Templates and outcomes\<close>

record gbt_transaction =
  gtx_data :: bytes
  gtx_txid :: string
  gtx_hash :: string
  gtx_fee :: u64
  gtx_weight :: u64

record gbt_result =
  g_version :: u32
  g_prev_hash :: string
  g_bits :: string
  g_cur_time :: u32
  g_height :: u64
  g_coinbase_value :: u64
  g_transactions :: "gbt_transaction list"
  g_longpoll_id :: "string option"
  g_default_witness_commitment :: "string option"
  g_rules :: "string list"
  g_vbrequired :: u32

datatype block_submit_outcome = Accepted | Duplicate | Inconclusive

fun outcome_label :: "block_submit_outcome \<Rightarrow> string" where
  "outcome_label Accepted = ''accepted''"
| "outcome_label Duplicate = ''duplicate''"
| "outcome_label Inconclusive = ''inconclusive''"

definition is_win :: "block_submit_outcome \<Rightarrow> bool" where
  "is_win o' = (case o' of Inconclusive \<Rightarrow> False | _ \<Rightarrow> True)"

datatype chain_position =
    OnChain u32 u64
  | SideBranch u64
  | UnknownBlock

section \<open>Node identity\<close>

text \<open>\<open>str::split\<close> at one character: always at least one piece.\<close>

fun split_at :: "char \<Rightarrow> string \<Rightarrow> string list" where
  "split_at c [] = [[]]"
| "split_at c (x # xs) =
     (if x = c then [] # split_at c xs
      else case split_at c xs of [] \<Rightarrow> [[x]] | p # ps \<Rightarrow> (x # p) # ps)"

definition segments :: "string \<Rightarrow> (string \<times> string) list" where
  "segments subversion =
     map (\<lambda>seg. case split_once (CHR '':'') seg of None \<Rightarrow> (seg, []) | Some nv \<Rightarrow> nv)
       (filter (\<lambda>s. s \<noteq> []) (split_at (CHR ''/'') subversion))"

definition satoshi_version :: "string \<Rightarrow> string option" where
  "satoshi_version subversion =
     map_option snd (find (\<lambda>nv. fst nv = ''Satoshi'') (segments subversion))"

definition implementation :: "string \<Rightarrow> string" where
  "implementation subversion =
     (let segs = segments subversion in
      if list_ex (\<lambda>nv. fst nv = ''Knots'') segs then ''Bitcoin Knots''
      else if segs = [] then []
      else if fst (last segs) = ''Satoshi'' then ''Bitcoin Core''
      else fst (last segs))"

definition display_version :: "string \<Rightarrow> string" where
  "display_version subversion =
     (let segs = segments subversion;
          ver = (case satoshi_version subversion of
                   Some v \<Rightarrow> v
                 | None \<Rightarrow> if segs = [] then [] else snd (last segs))
      in trim (hd (split_at (CHR ''('') ver)))"

section \<open>The client\<close>

text \<open>
  \<open>n_call\<close> is \<open>Client::call\<close>; the typed calls return what \<open>bitcoincore_rpc\<close> does (of a header
  only the confirmations or the time).  \<open>n_read_cookie\<close> reads the cookie file and
  \<open>n_build_client\<close> builds a client with those credentials.
\<close>

record ('c, 'v, 'w) node_api =
  n_call :: "'c \<Rightarrow> string \<Rightarrow> 'v list \<Rightarrow> 'w \<Rightarrow> (rpc_error + 'v) \<times> 'w"
  n_best_block_hash :: "'c \<Rightarrow> 'w \<Rightarrow> (rpc_error + string) \<times> 'w"
  n_header_confirmations :: "'c \<Rightarrow> bytes \<Rightarrow> 'w \<Rightarrow> (rpc_error + int) \<times> 'w"
  n_block_count :: "'c \<Rightarrow> 'w \<Rightarrow> (rpc_error + u64) \<times> 'w"
  n_block_hash :: "'c \<Rightarrow> u64 \<Rightarrow> 'w \<Rightarrow> (rpc_error + bytes) \<times> 'w"
  n_header_time :: "'c \<Rightarrow> bytes \<Rightarrow> 'w \<Rightarrow> (rpc_error + u32) \<times> 'w"
  n_parse_block_hash :: "string \<Rightarrow> bytes option"
  n_read_cookie :: "'w \<Rightarrow> (string \<times> string) option"
  n_build_client :: "string \<times> string \<Rightarrow> string + 'c"
  j_get :: "'v \<Rightarrow> string \<Rightarrow> 'v option"
  j_as_str :: "'v \<Rightarrow> string option"
  j_as_u64 :: "'v \<Rightarrow> u64 option"
  j_as_array :: "'v \<Rightarrow> 'v list option"
  j_is_null :: "'v \<Rightarrow> bool"
  j_string :: "string \<Rightarrow> 'v"
  j_gbt_request :: 'v

record 'c rpc_state =
  r_client :: 'c
  r_cookie :: "(string \<times> string) option"

text \<open>
  A call in the world: the result, the client state and the world after it.  \<open>lift_rpc\<close> is
  \<open>map_err(PoolError::Rpc)\<close>.
\<close>

definition lift_rpc :: "(rpc_error + 'a) \<times> 'w \<Rightarrow> 'a result \<times> 'w" where
  "lift_rpc r = (case fst r of Inl e \<Rightarrow> Inl (Rpc e) | Inr x \<Rightarrow> Inr x, snd r)"

definition call_with_refresh ::
  "('c, 'v, 'w) node_api \<Rightarrow> ('c \<Rightarrow> 'w \<Rightarrow> 'a result \<times> 'w) \<Rightarrow> 'c rpc_state \<Rightarrow> 'w \<Rightarrow>
   'a result \<times> 'c rpc_state \<times> 'w" where
  "call_with_refresh api f st w =
     (case f (r_client st) w of
        (Inr v, w1) \<Rightarrow> (Inr v, st, w1)
      | (Inl first_err, w1) \<Rightarrow>
          (case n_read_cookie api w1 of
             None \<Rightarrow> (Inl first_err, st, w1)
           | Some fresh_cookie \<Rightarrow>
               if r_cookie st = Some fresh_cookie then (Inl first_err, st, w1)
               else
                 (case n_build_client api fresh_cookie of
                    Inl e \<Rightarrow> (Inl (Other e), st, w1)
                  | Inr new_client \<Rightarrow>
                      let st' = \<lparr> r_client = new_client, r_cookie = Some fresh_cookie \<rparr>;
                          (r, w2) = f new_client w1
                      in (r, st', w2))))"

definition value_as_string :: "('c, 'v, 'w) node_api \<Rightarrow> 'v \<Rightarrow> string \<Rightarrow> string result" where
  "value_as_string api v key =
     ok_or (Other ''missing or invalid getblocktemplate field'') (Option.bind (j_get api v key) (j_as_str api))"

definition value_as_u64 :: "('c, 'v, 'w) node_api \<Rightarrow> 'v \<Rightarrow> string \<Rightarrow> u64 result" where
  "value_as_u64 api v key =
     ok_or (Other ''missing or invalid getblocktemplate field'') (Option.bind (j_get api v key) (j_as_u64 api))"

definition value_as_u32 :: "('c, 'v, 'w) node_api \<Rightarrow> 'v \<Rightarrow> string \<Rightarrow> u32 result" where
  "value_as_u32 api v key =
     bind_res (value_as_u64 api v key)
       (\<lambda>n. if unat n < 2 ^ 32 then Inr (ucast n)
            else Inl (Other ''getblocktemplate field out of range for u32''))"

definition parse_gbt_transaction ::
  "crates \<Rightarrow> ('c, 'v, 'w) node_api \<Rightarrow> 'v \<Rightarrow> gbt_transaction result" where
  "parse_gbt_transaction cr api tx =
     bind_res (ok_or (Other ''GBT transaction missing data field'')
                 (Option.bind (j_get api tx ''data'') (j_as_str api))) (\<lambda>data_hex.
     bind_res (ok_or (Other ''GBT transaction data hex decode'') (hex_decode cr data_hex)) (\<lambda>data.
     bind_res (value_as_string api tx ''txid'') (\<lambda>txid.
     bind_res (value_as_u64 api tx ''fee'') (\<lambda>fee.
     bind_res (value_as_u64 api tx ''weight'') (\<lambda>weight.
     Inr \<lparr> gtx_data = data, gtx_txid = txid,
           gtx_hash = (case Option.bind (j_get api tx ''hash'') (j_as_str api) of
                         Some h \<Rightarrow> h
                       | None \<Rightarrow> (case Option.bind (j_get api tx ''wtxid'') (j_as_str api) of
                                    Some h \<Rightarrow> h | None \<Rightarrow> [])),
           gtx_fee = fee, gtx_weight = weight \<rparr>)))))"

definition parse_gbt :: "crates \<Rightarrow> ('c, 'v, 'w) node_api \<Rightarrow> 'v \<Rightarrow> gbt_result result" where
  "parse_gbt cr api r =
     bind_res (case Option.bind (j_get api r ''transactions'') (j_as_array api) of
                 None \<Rightarrow> Inr []
               | Some txs \<Rightarrow> collect (parse_gbt_transaction cr api) txs) (\<lambda>transactions.
     bind_res (value_as_u32 api r ''version'') (\<lambda>version.
     bind_res (value_as_string api r ''previousblockhash'') (\<lambda>prev_hash.
     bind_res (value_as_string api r ''bits'') (\<lambda>bits.
     bind_res (value_as_u32 api r ''curtime'') (\<lambda>cur_time.
     bind_res (value_as_u64 api r ''height'') (\<lambda>height.
     bind_res (value_as_u64 api r ''coinbasevalue'') (\<lambda>coinbase_value.
     Inr \<lparr> g_version = version, g_prev_hash = prev_hash, g_bits = bits, g_cur_time = cur_time,
           g_height = height, g_coinbase_value = coinbase_value, g_transactions = transactions,
           g_longpoll_id = Option.bind (j_get api r ''longpollid'') (j_as_str api),
           g_default_witness_commitment =
             Option.bind (j_get api r ''default_witness_commitment'') (j_as_str api),
           g_rules = (case Option.bind (j_get api r ''rules'') (j_as_array api) of
                        None \<Rightarrow> [] | Some rules \<Rightarrow> List.map_filter (j_as_str api) rules),
           g_vbrequired = (case Option.bind (j_get api r ''vbrequired'') (j_as_u64 api) of
                             None \<Rightarrow> 0 | Some n \<Rightarrow> ucast n) \<rparr>)))))))"

definition get_block_template ::
  "crates \<Rightarrow> ('c, 'v, 'w) node_api \<Rightarrow> 'c rpc_state \<Rightarrow> 'w \<Rightarrow> gbt_result result \<times> 'c rpc_state \<times> 'w" where
  "get_block_template cr api st w =
     (let (r, st', w') = call_with_refresh api
            (\<lambda>c w. lift_rpc (n_call api c ''getblocktemplate'' [j_gbt_request api] w)) st w
      in (bind_res r (parse_gbt cr api), st', w'))"

definition chain_blocking ::
  "('c, 'v, 'w) node_api \<Rightarrow> 'c rpc_state \<Rightarrow> 'w \<Rightarrow> string result \<times> 'c rpc_state \<times> 'w" where
  "chain_blocking api st w =
     (let (r, st', w') = call_with_refresh api
            (\<lambda>c w. lift_rpc (n_call api c ''getblockchaininfo'' [] w)) st w
      in (bind_res r (\<lambda>info. ok_or (Other ''getblockchaininfo response missing chain'')
                (Option.bind (j_get api info ''chain'') (j_as_str api))), st', w'))"

definition network_info_blocking ::
  "('c, 'v, 'w) node_api \<Rightarrow> 'c rpc_state \<Rightarrow> 'w \<Rightarrow> string result \<times> 'c rpc_state \<times> 'w" where
  "network_info_blocking api st w =
     (let (r, st', w') = call_with_refresh api
            (\<lambda>c w. lift_rpc (n_call api c ''getnetworkinfo'' [] w)) st w
      in (bind_res r (\<lambda>info. ok_or (Other ''getnetworkinfo response missing subversion'')
                (Option.bind (j_get api info ''subversion'') (j_as_str api))), st', w'))"

definition classify_submit_response ::
  "('c, 'v, 'w) node_api \<Rightarrow> 'v \<Rightarrow> block_submit_outcome result" where
  "classify_submit_response api v =
     (if j_is_null api v then Inr Accepted
      else (case j_as_str api v of
              Some reason \<Rightarrow>
                if reason = ''duplicate'' then Inr Duplicate
                else if reason = ''inconclusive'' \<or> reason = ''duplicate-inconclusive'' then Inr Inconclusive
                else Inl (SubmitBlockRejected reason)
            | None \<Rightarrow> Inl (Other ''unexpected submitblock response'')))"

definition submit_block ::
  "('c, 'v, 'w) node_api \<Rightarrow> string \<Rightarrow> 'c rpc_state \<Rightarrow> 'w \<Rightarrow>
   block_submit_outcome result \<times> 'c rpc_state \<times> 'w" where
  "submit_block api block_hex st w =
     (let (r, st', w') = call_with_refresh api
            (\<lambda>c w. lift_rpc (n_call api c ''submitblock'' [j_string api block_hex] w)) st w
      in (bind_res r (classify_submit_response api), st', w'))"

definition best_block_hash ::
  "('c, 'v, 'w) node_api \<Rightarrow> 'c rpc_state \<Rightarrow> 'w \<Rightarrow> string result \<times> 'c rpc_state \<times> 'w" where
  "best_block_hash api st w =
     call_with_refresh api (\<lambda>c w. lift_rpc (n_best_block_hash api c w)) st w"

fun is_block_not_found :: "rpc_error \<Rightarrow> bool" where
  "is_block_not_found (JsonRpc code msg) = (code = - 5)"
| "is_block_not_found (RpcOther s) = False"

text \<open>The closure of \<open>block_chain_position_blocking\<close>; confirmations are an \<open>i32\<close>.\<close>

definition chain_position_call ::
  "('c, 'v, 'w) node_api \<Rightarrow> bytes \<Rightarrow> 'c \<Rightarrow> 'w \<Rightarrow> chain_position result \<times> 'w" where
  "chain_position_call api hash c w =
     (case n_header_confirmations api c hash w of
        (Inl e, w1) \<Rightarrow> (if is_block_not_found e then Inr UnknownBlock else Inl (Rpc e), w1)
      | (Inr confirmations, w1) \<Rightarrow>
          (case n_block_count api c w1 of
             (Inl e, w2) \<Rightarrow> (Inl (Rpc e), w2)
           | (Inr tip_height, w2) \<Rightarrow>
               (Inr (if confirmations < 0 then SideBranch tip_height
                     else OnChain (word_of_int confirmations) tip_height), w2)))"

definition block_chain_position ::
  "('c, 'v, 'w) node_api \<Rightarrow> string \<Rightarrow> 'c rpc_state \<Rightarrow> 'w \<Rightarrow>
   chain_position result \<times> 'c rpc_state \<times> 'w" where
  "block_chain_position api hash_hex st w =
     (case n_parse_block_hash api hash_hex of
        None \<Rightarrow> (Inl (Other ''not a block hash''), st, w)
      | Some hash \<Rightarrow> call_with_refresh api (chain_position_call api hash) st w)"

text \<open>The retarget estimate; the difference of two \<open>u32\<close> times cannot overflow an \<open>i64\<close>.\<close>

definition epoch_estimate :: "u64 \<Rightarrow> u32 \<Rightarrow> u32 \<Rightarrow> f64" where
  "epoch_estimate into_epoch tip_time start_time =
     (let elapsed = f64_of (of_int (int (unat tip_time) - int (unat start_time))) in
      if f_le elapsed (Fin 0) then NaN
      else
        let expected = f_mul (f64_of_word into_epoch) (Fin 600) in
        case f_clamp (f_mul (f_sub (f_div expected elapsed) (Fin 1)) (Fin 100)) (Fin (- 75)) (Fin 300) of
          Some x \<Rightarrow> x | None \<Rightarrow> NaN)"

definition estimate_difficulty_call ::
  "('c, 'v, 'w) node_api \<Rightarrow> 'c \<Rightarrow> 'w \<Rightarrow> f64 result \<times> 'w" where
  "estimate_difficulty_call api c w =
     (case n_block_count api c w of (Inl e, w) \<Rightarrow> (Inl (Rpc e), w) | (Inr height, w) \<Rightarrow>
      let into_epoch = height mod 2016 in
      if into_epoch = 0 then (Inr NaN, w)
      else
        case n_block_hash api c height w of (Inl e, w) \<Rightarrow> (Inl (Rpc e), w) | (Inr tip_hash, w) \<Rightarrow>
        case n_block_hash api c (height - into_epoch) w of (Inl e, w) \<Rightarrow> (Inl (Rpc e), w) | (Inr start_hash, w) \<Rightarrow>
        case n_header_time api c tip_hash w of (Inl e, w) \<Rightarrow> (Inl (Rpc e), w) | (Inr tip_time, w) \<Rightarrow>
        case n_header_time api c start_hash w of (Inl e, w) \<Rightarrow> (Inl (Rpc e), w) | (Inr start_time, w) \<Rightarrow>
        (Inr (epoch_estimate into_epoch tip_time start_time), w))"

definition estimate_difficulty_change_pct ::
  "('c, 'v, 'w) node_api \<Rightarrow> 'c rpc_state \<Rightarrow> 'w \<Rightarrow> f64 result \<times> 'c rpc_state \<times> 'w" where
  "estimate_difficulty_change_pct api st w = call_with_refresh api (estimate_difficulty_call api) st w"

section \<open>What the client guarantees\<close>

text \<open>
  The calls of one \<open>call_with_refresh\<close>: the first attempt, and the second one when the cookie on
  disk differs from the one the client was built with.
\<close>

lemma call_with_refresh_ok:
  "f (r_client st) w = (Inr v, w1) \<Longrightarrow> call_with_refresh api f st w = (Inr v, st, w1)"
  by (simp add: call_with_refresh_def)

lemma call_with_refresh_unchanged:
  assumes "f (r_client st) w = (Inl e, w1)"
    and "n_read_cookie api w1 = None \<or> n_read_cookie api w1 = r_cookie st"
  shows "call_with_refresh api f st w = (Inl e, st, w1)"
  using assms by (auto simp: call_with_refresh_def split: option.splits)

lemma call_with_refresh_rotated:
  assumes "f (r_client st) w = (Inl e, w1)" "n_read_cookie api w1 = Some ck" "r_cookie st \<noteq> Some ck"
    and "n_build_client api ck = Inr c'"
  shows "call_with_refresh api f st w =
         (fst (f c' w1), \<lparr> r_client = c', r_cookie = Some ck \<rparr>, snd (f c' w1))"
  using assms by (auto simp: call_with_refresh_def Let_def split: prod.splits)


lemma epoch_estimate_range:
  "epoch_estimate n t s = NaN \<or> f_le (Fin (- 75)) (epoch_estimate n t s) \<and> f_le (epoch_estimate n t s) (Fin 300)"
proof -
  define c where "c x = (case f_clamp x (Fin (- 75)) (Fin 300) of Some y \<Rightarrow> y | None \<Rightarrow> NaN)" for x
  have c: "c x = NaN \<or> f_le (Fin (- 75)) (c x) \<and> f_le (c x) (Fin 300)" for x
    using f_clamp_bounds [of x "Fin (- 75)" "Fin 300"]
    by (cases "f_clamp x (Fin (- 75)) (Fin 300)"; cases "x = NaN") (simp_all add: c_def f_clamp_def)
  show ?thesis
  proof (cases "f_le (f64_of (of_int (int (unat t) - int (unat s)))) (Fin 0)")
    case True
    then show ?thesis by (simp add: epoch_estimate_def Let_def)
  next
    case False
    then show ?thesis
      unfolding epoch_estimate_def Let_def c_def [symmetric] using c by simp
  qed
qed

end
