(* ===== verification/Template.thy ===== *)
theory Template
  imports Identity Targets Merkle Rpc
begin

text \<open>
  From a block template to a Stratum job (\<open>src/bitcoin/template.rs\<close>): job ids, the template rules
  and tripwires, the shared \<open>JobTemplate\<close>, the payout-specific \<open>StratumJob\<close>, and the splice of
  the extranonce into its coinbase.  Iterator sums of \<open>u64\<close> wrap, as they do in a release build.
\<close>

definition VERSION_ROLLING_MASK :: u32 where
  "VERSION_ROLLING_MASK = 0x1FFFE000"

section \<open>Job ids\<close>

definition job_epoch :: "u64 \<Rightarrow> u64" where
  "job_epoch millis = push_bit 32 (and millis 0xFFFFFFFF)"

text \<open>The counter is returned advanced; \<open>\{:016x\}\<close> prints 16 hexadecimal digits.\<close>

definition next_job_id :: "u64 \<Rightarrow> u64 \<Rightarrow> string \<times> u64" where
  "next_job_id epoch counter =
     (show_hex 16 (unat (or epoch (and counter 0xFFFFFFFF))), counter + 1)"

section \<open>Templates and jobs\<close>

record job_template =
  jt_prev_hash :: string
  jt_merkle_branch :: "string list"
  jt_merkle_branch_raw :: "bytes list"
  jt_version :: u32
  jt_bits :: string
  jt_cur_time :: u32
  jt_height :: u64
  jt_network_target :: bytes
  jt_transactions :: "bytes list"
  jt_coinbase_value :: u64
  jt_witness_commitment :: "bytes option"

record stratum_job =
  sj_job_id :: string
  sj_prev_hash :: string
  sj_coinbase1 :: bytes
  sj_coinbase2 :: bytes
  sj_merkle_branch :: "string list"
  sj_merkle_branch_raw :: "bytes list"
  sj_version :: u32
  sj_bits :: string
  sj_cur_time :: u32
  sj_height :: u64
  sj_network_target :: bytes
  sj_coinbase_template :: bytes
  sj_extranonce_offset :: nat
  sj_extranonce1_len :: nat
  sj_extranonce2_len :: nat
  sj_transactions :: "bytes list"
  sj_payout_address :: string
  sj_has_witness_commitment :: bool

text \<open>
  \<open>cb[a..b].copy_from_slice(src)\<close> with \<open>b - a\<close> the length of the source: \<open>None\<close> is the panic on
  a range past the end.
\<close>

definition copy_at :: "nat \<Rightarrow> bytes \<Rightarrow> bytes \<Rightarrow> bytes option" where
  "copy_at off src cb =
     (if off + length src \<le> length cb then Some (take off cb @ src @ drop (off + length src) cb) else None)"

definition assemble_coinbase_into :: "stratum_job \<Rightarrow> bytes \<Rightarrow> bytes \<Rightarrow> bytes option" where
  "assemble_coinbase_into job extranonce1 extranonce2 =
     (let cb = sj_coinbase_template job;
          off = sj_extranonce_offset job;
          total = sj_extranonce1_len job + sj_extranonce2_len job;
          p = length extranonce1; m = length extranonce2 in
      if p + m \<noteq> total then Some cb
      else Option.bind (copy_at off extranonce1 cb) (copy_at (off + p) extranonce2))"

definition job_merkle_root :: "crates \<Rightarrow> stratum_job \<Rightarrow> bytes \<Rightarrow> bytes" where
  "job_merkle_root cr job coinbase = merkle_root_of cr (sj_merkle_branch_raw job) coinbase"

section \<open>Rules and tripwires\<close>

definition SUPPORTED_GBT_RULES :: "string list" where
  "SUPPORTED_GBT_RULES = [''csv'', ''segwit'', ''taproot'']"

definition unsupported_gbt_rules :: "gbt_result \<Rightarrow> string list" where
  "unsupported_gbt_rules gbt =
     (let unsupported = filter (\<lambda>name. \<not> list_ex (\<lambda>known. eq_ignore_ascii_case known name) SUPPORTED_GBT_RULES)
            (List.map_filter (strip_prefix (CHR ''!'')) (g_rules gbt));
          rollable_required = and (g_vbrequired gbt) VERSION_ROLLING_MASK in
      if rollable_required \<noteq> 0
      then unsupported @ [''vbrequired:0x'' @ show_hex 8 (unat rollable_required)] else unsupported)"

definition announces_segwit :: "string list \<Rightarrow> bool" where
  "announces_segwit rules =
     list_ex (\<lambda>rule. eq_ignore_ascii_case
       (case strip_prefix (CHR ''!'') rule of Some r \<Rightarrow> r | None \<Rightarrow> rule) ''segwit'') rules"

definition MAX_BLOCK_WEIGHT :: u64 where
  "MAX_BLOCK_WEIGHT = 4000000"

definition block_subsidy :: "u64 \<Rightarrow> u64" where
  "block_subsidy height =
     (let halvings = height div 210000 in
      if halvings \<ge> 64 then 0 else drop_bit (unat halvings) (50 * 100000000))"

definition check_block_weight :: "gbt_result \<Rightarrow> unit result" where
  "check_block_weight gbt =
     (let tx_weight = sum_list (map gtx_weight (g_transactions gbt));
          total = (80 + 3) * 4 + tx_weight + word_of_nat COINBASE_WEIGHT_RESERVE in
      if total > MAX_BLOCK_WEIGHT then Inl (Other ''template transactions over the weight limit'') else Inr ())"

text \<open>The tripwire only reports: its value is whether the mismatch metric is bumped.\<close>

definition check_coinbase_value :: "gbt_result \<Rightarrow> bool" where
  "check_coinbase_value gbt =
     (let fees = sum_list (map gtx_fee (g_transactions gbt));
          expected = sat_add (block_subsidy (g_height gbt)) fees in
      expected \<noteq> g_coinbase_value gbt)"

section \<open>Building\<close>

definition stratum_prev_hash :: "crates \<Rightarrow> string \<Rightarrow> string result" where
  "stratum_prev_hash cr core_hex =
     bind_res (ok_or (Other ''Invalid prev_hash hex'') (hex_decode cr core_hex)) (\<lambda>bytes.
       if length bytes \<noteq> 32 then Inl (Other ''prev_hash must be 32 bytes'')
       else Inr (hex_encode cr (rev_words (rev bytes))))"

definition template_txid :: "crates \<Rightarrow> gbt_transaction \<Rightarrow> bytes result" where
  "template_txid cr tx =
     bind_res (ok_or (Other ''template txid'') (hex_decode_to_slice cr 32 (gtx_txid tx)))
       (\<lambda>txid. Inr (rev txid))"

definition witness_commitment_of :: "crates \<Rightarrow> gbt_result \<Rightarrow> bytes option result" where
  "witness_commitment_of cr gbt =
     (case g_default_witness_commitment gbt of
        None \<Rightarrow> Inr None
      | Some h \<Rightarrow> bind_res (ok_or (Other ''witness commitment hex'') (hex_decode cr h)) (\<lambda>b. Inr (Some b)))"

definition build_job_template :: "crates \<Rightarrow> gbt_result \<Rightarrow> job_template result" where
  "build_job_template cr gbt =
     bind_res (collect (template_txid cr) (g_transactions gbt)) (\<lambda>tx_txids.
     let merkle_branch_raw = compute_merkle_branch_raw cr tx_txids in
     bind_res (witness_commitment_of cr gbt) (\<lambda>witness_commitment.
     if announces_segwit (g_rules gbt) \<and> witness_commitment = None
     then Inl (Other ''template announces segwit but carries no commitment'')
     else
     bind_res (check_block_weight gbt) (\<lambda>_.
     bind_res (stratum_prev_hash cr (g_prev_hash gbt)) (\<lambda>prev_hash.
     bind_res (bits_to_target (g_bits gbt)) (\<lambda>network_target.
     Inr \<lparr> jt_prev_hash = prev_hash,
           jt_merkle_branch = map (hex_encode cr) merkle_branch_raw,
           jt_merkle_branch_raw = merkle_branch_raw,
           jt_version = g_version gbt, jt_bits = g_bits gbt, jt_cur_time = g_cur_time gbt,
           jt_height = g_height gbt, jt_network_target = network_target,
           jt_transactions = map gtx_data (g_transactions gbt),
           jt_coinbase_value = g_coinbase_value gbt,
           jt_witness_commitment = witness_commitment \<rparr>)))))"

definition build_job_for_payout ::
  "crates \<Rightarrow> u64 \<Rightarrow> u64 \<Rightarrow> job_template \<Rightarrow> payout_descriptor \<Rightarrow> string \<Rightarrow> nat \<Rightarrow> nat \<Rightarrow> stratum_job result \<times> u64" where
  "build_job_for_payout cr epoch counter template payout coinbase_tag extranonce1_len extranonce2_len =
     (let (job_id, counter') = next_job_id epoch counter in
      (bind_res (build_coinbase cr (jt_height template) (jt_coinbase_value template)
          (pd_script_pubkey payout) coinbase_tag extranonce1_len extranonce2_len
          (jt_witness_commitment template)) (\<lambda>(coinbase_bytes, extranonce_offset).
        Inr \<lparr> sj_job_id = job_id, sj_prev_hash = jt_prev_hash template,
              sj_coinbase1 = take extranonce_offset coinbase_bytes,
              sj_coinbase2 = drop (extranonce_offset + (extranonce1_len + extranonce2_len)) coinbase_bytes,
              sj_merkle_branch = jt_merkle_branch template,
              sj_merkle_branch_raw = jt_merkle_branch_raw template,
              sj_version = jt_version template, sj_bits = jt_bits template,
              sj_cur_time = jt_cur_time template, sj_height = jt_height template,
              sj_network_target = jt_network_target template,
              sj_coinbase_template = coinbase_bytes,
              sj_extranonce_offset = extranonce_offset,
              sj_extranonce1_len = extranonce1_len, sj_extranonce2_len = extranonce2_len,
              sj_transactions = jt_transactions template,
              sj_payout_address = pd_address payout,
              sj_has_witness_commitment = (jt_witness_commitment template \<noteq> None) \<rparr>), counter'))"

section \<open>Well-formed jobs\<close>

text \<open>
  What every built job satisfies: its two coinbase parts are the template around the reserved
  region, and the region is inside it.
\<close>

definition job_wf :: "stratum_job \<Rightarrow> bool" where
  "job_wf job \<longleftrightarrow>
     (let total = sj_extranonce1_len job + sj_extranonce2_len job in
      0 < total \<and> sj_coinbase_template job = sj_coinbase1 job @ replicate total 0 @ sj_coinbase2 job
      \<and> length (sj_coinbase1 job) = sj_extranonce_offset job)"

lemma build_job_wf:
  assumes "fst (build_job_for_payout cr ep ctr t pay tag e1 e2) = Inr job"
  shows "job_wf job" "sj_extranonce1_len job = e1" "sj_extranonce2_len job = e2"
    "length (sj_coinbase_template job) * 4 + 36 \<le> 4000"
proof -
  from assms obtain ser off where
    b: "build_coinbase cr (jt_height t) (jt_coinbase_value t) (pd_script_pubkey pay) tag e1 e2
          (jt_witness_commitment t) = Inr (ser, off)"
    and j: "sj_coinbase1 job = take off ser" "sj_coinbase2 job = drop (off + (e1 + e2)) ser"
      "sj_coinbase_template job = ser" "sj_extranonce_offset job = off"
      "sj_extranonce1_len job = e1" "sj_extranonce2_len job = e2"
    by (auto simp: build_job_for_payout_def bind_res_Inr Let_def split: prod.splits)
  from build_coinbase_Inr [OF b] obtain p q where
    "length p = 42" "0 < e1 + e2" "off = 42 + length (encode_bip34_height (jt_height t)) + length tag"
    "ser = p @ encode_bip34_height (jt_height t) @ as_bytes tag @ replicate (e1 + e2) 0 @ q"
    "length ser * 4 + 36 \<le> 4000" by blast
  then show "job_wf job" "sj_extranonce1_len job = e1" "sj_extranonce2_len job = e2"
    "length (sj_coinbase_template job) * 4 + 36 \<le> 4000"
    using j by (simp_all add: job_wf_def Let_def)
qed

lemma assemble_coinbase_wf:
  assumes "job_wf job" "length en1 + length en2 = sj_extranonce1_len job + sj_extranonce2_len job"
  shows "assemble_coinbase_into job en1 en2 = Some (sj_coinbase1 job @ en1 @ en2 @ sj_coinbase2 job)"
  using assms by (auto simp: assemble_coinbase_into_def job_wf_def copy_at_def Let_def)

lemma assemble_coinbase_mismatch:
  "length en1 + length en2 \<noteq> sj_extranonce1_len job + sj_extranonce2_len job \<Longrightarrow>
   assemble_coinbase_into job en1 en2 = Some (sj_coinbase_template job)"
  by (simp add: assemble_coinbase_into_def Let_def)

text \<open>
  C23: In a job built for a payout, splicing never panics: extranonces of the reserved total width,
  whatever the split, give exactly the coinbase the miner hashes, \<open>coinbase1 || en1 || en2 ||
  coinbase2\<close>; any other width leaves the template with its zeroed region.
\<close>

theorem coinbase_splice:
  assumes "fst (build_job_for_payout cr ep ctr t pay tag e1 e2) = Inr job"
  shows "assemble_coinbase_into job en1 en2 =
    Some (sj_coinbase1 job
      @ (if length en1 + length en2 = e1 + e2 then en1 @ en2 else replicate (e1 + e2) 0)
      @ sj_coinbase2 job)"
proof (cases "length en1 + length en2 = e1 + e2")
  case True
  with build_job_wf [OF assms] show ?thesis by (simp add: assemble_coinbase_wf)
next
  case False
  with build_job_wf [OF assms] show ?thesis
    by (simp add: assemble_coinbase_mismatch) (simp add: job_wf_def Let_def)
qed

definition sample_gbt :: gbt_result where
  "sample_gbt = \<lparr> g_version = 0x20000000, g_prev_hash = concat (replicate 32 ''0a''), g_bits = ''207fffff'',
     g_cur_time = 1700000000, g_height = 1, g_coinbase_value = 5000000000, g_transactions = [],
     g_longpoll_id = None, g_default_witness_commitment = None, g_rules = [''csv''], g_vbrequired = 0 \<rparr>"

definition sample_template :: job_template where
  "sample_template = \<lparr> jt_prev_hash = concat (replicate 32 ''00''), jt_merkle_branch = [], jt_merkle_branch_raw = [],
     jt_version = 0x20000000, jt_bits = ''207fffff'', jt_cur_time = 1700000000, jt_height = 1,
     jt_network_target = [0x7f, 0xff, 0xff] @ replicate 29 0, jt_transactions = [],
     jt_coinbase_value = 5000000000, jt_witness_commitment = None \<rparr>"

definition sample_payout :: payout_descriptor where
  "sample_payout = \<lparr> pd_address = ''bc1q'', pd_script_pubkey = [0x51] \<rparr>"

definition sample_job :: "stratum_job result" where
  "sample_job = fst (build_job_for_payout sample_crates 0 1 sample_template sample_payout ''/p/'' 4 4)"

lemma sample_coinbase:
  "build_coinbase sample_crates 1 5000000000 [0x51] ''/p/'' 4 4 None =
   Inr (coinbase_prefix 12 @ ([0x51, 47, 112, 47] @ replicate 8 0) @ replicate 4 0xff @
        [1] @ to_le 8 5000000000 @ [1, 0x51] @ replicate 4 0, 46)"
proof -
  let ?c = "[0x51, 47, 112, 47] @ replicate 8 0 :: bytes"
  let ?q = "replicate 4 0xff @ [1] @ to_le 8 5000000000 @ [1, 0x51] @ replicate 4 0 :: bytes"
  have h: "encode_bip34_height 1 = [0x51]" by (simp add: encode_bip34_height_def word_le_nat_alt)
  have tag: "as_bytes ''/p/'' = [47, 112, 47]" by (simp add: as_bytes_def)
  have c: "?c = encode_bip34_height 1 @ as_bytes ''/p/'' @ replicate (4 + 4) 0" by (simp add: h tag)
  have ser: "tx_serialize sample_crates (coinbase_tx ?c 5000000000 [0x51] None) = coinbase_prefix 12 @ ?c @ ?q"
    by (simp add: sample_crates_def sample_tx_serialize_def sample_tx_in_def sample_tx_out_def
        coinbase_tx_def coinbase_prefix_def to_le_numeral replicate_numeral)
  have f: "find_bytes (coinbase_prefix (length cc) @ cc @ qq) cc = Some 42"
    if "cc = encode_bip34_height 1 @ as_bytes ''/p/'' @ replicate (4 + 4) 0" for cc qq
    using find_bytes_skip_append [of "coinbase_prefix (length cc)" cc qq]
      content_not_in_prefix [OF _ _ _ that, of _ qq] that h by fastforce
  have "length ?c = 12" by simp
  with f [OF c, of ?q] have "find_bytes (coinbase_prefix 12 @ ?c @ ?q) ?c = Some 42" by (simp only:)
  moreover have "\<not> COINBASE_WEIGHT_RESERVE < length (coinbase_prefix 12 @ ?c @ ?q) * 4 + 36"
    by (simp add: COINBASE_WEIGHT_RESERVE_def)
  moreover have chk: "check_coinbase_script_sig_len 12 = Inr ()" by simp
  ultimately show ?thesis
    unfolding build_coinbase_def Let_def h tag
    using ser by (simp add: SCRIPT_SIG_OFFSET_def chk)
qed

lemma sample_job_Inr: "\<exists>job. sample_job = Inr job"
  using sample_coinbase
  by (simp add: sample_job_def build_job_for_payout_def sample_template_def sample_payout_def next_job_id_def Let_def)

theorem coinbase_splice_witness:
  "\<exists>job. sample_job = Inr job \<and>
     assemble_coinbase_into job [1, 2, 3, 4] [5, 6, 7, 8] =
       Some (sj_coinbase1 job @ [1, 2, 3, 4, 5, 6, 7, 8] @ sj_coinbase2 job)"
proof -
  obtain job where job: "sample_job = Inr job" using sample_job_Inr by blast
  from coinbase_splice [OF job [unfolded sample_job_def], of "[1, 2, 3, 4]" "[5, 6, 7, 8]"] job
  show ?thesis by (intro exI [of _ job]) simp
qed

section \<open>Ids, subsidy and rules\<close>

lemma unat_job_word:
  "unat (or (job_epoch ms) (and c 0xFFFFFFFF)) = unat ms mod 2 ^ 32 * 2 ^ 32 + unat c mod 2 ^ 32"
proof -
  define a b :: u64 where "a = and ms 0xFFFFFFFF" and "b = and c 0xFFFFFFFF"
  have ab: "unat a = unat ms mod 2 ^ 32" "unat b = unat c mod 2 ^ 32"
    using unat_and_mask [of ms 32] unat_and_mask [of c 32]
    by (simp_all add: a_def b_def mask_eq_exp_minus_1)
  then have lt: "unat a < 2 ^ 32" "unat b < 2 ^ 32" by simp_all
  have p: "unat (push_bit 32 a) = unat a * 2 ^ 32" using lt by (intro unat_push_bit_no_wrap) simp
  have "b = take_bit 32 c" by (simp add: b_def take_bit_eq_mask mask_eq_exp_minus_1)
  then have "and (push_bit 32 a) b = 0" by (intro bit_word_eqI) (auto simp: bit_simps)
  then have "or (push_bit 32 a) b = push_bit 32 a + b" by (simp add: disjunctive_add_eq_or)
  then have "unat (or (push_bit 32 a) b) = unat a * 2 ^ 32 + unat b"
    using lt p by (simp add: unat_add_no_wrap)
  then show ?thesis by (simp add: job_epoch_def a_def [symmetric] b_def [symmetric] ab)
qed

lemma show_hex_inj:
  assumes "m < 16 ^ k" "n < 16 ^ k" "show_hex k m = show_hex k n"
  shows "m = n"
proof -
  have *: "hex_digits (16 ^ k) 0 (show_hex k x) = Some x" if "x < 16 ^ k" for x
    using hex_digits_show_hex [of 0 k x "16 ^ k"] that by simp
  from * [OF assms(1)] * [OF assms(2)] show ?thesis unfolding assms(3) by simp
qed

text \<open>
  Two job ids are equal exactly when the processes started in the same millisecond modulo
  \<open>2^32\<close> and the sequence numbers agree modulo \<open>2^32\<close>: within one process ids do not repeat for
  four billion jobs, and a restart mints ids disjoint from its predecessor's.
\<close>

theorem job_ids_distinct:
  "fst (next_job_id (job_epoch ms1) c1) = fst (next_job_id (job_epoch ms2) c2) \<longleftrightarrow>
   unat ms1 mod 2 ^ 32 = unat ms2 mod 2 ^ 32 \<and> unat c1 mod 2 ^ 32 = unat c2 mod 2 ^ 32"
proof -
  define v where "v ms c = unat ms mod 2 ^ 32 * 2 ^ 32 + unat c mod 2 ^ 32" for ms c :: u64
  have v: "unat (or (job_epoch ms) (and c 0xFFFFFFFF)) = v ms c" for ms c
    unfolding v_def by (rule unat_job_word)
  have lt: "v ms c < 16 ^ 16" for ms c
    using unat_lt [of "or (job_epoch ms) (and c 0xFFFFFFFF)"] unfolding v by simp
  have "fst (next_job_id (job_epoch ms1) c1) = fst (next_job_id (job_epoch ms2) c2) \<longleftrightarrow> v ms1 c1 = v ms2 c2"
    using show_hex_inj [OF lt lt, of ms1 c1 ms2 c2] unfolding next_job_id_def fst_conv v by auto
  moreover have d: "v ms c div 2 ^ 32 = unat ms mod 2 ^ 32" "v ms c mod 2 ^ 32 = unat c mod 2 ^ 32" for ms c
    by (simp_all add: v_def)
  have "v ms1 c1 = v ms2 c2 \<longleftrightarrow> v ms1 c1 div 2 ^ 32 = v ms2 c2 div 2 ^ 32 \<and> v ms1 c1 mod 2 ^ 32 = v ms2 c2 mod 2 ^ 32"
    by (metis div_mult_mod_eq)
  ultimately show ?thesis unfolding d by blast
qed

lemma unat_block_subsidy: "unat (block_subsidy h) = 5000000000 div 2 ^ (unat h div 210000)"
proof (cases "h div 210000 \<ge> 64")
  case True
  then have "64 \<le> unat h div 210000" by (simp add: word_le_nat_alt unat_div_distrib)
  then have "(2 :: nat) ^ 64 \<le> 2 ^ (unat h div 210000)" by (intro power_increasing) auto
  then have "5000000000 div 2 ^ (unat h div 210000) = (0 :: nat)" by (intro div_less) simp
  with True show ?thesis by (simp add: block_subsidy_def)
next
  case False
  then show ?thesis by (simp add: block_subsidy_def Let_def unat_drop_bit unat_div_distrib)
qed

text \<open>
  Nothing is reported unsupported exactly when every rule the node marks as mandatory (with
  \<open>!\<close>) is one the pool builds for, in any letter case, and no version bit the node requires lies
  in the range miners may roll.
\<close>

theorem unsupported_rules_empty:
  "unsupported_gbt_rules gbt = [] \<longleftrightarrow>
     (\<forall>rule \<in> set (g_rules gbt). \<forall>name. rule = CHR ''!'' # name \<longrightarrow>
        map ascii_lower name \<in> {''csv'', ''segwit'', ''taproot''})
     \<and> and (g_vbrequired gbt) VERSION_ROLLING_MASK = 0"
proof -
  have low: "map ascii_lower ''csv'' = ''csv''" "map ascii_lower ''segwit'' = ''segwit''"
    "map ascii_lower ''taproot'' = ''taproot''" by code_simp+
  have known: "list_ex (\<lambda>known. eq_ignore_ascii_case known name) SUPPORTED_GBT_RULES \<longleftrightarrow>
      map ascii_lower name \<in> {''csv'', ''segwit'', ''taproot''}" for name
  proof -
    have "list_ex (\<lambda>known. map ascii_lower known = n) SUPPORTED_GBT_RULES \<longleftrightarrow>
        n \<in> {''csv'', ''segwit'', ''taproot''}" for n
      by (auto simp: SUPPORTED_GBT_RULES_def low simp del: list.map)
    then show ?thesis unfolding eq_ignore_ascii_case_def .
  qed
  have strip: "strip_prefix (CHR ''!'') rule = Some name \<longleftrightarrow> rule = CHR ''!'' # name" for rule name
    by (cases rule) (auto simp: strip_prefix_def)
  have "set (List.map_filter (strip_prefix (CHR ''!'')) (g_rules gbt)) =
      {name. CHR ''!'' # name \<in> set (g_rules gbt)}"
  proof (intro set_eqI iffI)
    fix x assume "x \<in> {name. CHR ''!'' # name \<in> set (g_rules gbt)}"
    moreover have "strip_prefix (CHR ''!'') (CHR ''!'' # x) = Some x" by (simp add: strip)
    ultimately show "x \<in> set (List.map_filter (strip_prefix (CHR ''!'')) (g_rules gbt))"
      by (auto simp: List.map_filter_def image_iff intro!: bexI [of _ "CHR ''!'' # x"])
  qed (auto simp: List.map_filter_def strip, simp add: strip_prefix_def)
  then show ?thesis
    unfolding unsupported_gbt_rules_def Let_def known by (auto simp: filter_empty_conv)
qed

theorem unsupported_rules_empty_witness:
  "unsupported_gbt_rules (sample_gbt\<lparr> g_rules := [''!segwit''] \<rparr>) = []"
proof -
  have low: "map ascii_lower ''segwit'' = ''segwit''" by code_simp
  have "\<forall>name. ''!segwit'' = CHR ''!'' # name \<longrightarrow> map ascii_lower name \<in> {''csv'', ''segwit'', ''taproot''}"
    using low by auto
  then show ?thesis
    using unsupported_rules_empty [of "sample_gbt\<lparr> g_rules := [''!segwit''] \<rparr>"]
    by (simp add: sample_gbt_def del: list.map)
qed

end
