(* ===== verification/Jobs.thy ===== *)
theory Jobs
  imports Template
begin

text \<open>
  The bounded history of the jobs issued to one session (\<open>src/mining/jobs.rs\<close>), as a deque of at
  most 16 entries, and its refinement of the unbounded history of everything issued.
\<close>

section \<open>Definitions\<close>

definition JOB_HISTORY_DEPTH :: nat where
  "JOB_HISTORY_DEPTH = 16"

record job_entry =
  je_job :: stratum_job
  je_created_at :: instant
  je_superseded_by_clean :: bool
  je_difficulty :: u64

record issued_jobs =
  ij_entries :: "job_entry list"

definition issued_new :: issued_jobs where
  "issued_new = \<lparr> ij_entries = [] \<rparr>"

definition issue :: "issued_jobs \<Rightarrow> stratum_job \<Rightarrow> bool \<Rightarrow> u64 \<Rightarrow> instant \<Rightarrow> issued_jobs" where
  "issue ij job clean difficulty now =
     (let entries = (if clean then map (\<lambda>e. e\<lparr> je_superseded_by_clean := True \<rparr>) (ij_entries ij)
                     else ij_entries ij);
          entries = (if length entries \<ge> JOB_HISTORY_DEPTH then tl entries else entries) in
      ij\<lparr> ij_entries := entries @
           [\<lparr> je_job = job, je_created_at = now, je_superseded_by_clean = False, je_difficulty = difficulty \<rparr>] \<rparr>)"

definition find_job :: "issued_jobs \<Rightarrow> string \<Rightarrow> job_entry option" where
  "find_job ij job_id = find (\<lambda>e. sj_job_id (je_job e) = job_id) (ij_entries ij)"

definition issued_clear :: "issued_jobs \<Rightarrow> issued_jobs" where
  "issued_clear ij = ij\<lparr> ij_entries := [] \<rparr>"

section \<open>The abstract history\<close>

text \<open>
  The specification keeps every issue; an entry is superseded when a clean job was issued after
  it.
\<close>

record issue_op =
  io_job :: stratum_job
  io_clean :: bool
  io_difficulty :: u64
  io_at :: instant

fun history :: "issue_op list \<Rightarrow> job_entry list" where
  "history [] = []"
| "history (x # xs) =
     \<lparr> je_job = io_job x, je_created_at = io_at x, je_superseded_by_clean = list_ex io_clean xs,
       je_difficulty = io_difficulty x \<rparr> # history xs"

definition issue_all :: "issued_jobs \<Rightarrow> issue_op list \<Rightarrow> issued_jobs" where
  "issue_all ij xs = foldl (\<lambda>ij x. issue ij (io_job x) (io_clean x) (io_difficulty x) (io_at x)) ij xs"

lemma length_history [simp]: "length (history xs) = length xs"
  by (induction xs) auto

lemma history_snoc:
  "history (xs @ [x]) =
     map (\<lambda>e. if io_clean x then e\<lparr> je_superseded_by_clean := True \<rparr> else e) (history xs) @
     [\<lparr> je_job = io_job x, je_created_at = io_at x, je_superseded_by_clean = False,
        je_difficulty = io_difficulty x \<rparr>]"
  by (induction xs) auto

lemma history_nth:
  "i < length xs \<Longrightarrow> history xs ! i =
     \<lparr> je_job = io_job (xs ! i), je_created_at = io_at (xs ! i),
       je_superseded_by_clean = list_ex io_clean (drop (Suc i) xs), je_difficulty = io_difficulty (xs ! i) \<rparr>"
  by (induction xs arbitrary: i) (auto simp: nth_Cons split: nat.split)

lemma issue_all_history:
  "ij_entries (issue_all issued_new xs) = drop (length xs - JOB_HISTORY_DEPTH) (history xs)"
proof (induction xs rule: rev_induct)
  case Nil
  then show ?case by (simp add: issue_all_def issued_new_def)
next
  case (snoc x xs)
  let ?f = "\<lambda>e. if io_clean x then e\<lparr> je_superseded_by_clean := True \<rparr> else e"
  let ?new = "\<lparr> je_job = io_job x, je_created_at = io_at x, je_superseded_by_clean = False,
        je_difficulty = io_difficulty x \<rparr>"
  let ?ij = "issue_all issued_new xs"
  have "ij_entries (issue_all issued_new (xs @ [x])) =
      (let es = map ?f (ij_entries ?ij) in (if length es \<ge> JOB_HISTORY_DEPTH then tl es else es) @ [?new])"
    by (simp add: issue_all_def issue_def Let_def map_tl)
  also have "\<dots> = drop (length (xs @ [x]) - JOB_HISTORY_DEPTH) (history (xs @ [x]))"
  proof (cases "JOB_HISTORY_DEPTH \<le> length xs")
    case True
    then have "length xs + 1 - JOB_HISTORY_DEPTH = Suc (length xs - JOB_HISTORY_DEPTH)" by simp
    with True show ?thesis
      by (simp add: snoc history_snoc Let_def drop_map tl_drop drop_Suc map_tl [symmetric] JOB_HISTORY_DEPTH_def)
  next
    case False
    then show ?thesis by (simp add: snoc history_snoc Let_def)
  qed
  finally show ?case .
qed

text \<open>
  C22: The job history refines the unbounded one: after any sequence of issues it holds exactly the
  last 16, each with the difficulty in force when it was sent, and marked stale exactly when a
  clean job was issued after it.
\<close>

theorem issued_jobs_refines:
  "ij_entries (issue_all issued_new xs) = drop (length xs - JOB_HISTORY_DEPTH) (history xs)
   \<and> length (ij_entries (issue_all issued_new xs)) \<le> JOB_HISTORY_DEPTH"
  using issue_all_history [of xs] by simp

section \<open>The interface to the sessions\<close>

text \<open>
  What a session relies on, while the ids it issues are fresh: a job just issued is found with
  its difficulty and is not stale, a clean issue makes every older find stale, and nothing is
  found after a clear.
\<close>

locale job_book =
  fixes put :: "'s \<Rightarrow> stratum_job \<Rightarrow> bool \<Rightarrow> u64 \<Rightarrow> instant \<Rightarrow> 's"
    and lookup :: "'s \<Rightarrow> string \<Rightarrow> job_entry option"
    and reset :: "'s \<Rightarrow> 's"
    and invar :: "'s \<Rightarrow> bool"
  assumes lookup_id: "lookup s i = Some e \<Longrightarrow> sj_job_id (je_job e) = i"
    and lookup_put_fresh: "lookup s (sj_job_id j) = None \<Longrightarrow>
      lookup (put s j clean d now) (sj_job_id j) =
        Some \<lparr> je_job = j, je_created_at = now, je_superseded_by_clean = False, je_difficulty = d \<rparr>"
    and lookup_put_old: "invar s \<Longrightarrow> i \<noteq> sj_job_id j \<Longrightarrow> lookup (put s j clean d now) i = Some e \<Longrightarrow>
      \<exists>e'. lookup s i = Some e' \<and> je_job e = je_job e' \<and> je_difficulty e = je_difficulty e'
         \<and> je_superseded_by_clean e = (clean \<or> je_superseded_by_clean e')"
    and lookup_reset: "lookup (reset s) i = None"
    and invar_put: "invar s \<Longrightarrow> lookup s (sj_job_id j) = None \<Longrightarrow> invar (put s j clean d now)"
    and invar_reset: "invar (reset s)"
begin

lemma clean_supersedes:
  "invar s \<Longrightarrow> i \<noteq> sj_job_id j \<Longrightarrow> lookup (put s j True d now) i = Some e \<Longrightarrow> je_superseded_by_clean e"
  using lookup_put_old by fastforce

lemma live_after_put:
  assumes "invar s" "lookup (put s j clean d now) i = Some e" "\<not> je_superseded_by_clean e" "i \<noteq> sj_job_id j"
  shows "\<not> clean \<and> (\<exists>e'. lookup s i = Some e' \<and> \<not> je_superseded_by_clean e' \<and> je_difficulty e' = je_difficulty e)"
  using lookup_put_old [OF assms(1,4,2)] assms(3) by auto

end

definition issued_inv :: "issued_jobs \<Rightarrow> bool" where
  "issued_inv ij \<longleftrightarrow> distinct (map (\<lambda>e. sj_job_id (je_job e)) (ij_entries ij))"

lemma find_tl_distinct:
  assumes "distinct (map g xs)" "find (\<lambda>x. g x = i) (tl xs) = Some e"
  shows "find (\<lambda>x. g x = i) xs = Some e"
proof (cases xs)
  case (Cons y ys)
  with assms(2) have "e \<in> set ys" "g e = i" by (auto simp: find_Some_iff)
  with Cons assms show ?thesis by auto
qed (use assms in simp)

lemma find_append: "find P (xs @ ys) = (case find P xs of Some x \<Rightarrow> Some x | None \<Rightarrow> find P ys)"
  by (induction xs) auto

lemma find_map_same: "(\<And>x. P (f x) = P x) \<Longrightarrow> find P (map f xs) = map_option f (find P xs)"
  by (induction xs) auto

lemma find_tl_None: "find P xs = None \<Longrightarrow> find P (tl xs) = None"
  by (cases xs) (auto split: if_splits)

lemma id_supersede [simp]:
  "sj_job_id (je_job (if clean then e\<lparr> je_superseded_by_clean := True \<rparr> else e)) = sj_job_id (je_job e)"
  by simp

abbreviation kept :: "issued_jobs \<Rightarrow> bool \<Rightarrow> job_entry list" where
  "kept ij clean \<equiv> (let es = map (\<lambda>e. if clean then e\<lparr> je_superseded_by_clean := True \<rparr> else e) (ij_entries ij) in
     if length es \<ge> JOB_HISTORY_DEPTH then tl es else es)"

lemma issue_entries:
  "ij_entries (issue ij j clean d now) = kept ij clean @
     [\<lparr> je_job = j, je_created_at = now, je_superseded_by_clean = False, je_difficulty = d \<rparr>]"
  by (simp add: issue_def Let_def map_tl)

lemma kept_find:
  assumes "issued_inv ij" "find (\<lambda>e. sj_job_id (je_job e) = i) (kept ij clean) = Some e"
  shows "\<exists>e'. find_job ij i = Some e' \<and> e = (if clean then e'\<lparr> je_superseded_by_clean := True \<rparr> else e')"
proof -
  let ?f = "\<lambda>e. if clean then e\<lparr> je_superseded_by_clean := True \<rparr> else e"
  let ?P = "\<lambda>e. sj_job_id (je_job e) = i"
  have "map (\<lambda>e. sj_job_id (je_job e)) (map ?f (ij_entries ij)) = map (\<lambda>e. sj_job_id (je_job e)) (ij_entries ij)"
    by simp
  then have "distinct (map (\<lambda>e. sj_job_id (je_job e)) (map ?f (ij_entries ij)))"
    using assms(1) by (simp only: issued_inv_def)
  then have "find ?P (map ?f (ij_entries ij)) = Some e"
    using assms(2) find_tl_distinct [of "\<lambda>e. sj_job_id (je_job e)" "map ?f (ij_entries ij)" i e]
    by (auto simp: Let_def split: if_splits)
  then show ?thesis using find_map_same [of ?P ?f "ij_entries ij"] by (auto simp: find_job_def)
qed

lemma kept_ids:
  "set (map (\<lambda>e. sj_job_id (je_job e)) (kept ij clean)) \<subseteq> set (map (\<lambda>e. sj_job_id (je_job e)) (ij_entries ij))"
  by (cases "ij_entries ij") (auto simp: Let_def)

lemma issued_inv_issue:
  assumes "issued_inv ij" "find_job ij (sj_job_id j) = None"
  shows "issued_inv (issue ij j clean d now)"
proof -
  have "sj_job_id j \<notin> set (map (\<lambda>e. sj_job_id (je_job e)) (ij_entries ij))"
    using assms(2) by (auto simp: find_job_def find_None_iff)
  moreover have "distinct (map (\<lambda>e. sj_job_id (je_job e)) (kept ij clean))"
    using assms(1) by (simp add: issued_inv_def Let_def map_tl distinct_tl comp_def)
  ultimately show ?thesis using kept_ids [where ij = ij and clean = clean] by (auto simp: issued_inv_def issue_entries)
qed

lemma find_kept_None: "find_job ij i = None \<Longrightarrow> find (\<lambda>e. sj_job_id (je_job e) = i) (kept ij clean) = None"
  using kept_ids [where ij = ij and clean = clean] by (force simp: find_job_def find_None_iff)

interpretation deque_book: job_book issue find_job issued_clear issued_inv
proof unfold_locales
  show "sj_job_id (je_job e) = i" if "find_job s i = Some e" for s i e
    using that by (auto simp: find_job_def find_Some_iff)
  show "find_job (issue s j clean d now) (sj_job_id j) =
      Some \<lparr> je_job = j, je_created_at = now, je_superseded_by_clean = False, je_difficulty = d \<rparr>"
    if "find_job s (sj_job_id j) = None" for s j clean d now
    using find_kept_None [OF that, of clean] by (simp add: find_job_def issue_entries find_append)
  show "\<exists>e'. find_job s i = Some e' \<and> je_job e = je_job e' \<and> je_difficulty e = je_difficulty e'
         \<and> je_superseded_by_clean e = (clean \<or> je_superseded_by_clean e')"
    if "issued_inv s" "i \<noteq> sj_job_id j" "find_job (issue s j clean d now) i = Some e" for s i j clean d now e
    using kept_find [OF that(1), of i clean e] that(2,3)
    by (auto simp: find_job_def [of "issue s j clean d now"] issue_entries find_append split: option.splits)
  show "find_job (issued_clear s) i = None" for s i by (simp add: find_job_def issued_clear_def)
  show "issued_inv (issue s j clean d now)" if "issued_inv s" "find_job s (sj_job_id j) = None" for s j clean d now
    using that by (rule issued_inv_issue)
  show "issued_inv (issued_clear s)" for s by (simp add: issued_inv_def issued_clear_def)
qed

end
