(* ===== verification/Validator.thy ===== *)
theory Validator
  imports Jobs
begin

text \<open>
  Share and block validation (\<open>src/mining/validator.rs\<close>): the duplicate tracker, the header and
  its hash, the share and network targets, and the assembled block.
\<close>

section \<open>Time bounds\<close>

definition MAX_NTIME_DRIFT_SECS :: u32 where
  "MAX_NTIME_DRIFT_SECS = 7200"

text \<open>The clock in whole seconds since the epoch, \<open>None\<close> when it predates it.\<close>

definition now_unix_secs :: "nat option \<Rightarrow> u32" where
  "now_unix_secs clock = (case clock of Some s \<Rightarrow> word_of_nat (min s (2 ^ 32 - 1)) | None \<Rightarrow> - 1)"

definition ntime_ceiling :: "u32 \<Rightarrow> u32 \<Rightarrow> u32" where
  "ntime_ceiling cur_time now = min (sat_add cur_time MAX_NTIME_DRIFT_SECS) (sat_add now MAX_NTIME_DRIFT_SECS)"

section \<open>Duplicate shares\<close>

record share_key =
  sk_job_id :: string
  sk_extranonce2 :: bytes
  sk_ntime :: u32
  sk_nonce :: u32
  sk_version_bits :: u32

record share_set =
  ss_seen :: "share_key set"
  ss_order :: "share_key list"
  ss_max_size :: nat

definition share_set_new :: share_set where
  "share_set_new = \<lparr> ss_seen = {}, ss_order = [], ss_max_size = 4096 \<rparr>"

definition share_contains :: "share_set \<Rightarrow> share_key \<Rightarrow> bool" where
  "share_contains s key \<longleftrightarrow> key \<in> ss_seen s"

definition share_insert :: "share_set \<Rightarrow> share_key \<Rightarrow> share_set" where
  "share_insert s key =
     (if key \<in> ss_seen s then s
      else
        let s = (if card (ss_seen s) \<ge> ss_max_size s
                 then (case ss_order s of
                         oldest # rest \<Rightarrow> s\<lparr> ss_order := rest, ss_seen := ss_seen s - {oldest} \<rparr>
                       | [] \<Rightarrow> s)
                 else s) in
        s\<lparr> ss_order := ss_order s @ [key], ss_seen := insert key (ss_seen s) \<rparr>)"

definition share_clear :: "share_set \<Rightarrow> share_set" where
  "share_clear s = s\<lparr> ss_seen := {}, ss_order := [] \<rparr>"

section \<open>Validation\<close>

record share_params =
  sp_job_id :: string
  sp_extranonce2 :: bytes
  sp_ntime :: u32
  sp_nonce :: u32
  sp_version_bits :: "u32 option"
  sp_version_rolling_mask :: "u32 option"

datatype share_result =
    Valid u64 u64 bytes  \<comment> \<open>assigned difficulty, hash difficulty, hash\<close>
  | Block u64 string bytes  \<comment> \<open>hash difficulty, block hex, hash\<close>

definition resolve_version :: "u32 \<Rightarrow> u32 option \<Rightarrow> u32 option \<Rightarrow> u32 result" where
  "resolve_version base_version rolling_bits negotiated_mask =
     (let mask = (case negotiated_mask of Some m \<Rightarrow> m | None \<Rightarrow> VERSION_ROLLING_MASK) in
      case rolling_bits of
        Some bits \<Rightarrow>
          if and bits (not mask) \<noteq> 0
          then Inl (InvalidParams ''mining.submit'' ''version bits outside negotiated mask'')
          else Inr (or (and base_version (not mask)) (and bits mask))
      | None \<Rightarrow> Inr base_version)"

definition build_header ::
  "crates \<Rightarrow> u32 \<Rightarrow> string \<Rightarrow> bytes \<Rightarrow> u32 \<Rightarrow> string \<Rightarrow> u32 \<Rightarrow> bytes result" where
  "build_header cr version prev_hash merkle_root ntime bits_hex nonce =
     bind_res (ok_or InvalidHeader (hex_decode_to_slice cr 32 prev_hash)) (\<lambda>prev.
     bind_res (ok_or InvalidHeader (u32_from_hex bits_hex)) (\<lambda>bits.
     Inr (to_le 4 (unat version) @ rev_words prev @ merkle_root @ to_le 4 (unat ntime)
          @ to_le 4 (unat bits) @ to_le 4 (unat nonce))))"

definition encode_varint :: "u64 \<Rightarrow> bytes" where
  "encode_varint n =
     (if n < 0xfd then [ucast n]
      else if n \<le> 0xffff then 0xfd # to_le 2 (unat n)
      else if n \<le> 0xffffffff then 0xfe # to_le 4 (unat n)
      else 0xff # to_le 8 (unat n))"

definition coinbase_with_witness_reserved_value :: "crates \<Rightarrow> bytes \<Rightarrow> bytes option" where
  "coinbase_with_witness_reserved_value cr coinbase =
     (case tx_deserialize cr coinbase of
        None \<Rightarrow> None
      | Some tx \<Rightarrow>
          (case tx_inputs tx of
             [] \<Rightarrow> None
           | i # rest \<Rightarrow> Some (tx_serialize cr
               (tx\<lparr> tx_inputs := i\<lparr> witness := [replicate 32 0] \<rparr> # rest \<rparr>))))"

definition assemble_block_hex :: "crates \<Rightarrow> bytes \<Rightarrow> bytes \<Rightarrow> bytes list \<Rightarrow> bool \<Rightarrow> string" where
  "assemble_block_hex cr header coinbase transactions has_witness_commitment =
     (let coinbase = (case (if has_witness_commitment
                            then coinbase_with_witness_reserved_value cr coinbase else None) of
                        Some bytes \<Rightarrow> bytes | None \<Rightarrow> coinbase) in
      hex_encode cr (header @ encode_varint (word_of_nat (1 + length transactions)) @ coinbase
                     @ concat transactions))"

definition meets_target :: "bytes \<Rightarrow> bytes \<Rightarrow> bool" where
  "meets_target hash target = bytes_le (rev hash) target"

definition block_hash_display :: "crates \<Rightarrow> bytes \<Rightarrow> string" where
  "block_hash_display cr hash = hex_encode cr (rev hash)"

text \<open>
  \<open>None\<close> is a panic of the coinbase splice.  The clock reading is the argument \<open>clock\<close>.
\<close>

definition validate_share_no_dedup ::
  "crates \<Rightarrow> nat option \<Rightarrow> share_params \<Rightarrow> stratum_job \<Rightarrow> job_entry \<Rightarrow> bytes \<Rightarrow> u64 \<Rightarrow> share_result result option" where
  "validate_share_no_dedup cr clock params job job_entry extranonce1 session_difficulty =
     (if je_superseded_by_clean job_entry then Some (Inl (StaleJob (sp_job_id params)))
      else
        let ceiling = ntime_ceiling (sj_cur_time job) (now_unix_secs clock) in
        if sp_ntime params < sj_cur_time job \<or> sp_ntime params > ceiling
        then Some (Inl (InvalidParams ''mining.submit'' ''ntime out of range''))
        else case assemble_coinbase_into job extranonce1 (sp_extranonce2 params) of
          None \<Rightarrow> None
        | Some coinbase \<Rightarrow> Some
            (let merkle_root = job_merkle_root cr job coinbase in
             bind_res (resolve_version (sj_version job) (sp_version_bits params)
                         (sp_version_rolling_mask params)) (\<lambda>version.
             bind_res (build_header cr version (sj_prev_hash job) merkle_root (sp_ntime params)
                         (sj_bits job) (sp_nonce params)) (\<lambda>header.
             let hash = double_sha256 cr header;
                 share_target = difficulty_to_target session_difficulty in
             if \<not> meets_target hash share_target then Inl LowDifficulty
             else
               let hash_difficulty = hash_to_difficulty hash in
               if meets_target hash (sj_network_target job)
               then Inr (Block hash_difficulty
                      (assemble_block_hex cr header coinbase (sj_transactions job)
                         (sj_has_witness_commitment job)) hash)
               else Inr (Valid session_difficulty hash_difficulty hash)))))"

section \<open>The duplicate tracker\<close>

text \<open>
  The contract of a duplicate filter, and what its clients get from it: a key recorded stays
  recorded while the filter has room, and nothing is reported that was not recorded since the
  last clear.
\<close>

locale dup_filter =
  fixes mem :: "'s \<Rightarrow> 'k \<Rightarrow> bool"
    and add :: "'s \<Rightarrow> 'k \<Rightarrow> 's"
    and wipe :: "'s \<Rightarrow> 's"
    and queue :: "'s \<Rightarrow> 'k list"
    and cap :: nat
    and invar :: "'s \<Rightarrow> bool"
  assumes cap_pos: "0 < cap"
    and mem_queue: "invar s \<Longrightarrow> mem s k \<longleftrightarrow> k \<in> set (queue s)"
    and add_old: "invar s \<Longrightarrow> mem s k \<Longrightarrow> add s k = s"
    and add_new: "invar s \<Longrightarrow> \<not> mem s k \<Longrightarrow>
      queue (add s k) = (if cap \<le> length (queue s) then tl (queue s) else queue s) @ [k]"
    and queue_bound: "invar s \<Longrightarrow> length (queue s) \<le> cap \<and> distinct (queue s)"
    and invar_add: "invar s \<Longrightarrow> invar (add s k)"
    and invar_wipe: "invar s \<Longrightarrow> invar (wipe s) \<and> queue (wipe s) = []"
begin

lemma mem_add: "invar s \<Longrightarrow> mem (add s k) k"
  using mem_queue [OF invar_add] by (cases "mem s k") (auto simp: add_old add_new)

lemma mem_add_only: "invar s \<Longrightarrow> mem (add s k) k' \<Longrightarrow> k' = k \<or> mem s k'"
proof (cases "mem s k")
  case False
  assume s: "invar s" "mem (add s k) k'"
  then have "k' \<in> set (queue (add s k))" using mem_queue [OF invar_add [OF s(1)]] by blast
  then have "k' = k \<or> k' \<in> set (queue s)"
    using add_new [OF s(1) False] by (cases "queue s") (auto split: if_splits)
  then show ?thesis using mem_queue [OF s(1)] by blast
qed (auto simp: add_old)

lemma add_all_invar: "invar s \<Longrightarrow> invar (foldl add s ks)"
  by (induction ks arbitrary: s) (auto simp: invar_add)

text \<open>As long as at most \<open>cap\<close> distinct keys went in, the filter is the set of them.\<close>

lemma queue_len_add:
  "invar s \<Longrightarrow> length (queue s) < cap \<Longrightarrow> set (queue (add s k)) = insert k (set (queue s))"
  by (cases "mem s k") (auto simp: add_old add_new mem_queue)

lemma add_all_set:
  assumes "invar s" "card (set (queue s) \<union> set ks) \<le> cap"
  shows "set (queue (foldl add s ks)) = set (queue s) \<union> set ks"
  using assms
proof (induction ks arbitrary: s)
  case (Cons k ks)
  have sub: "card (set (queue s)) \<le> card (set (queue s) \<union> set (k # ks))" by (intro card_mono) auto
  have "set (queue (add s k)) = insert k (set (queue s))"
  proof (cases "mem s k")
    case True
    with Cons.prems show ?thesis by (auto simp: add_old mem_queue)
  next
    case False
    then have "k \<notin> set (queue s)" using Cons.prems(1) by (simp add: mem_queue)
    then have "card (set (queue s)) < card (insert k (set (queue s)))" by simp
    also have "\<dots> \<le> card (set (queue s) \<union> set (k # ks))" by (intro card_mono) auto
    finally have "length (queue s) < cap"
      using Cons.prems queue_bound [OF Cons.prems(1)] by (simp add: distinct_card)
    then show ?thesis by (rule queue_len_add [OF Cons.prems(1)])
  qed
  then show ?case using Cons.IH [OF invar_add [OF Cons.prems(1)], of k] Cons.prems(2) by simp
qed simp

end

definition share_set_inv :: "share_set \<Rightarrow> bool" where
  "share_set_inv s \<longleftrightarrow> ss_max_size s = 4096 \<and> ss_seen s = set (ss_order s) \<and> distinct (ss_order s)
     \<and> length (ss_order s) \<le> 4096"

lemma share_insert_order:
  assumes "share_set_inv s" "key \<notin> ss_seen s"
  shows "ss_order (share_insert s key) = (if 4096 \<le> length (ss_order s) then tl (ss_order s) else ss_order s) @ [key]"
    "ss_seen (share_insert s key) = set (ss_order (share_insert s key))"
    "ss_max_size (share_insert s key) = 4096"
proof -
  let ?full = "4096 \<le> length (ss_order s)"
  have inv: "ss_max_size s = 4096" "ss_seen s = set (ss_order s)" "distinct (ss_order s)"
    using assms(1) by (simp_all add: share_set_inv_def)
  then have c: "card (ss_seen s) = length (ss_order s)" by (simp only: distinct_card)
  have "share_insert s key = s\<lparr> ss_order := (if ?full then tl (ss_order s) else ss_order s) @ [key],
      ss_seen := insert key (set (if ?full then tl (ss_order s) else ss_order s)) \<rparr>"
  proof (cases "ss_order s")
    case Nil
    then show ?thesis using assms(2) inv c by (simp add: share_insert_def Let_def)
  next
    case (Cons a l)
    then have "ss_seen s - {a} = set l" using inv(2,3) by auto
    then show ?thesis
      using assms(2) Cons inv unfolding share_insert_def Let_def c inv(1) by (cases ?full) simp_all
  qed
  then show "ss_order (share_insert s key) = (if ?full then tl (ss_order s) else ss_order s) @ [key]"
    "ss_seen (share_insert s key) = set (ss_order (share_insert s key))"
    "ss_max_size (share_insert s key) = 4096"
    using inv(1) by simp_all
qed

lemma share_set_inv_insert: "share_set_inv s \<Longrightarrow> share_set_inv (share_insert s key)"
proof (cases "key \<in> ss_seen s")
  case False
  assume s: "share_set_inv s"
  have "key \<notin> set (tl (ss_order s))" "key \<notin> set (ss_order s)"
    using False s by (cases "ss_order s"; auto simp: share_set_inv_def)+
  then show ?thesis
    using share_insert_order [OF s False] s by (auto simp: share_set_inv_def distinct_tl)
qed (simp add: share_insert_def)

interpretation fifo_filter: dup_filter share_contains share_insert share_clear ss_order 4096 share_set_inv
proof unfold_locales
  show "(0 :: nat) < 4096" by simp
  show "share_contains s k \<longleftrightarrow> k \<in> set (ss_order s)" if "share_set_inv s" for s k
    using that by (simp add: share_contains_def share_set_inv_def)
  show "share_insert s k = s" if "share_contains s k" for s k
    using that by (simp add: share_contains_def share_insert_def)
  show "ss_order (share_insert s k) = (if 4096 \<le> length (ss_order s) then tl (ss_order s) else ss_order s) @ [k]"
    if "share_set_inv s" "\<not> share_contains s k" for s k
    using share_insert_order(1) that by (simp add: share_contains_def)
  show "length (ss_order s) \<le> 4096 \<and> distinct (ss_order s)" if "share_set_inv s" for s
    using that by (simp add: share_set_inv_def)
  show "share_set_inv (share_insert s k)" if "share_set_inv s" for s k
    using that by (rule share_set_inv_insert)
  show "share_set_inv (share_clear s) \<and> ss_order (share_clear s) = []" if "share_set_inv s" for s
    using that by (simp add: share_set_inv_def share_clear_def)
qed



section \<open>Targets, versions and headers\<close>

lemma meets_target_iff:
  "length hash = length target \<Longrightarrow> meets_target hash target \<longleftrightarrow> le_nat hash \<le> be_nat target"
  by (simp add: meets_target_def bytes_le_iff_be_nat be_nat_rev)

lemma double_sha256_length [simp]: "sha_ok cr \<Longrightarrow> length (double_sha256 cr d) = 32"
  by (simp add: double_sha256_def)

text \<open>
  Version rolling changes only bits of the negotiated mask (the BIP320 range when none was
  negotiated): bits outside it are refused, and otherwise the header version has the miner's
  bits inside the mask and the template's bits everywhere else.
\<close>

theorem resolve_version_mask:
  "case resolve_version base rolling negotiated of
     Inl e \<Rightarrow> \<exists>bits. rolling = Some bits \<and>
       (\<exists>i. bit bits i \<and> \<not> bit (case negotiated of Some m \<Rightarrow> m | None \<Rightarrow> VERSION_ROLLING_MASK) i)
   | Inr v \<Rightarrow> (case rolling of
         None \<Rightarrow> v = base
       | Some bits \<Rightarrow> (\<forall>i. bit v i =
           (if bit (case negotiated of Some m \<Rightarrow> m | None \<Rightarrow> VERSION_ROLLING_MASK) i then bit bits i else bit base i)))"
proof -
  define m where "m = (case negotiated of Some m \<Rightarrow> m | None \<Rightarrow> VERSION_ROLLING_MASK)"
  have "\<exists>i. bit b i \<and> \<not> bit m i" if "and b (not m) \<noteq> 0" for b :: u32
    using that by (auto simp: bit_eq_iff bit_simps)
  moreover have "bit (or (and base (not m)) (and b m)) i = (if bit m i then bit b i else bit base i)" for b i
    by (auto simp: bit_simps dest: bit_imp_le_length)
  ultimately show ?thesis
    unfolding resolve_version_def Let_def m_def [symmetric] by (auto split: option.splits)
qed

lemma build_header_Inr:
  assumes "hex_ok cr" "build_header cr v ph mr nt bits nonce = Inr h" "length mr = 32"
  obtains prev b where "hex_decode_to_slice cr 32 ph = Some prev" "length prev = 32" "u32_from_hex bits = Some b"
    "h = to_le 4 (unat v) @ rev_words prev @ mr @ to_le 4 (unat nt) @ to_le 4 (unat b) @ to_le 4 (unat nonce)"
    "length h = 80"
  using assms hex_decode_to_slice_length [OF assms(1)]
  by (auto simp: build_header_def bind_res_Inr)

text \<open>
  The previous-block field survives the trip through Stratum: for the hash string the node
  reports, the header built from the job's reordered string carries at bytes 4 to 36 the
  node's hash in internal order, the full reversal of the displayed bytes, and is 80 bytes.
\<close>

theorem prev_hash_roundtrip:
  assumes "hex_ok cr" "hex_decode cr core_hex = Some core" "length core = 32"
    and "stratum_prev_hash cr core_hex = Inr sp" "length mr = 32"
    and "build_header cr v sp mr nt bits nonce = Inr h"
  shows "take 32 (drop 4 h) = rev core \<and> take 32 (drop 36 h) = mr \<and> length h = 80"
proof -
  have "sp = hex_encode cr (rev_words (rev core))"
    using assms by (simp add: stratum_prev_hash_def)
  then have "hex_decode_to_slice cr 32 sp = Some (rev_words (rev core))"
    using assms by (simp add: hex_decode_to_slice_encode)
  moreover obtain prev b where "hex_decode_to_slice cr 32 sp = Some prev" "length prev = 32"
      "u32_from_hex bits = Some b"
      "h = to_le 4 (unat v) @ rev_words prev @ mr @ to_le 4 (unat nt) @ to_le 4 (unat b) @ to_le 4 (unat nonce)"
      "length h = 80"
    by (rule build_header_Inr [OF assms(1,6,5)])
  ultimately show ?thesis using assms(3,5) by simp
qed

lemma sample_prev: "sample_hex_decode (concat (replicate 32 ''0a'')) = Some (replicate 32 10)"
  by (simp add: replicate_numeral hex_digit_def)

theorem prev_hash_roundtrip_witness:
  "\<exists>sp h. stratum_prev_hash sample_crates (concat (replicate 32 ''0a'')) = Inr sp
     \<and> build_header sample_crates 1 sp (replicate 32 7) 5 ''1d00ffff'' 9 = Inr h
     \<and> take 32 (drop 4 h) = replicate 32 10 \<and> take 32 (drop 36 h) = replicate 32 7"
proof -
  have d: "hex_decode sample_crates (concat (replicate 32 ''0a'')) = Some (replicate 32 10)"
    using sample_prev by (simp add: sample_crates_def)
  obtain sp where sp: "stratum_prev_hash sample_crates (concat (replicate 32 ''0a'')) = Inr sp"
    unfolding stratum_prev_hash_def d by simp
  then have "sp = hex_encode sample_crates (rev_words (rev (replicate 32 10)))"
    unfolding stratum_prev_hash_def d by simp
  then have "hex_decode_to_slice sample_crates 32 sp = Some (rev_words (rev (replicate 32 10)))"
    by (simp add: hex_decode_to_slice_encode sample_crates_ok)
  then obtain h where h: "build_header sample_crates 1 sp (replicate 32 7) 5 ''1d00ffff'' 9 = Inr h"
    by (simp add: build_header_def u32_from_hex_def hex_digit_def)
  show ?thesis
    using prev_hash_roundtrip [OF sample_crates_ok(1) d _ sp _ h] sp h by auto
qed

section \<open>Blocks\<close>

text \<open>The reader's side of a compact-size integer.\<close>

fun decode_varint :: "bytes \<Rightarrow> (nat \<times> bytes) option" where
  "decode_varint [] = None"
| "decode_varint (b # bs) =
     (if b < 0xfd then Some (unat b, bs)
      else let k = (if b = 0xfd then 2 else if b = 0xfe then 4 else 8) in
           if length bs < k then None else Some (le_nat (take k bs), drop k bs))"

lemma decode_encode_varint: "decode_varint (encode_varint n @ rest) = Some (unat n, rest)"
proof -
  consider "n < 0xfd" | "0xfd \<le> n" "n \<le> 0xffff" | "0xffff < n" "n \<le> 0xffffffff" | "0xffffffff < n"
    by (auto simp: word_less_nat_alt word_le_nat_alt) linarith
  then show ?thesis
  proof cases
    case 1
    then have "unat n < 253" by (simp add: word_less_nat_alt)
    then have "unat (ucast n :: u8) = unat n" "(ucast n :: u8) < 0xfd"
      by (simp_all add: unat_ucast_mod word_less_nat_alt)
    with 1 show ?thesis by (simp add: encode_varint_def)
  qed (auto simp: encode_varint_def word_less_nat_alt word_le_nat_alt le_nat_to_le unat_lt [of n, simplified])
qed

text \<open>
  C24: The hex submitted to the node decodes to the block: the 80-byte header, the transaction
  count as a compact-size integer that reads back as one more than the template's
  transactions, the coinbase, and the transactions in template order.
\<close>

theorem block_hex_roundtrip:
  assumes "hex_ok cr"
  shows "\<exists>body. hex_decode cr (assemble_block_hex cr header coinbase txs wit) = Some (header @ body)
    \<and> decode_varint body = Some ((1 + length txs) mod 2 ^ 64,
        (case (if wit then coinbase_with_witness_reserved_value cr coinbase else None) of
           Some cb \<Rightarrow> cb | None \<Rightarrow> coinbase) @ concat txs)"
proof -
  define cb where "cb = (case (if wit then coinbase_with_witness_reserved_value cr coinbase else None) of
      Some cb \<Rightarrow> cb | None \<Rightarrow> coinbase)"
  have "hex_decode cr (assemble_block_hex cr header coinbase txs wit) =
      Some (header @ encode_varint (word_of_nat (1 + length txs)) @ cb @ concat txs)"
    using assms by (simp add: assemble_block_hex_def Let_def cb_def hex_decode_encode)
  moreover have "decode_varint (encode_varint (word_of_nat (1 + length txs)) @ cb @ concat txs) =
      Some ((1 + length txs) mod 2 ^ 64, cb @ concat txs)"
    unfolding decode_encode_varint unat_of_nat by simp
  ultimately show ?thesis unfolding cb_def [symmetric] by blast
qed

theorem block_hex_roundtrip_witness:
  "\<exists>body. hex_decode sample_crates (assemble_block_hex sample_crates [1] [2] [[3]] False) = Some ([1] @ body)
    \<and> decode_varint body = Some (Suc (Suc 0), [2, 3])"
  using block_hex_roundtrip [OF sample_crates_ok(1), of "[1]" "[2]" "[[3]]" False] by simp

section \<open>What an accepted share is\<close>

lemma length_merkle_fold:
  "sha_ok cr \<Longrightarrow> length h = 32 \<Longrightarrow> length (foldl (\<lambda>hash b. double_sha256 cr (hash @ b)) h bs) = 32"
  by (induction bs arbitrary: h) simp_all

lemma length_merkle_root [simp]: "sha_ok cr \<Longrightarrow> length (job_merkle_root cr job cb) = 32"
  by (simp add: job_merkle_root_def merkle_root_of_def length_merkle_fold)

lemma ntime_window:
  assumes "\<not> (nt < cur \<or> nt > ntime_ceiling cur now)"
  shows "unat cur \<le> unat nt" "unat nt \<le> unat cur + 7200" "unat nt \<le> unat now + 7200"
proof -
  have "nt \<le> sat_add cur 7200" "nt \<le> sat_add now 7200"
    using assms by (auto simp: ntime_ceiling_def MAX_NTIME_DRIFT_SECS_def not_less)
  then show "unat cur \<le> unat nt" "unat nt \<le> unat cur + 7200" "unat nt \<le> unat now + 7200"
    using assms by (auto simp: word_le_nat_alt word_less_nat_alt unat_sat_add)
qed

text \<open>The cases of an accepting run, in the order of the source.\<close>

lemma validate_share_Inr:
  assumes "validate_share_no_dedup cr clock params job je en1 d = Some (Inr r)"
  obtains coinbase version header where
    "\<not> je_superseded_by_clean je"
    "\<not> (sp_ntime params < sj_cur_time job \<or> sp_ntime params > ntime_ceiling (sj_cur_time job) (now_unix_secs clock))"
    "assemble_coinbase_into job en1 (sp_extranonce2 params) = Some coinbase"
    "resolve_version (sj_version job) (sp_version_bits params) (sp_version_rolling_mask params) = Inr version"
    "build_header cr version (sj_prev_hash job) (job_merkle_root cr job coinbase) (sp_ntime params)
       (sj_bits job) (sp_nonce params) = Inr header"
    "meets_target (double_sha256 cr header) (difficulty_to_target d)"
    "r = (if meets_target (double_sha256 cr header) (sj_network_target job)
          then Block (hash_to_difficulty (double_sha256 cr header))
                 (assemble_block_hex cr header coinbase (sj_transactions job) (sj_has_witness_commitment job))
                 (double_sha256 cr header)
          else Valid d (hash_to_difficulty (double_sha256 cr header)) (double_sha256 cr header))"
  using assms that unfolding validate_share_no_dedup_def
  by (auto simp: Let_def bind_res_Inr split: if_splits option.splits)


definition sample_params :: share_params where
  "sample_params = \<lparr> sp_job_id = show_hex 16 1, sp_extranonce2 = [5, 6, 7, 8], sp_ntime = 1700000001,
     sp_nonce = 9, sp_version_bits = None, sp_version_rolling_mask = None \<rparr>"

definition sample_entry :: "stratum_job \<Rightarrow> job_entry" where
  "sample_entry job = \<lparr> je_job = job, je_created_at = 0, je_superseded_by_clean = False, je_difficulty = 1 \<rparr>"

lemma sample_job_fields:
  assumes "sample_job = Inr job"
  shows "sj_prev_hash job = concat (replicate 32 ''00'')" "sj_version job = 0x20000000"
    "sj_bits job = ''207fffff''" "sj_cur_time job = 1700000000" "sj_merkle_branch_raw job = []"
    "length (sj_network_target job) = 32" "job_wf job" "sj_extranonce1_len job = 4" "sj_extranonce2_len job = 4"
    "sj_job_id job = show_hex 16 1"
  using assms build_job_wf [OF assms [unfolded sample_job_def]] sample_coinbase
  by (auto simp: sample_job_def build_job_for_payout_def sample_template_def sample_payout_def
      next_job_id_def Let_def)

lemma sample_zero_prev: "hex_decode_to_slice sample_crates 32 (concat (replicate 32 ''00'')) = Some (replicate 32 0)"
  by (simp add: sample_crates_def replicate_numeral hex_digit_def)

lemma sample_share_accepted:
  assumes job: "sample_job = Inr job"
  shows "\<exists>r. validate_share_no_dedup sample_crates (Some 1700000000) sample_params job (sample_entry job) [1, 2, 3, 4] 1 = Some (Inr r)"
proof -
  note f = sample_job_fields [OF job]
  define cb where "cb = sj_coinbase1 job @ [1, 2, 3, 4, 5, 6, 7, 8] @ sj_coinbase2 job"
  have a: "assemble_coinbase_into job [1, 2, 3, 4] [5, 6, 7, 8] = Some cb"
    using assemble_coinbase_wf [OF f(7), of "[1, 2, 3, 4]" "[5, 6, 7, 8]"] f by (simp add: cb_def)
  define header where "header = to_le 4 0x20000000 @ replicate 32 0 @ job_merkle_root sample_crates job cb
      @ to_le 4 1700000001 @ to_le 4 0x207fffff @ to_le 4 9"
  have b: "build_header sample_crates 0x20000000 (sj_prev_hash job) (job_merkle_root sample_crates job cb)
      1700000001 ''207fffff'' 9 = Inr header"
    unfolding build_header_def f(1) sample_zero_prev
    by (simp add: u32_from_hex_def hex_digit_def header_def replicate_numeral)
  have "double_sha256 sample_crates header = to_le 4 0x20000000 @ replicate 28 0"
    by (simp add: double_sha256_def sample_crates_def header_def)
  then have m: "meets_target (double_sha256 sample_crates header) (difficulty_to_target 1)"
    using sample_crates_ok(2)
    by (simp add: meets_target_iff be_nat_difficulty_to_target DIFF1_def le_nat_append le_nat_to_le
        replicate_numeral)
  have c: "\<not> (1700000001 < (1700000000 :: u32) \<or> 1700000001 > ntime_ceiling 1700000000 (now_unix_secs (Some 1700000000)))"
    by (simp add: ntime_ceiling_def now_unix_secs_def MAX_NTIME_DRIFT_SECS_def sat_add_def word_less_nat_alt min_def)
  have p: "sp_ntime sample_params = 1700000001" "sp_extranonce2 sample_params = [5, 6, 7, 8]"
      "sp_nonce sample_params = 9" "sp_version_bits sample_params = None"
      "\<not> je_superseded_by_clean (sample_entry job)"
    by (simp_all add: sample_params_def sample_entry_def)
  have rv: "resolve_version v None mk = Inr v" for v mk by (simp add: resolve_version_def)
  show ?thesis
    unfolding validate_share_no_dedup_def Let_def p f(2,3,4) a rv
    using c p(5) b m by (auto simp: Let_def)
qed


lemma validate_share_total:
  assumes "fst (build_job_for_payout cr ep ctr t pay tag e1 e2) = Inr job"
  shows "\<exists>r. validate_share_no_dedup cr clock params job je en1 d = Some r"
proof -
  have "\<exists>cb. assemble_coinbase_into job en1 (sp_extranonce2 params) = Some cb"
    using build_job_wf(1) [OF assms] assemble_coinbase_wf [of job en1] assemble_coinbase_mismatch [of en1 _ job]
    by (metis)
  then show ?thesis
    unfolding validate_share_no_dedup_def by (auto simp: Let_def)
qed

text \<open>
  C20: Validation never panics on a job the pool built, whatever the miner submits, and stale work is
  refused before anything else is looked at.
\<close>

theorem validate_share_no_panic:
  assumes "fst (build_job_for_payout cr ep ctr t pay tag e1 e2) = Inr job"
  shows "\<exists>r. validate_share_no_dedup cr clock params job je en1 d = Some r
           \<and> (je_superseded_by_clean je \<longrightarrow> r = Inl (StaleJob (sp_job_id params)))"
  using validate_share_total [OF assms, of clock params je en1 d]
  by (auto simp: validate_share_no_dedup_def Let_def)

theorem validate_share_no_panic_witness:
  "\<exists>job r. sample_job = Inr job \<and>
     validate_share_no_dedup sample_crates None sample_params job
       (sample_entry job\<lparr> je_superseded_by_clean := True \<rparr>) [] 1 = Some (Inl (StaleJob (show_hex 16 1)))"
proof -
  obtain job where job: "sample_job = Inr job" using sample_job_Inr by blast
  from validate_share_no_panic [OF job [unfolded sample_job_def], of None sample_params
      "sample_entry job\<lparr> je_superseded_by_clean := True \<rparr>" "[]" 1] job
  show ?thesis by (auto simp: sample_params_def)
qed

end
