(* ===== verification/Repr.thy ===== *)
theory Repr
  imports F64
begin

text \<open>
  Values an \<open>f64\<close> can hold: rounding is idempotent, representable values are closed under scaling
  by powers of two, and the bounds of quotients and products that the decayed averages and the
  difficulty controller need.
\<close>

definition representable :: "rat \<Rightarrow> bool" where
  "representable x \<longleftrightarrow> rnd x = x"

lemma rnd_pos_form:
  assumes "0 < x"
  shows "\<exists>k e. rnd_pos x = of_int k * pow2 e \<and> 0 \<le> k \<and> k \<le> 2 ^ 53 \<and> - 1074 \<le> e"
proof -
  let ?u = "ulp_exp x"
  have "x \<le> pow2 (ilog2 x + 1)" using ilog2_bounds(2) [OF assms] by simp
  also have "\<dots> \<le> pow2 (?u + 53)" by (rule pow2_mono) (simp add: ulp_exp_def)
  finally have "x / pow2 ?u \<le> 2 ^ 53"
    using pow2_nat [of 53] by (simp add: pow2_add pos_divide_le_eq mult.commute)
  then have "round_even (x / pow2 ?u) \<le> round_even (of_int (2 ^ 53))" by (intro round_even_mono) simp
  moreover have "round_even (of_int 0) \<le> round_even (x / pow2 ?u)"
    using assms by (intro round_even_mono) (simp add: less_imp_le)
  moreover have "- 1074 \<le> ?u" by (simp add: ulp_exp_def)
  ultimately show ?thesis
    unfolding rnd_pos_def round_even_of_int by (intro exI conjI refl) auto
qed

lemma rnd_form: "\<exists>k e. rnd x = of_int k * pow2 e \<and> \<bar>k\<bar> \<le> 2 ^ 53 \<and> - 1074 \<le> e"
proof -
  consider "0 < x" | "x = 0" | "0 < - x" by linarith
  then show ?thesis
  proof cases
    case 1
    then show ?thesis using rnd_pos_form [of x] by (force simp: rnd_def)
  next
    case 2
    then show ?thesis by (intro exI [of _ 0]) simp
  next
    case 3
    then obtain k e where "rnd_pos (- x) = of_int k * pow2 e" "0 \<le> k" "k \<le> 2 ^ 53" "- 1074 \<le> e"
      using rnd_pos_form by blast
    with 3 show ?thesis by (intro exI [of _ "- k"] exI [of _ e]) (simp add: rnd_def)
  qed
qed

lemma representable_rnd [simp]: "representable (rnd x)"
  using rnd_form [of x] rnd_exact by (auto simp: representable_def)

lemma representable_form:
  "representable x \<longleftrightarrow> (\<exists>k e. x = of_int k * pow2 e \<and> \<bar>k\<bar> \<le> 2 ^ 53 \<and> - 1074 \<le> e)"
  unfolding representable_def by (metis rnd_form rnd_exact)

lemma representable_0 [simp]: "representable 0"
  by (simp add: representable_def)

lemma representable_1 [simp]: "representable 1"
  using rnd_int [of 1] by (simp add: representable_def)

lemma representable_nat: "n \<le> 2 ^ 53 \<Longrightarrow> representable (of_nat n)"
  by (simp add: representable_def rnd_nat)

lemma representable_scale: "representable x \<Longrightarrow> representable (x * 2 ^ n)"
proof -
  assume "representable x"
  then obtain k e where "x = of_int k * pow2 e" "\<bar>k\<bar> \<le> 2 ^ 53" "- 1074 \<le> e"
    by (auto simp: representable_form)
  then show ?thesis
    unfolding representable_form
    by (intro exI [of _ k] exI [of _ "e + int n"]) (simp add: pow2_add pow2_nat)
qed

lemma representable_dyadic: "\<bar>j\<bar> \<le> 2 ^ 53 \<Longrightarrow> k \<le> 1074 \<Longrightarrow> representable (of_int j / 2 ^ k)"
  using rnd_exact [of j "- int k"] unfolding pow2_minus pow2_nat representable_def by simp

lemma representable_near_1:
  assumes "k \<le> 50"
  shows "representable (1 / 2 ^ k)" "representable (1 - 1 / 2 ^ k)" "representable (1 + 1 / 2 ^ k)"
proof -
  have k: "(2 :: int) ^ k \<le> 2 ^ 50" using assms by (intro power_increasing) auto
  have 1: "(1 :: int) \<le> 2 ^ k" by (rule one_le_power) simp
  show "representable (1 / 2 ^ k)" using representable_dyadic [of 1 k] assms by simp
  have "(1 :: rat) - 1 / 2 ^ k = of_int (2 ^ k - 1) / 2 ^ k" "(1 :: rat) + 1 / 2 ^ k = of_int (2 ^ k + 1) / 2 ^ k"
    by (simp_all add: field_simps)
  moreover have "\<bar>2 ^ k - 1 :: int\<bar> \<le> 2 ^ 53" "\<bar>2 ^ k + 1 :: int\<bar> \<le> 2 ^ 53" using k 1 by auto
  ultimately show "representable (1 - 1 / 2 ^ k)" "representable (1 + 1 / 2 ^ k)"
    using representable_dyadic [of "2 ^ k - 1" k] representable_dyadic [of "2 ^ k + 1" k] assms by simp_all
qed

lemma f64_of_representable: "representable x \<Longrightarrow> \<bar>x\<bar> \<le> 2 ^ 1023 \<Longrightarrow> f64_of x = Fin x"
  by (simp add: f64_of_Fin representable_def)

lemma f64_of_Fin_iff: "f64_of x = Fin r \<Longrightarrow> r = rnd x"
  by (auto simp: f64_of_def Let_def split: if_splits)

lemma f64_of_Fin_representable: "f64_of x = Fin r \<Longrightarrow> representable r"
  by (auto dest: f64_of_Fin_iff)

lemma rnd_le_representable: "x \<le> y \<Longrightarrow> representable y \<Longrightarrow> rnd x \<le> y"
  using rnd_mono [of x y] by (simp add: representable_def)

lemma rnd_ge_representable: "y \<le> x \<Longrightarrow> representable y \<Longrightarrow> y \<le> rnd x"
  using rnd_mono [of y x] by (simp add: representable_def)

lemma f64_of_rnd_u64: "f64_of (rnd (of_nat (unat (w :: u64)))) = Fin (rnd (of_nat (unat w)))"
proof -
  have "unat w < 2 ^ 64" using unsigned_less [of w] by simp
  then have "(of_nat (unat w) :: rat) \<le> of_nat (2 ^ 64)" by (simp only: of_nat_le_iff less_imp_le)
  then have "rnd (of_nat (unat w)) \<le> 2 ^ 64"
    using representable_scale [OF representable_1, of 64] by (intro rnd_le_representable) simp_all
  moreover have "0 \<le> rnd (of_nat (unat w))" by (rule rnd_nonneg) (simp del: of_nat_unat)
  moreover have "(2 :: rat) ^ 64 \<le> 2 ^ 1023" by (rule power_increasing) simp_all
  ultimately show ?thesis by (intro f64_of_representable) simp_all
qed

lemma f64_of_range:
  assumes "0 \<le> rnd x" "rnd x < 2 ^ 1024"
  shows "f64_of x = Fin (rnd x)"
proof -
  have "- (2 ^ 1024) < rnd x" using assms(1) by (rule less_le_trans [rotated]) simp
  with assms(2) show ?thesis unfolding f64_of_def Let_def by (simp only: not_le [symmetric] if_False)
qed

text \<open>Dividing a non-negative value by something from 1 on does not increase it.\<close>

lemma f_div_le:
  assumes "0 \<le> r" "representable r" "r < 2 ^ 1024" "1 \<le> t"
  shows "\<exists>q. f_div (Fin r) (Fin t) = Fin q \<and> 0 \<le> q \<and> q \<le> r \<and> representable q"
proof -
  have le: "r / t \<le> r" using assms by (simp add: pos_divide_le_eq mult_le_cancel_left1)
  then have "rnd (r / t) \<le> r" "0 \<le> rnd (r / t)"
    using assms rnd_le_representable [OF le] rnd_nonneg [of "r / t"] by auto
  then have "f64_of (r / t) = Fin (rnd (r / t))"
    using assms(3) by (intro f64_of_range) (auto simp only: le_less_trans)
  with \<open>rnd (r / t) \<le> r\<close> \<open>0 \<le> rnd (r / t)\<close> assms show ?thesis by simp
qed

lemma f64_of_le_Fin:
  assumes "x \<le> y" "0 \<le> x" "representable y" "y < 2 ^ 1024"
  shows "f64_of x = Fin (rnd x)" "0 \<le> rnd x" "rnd x \<le> y"
proof -
  show le: "0 \<le> rnd x" "rnd x \<le> y"
    using assms rnd_le_representable [of x y] rnd_nonneg [of x] by auto
  then show "f64_of x = Fin (rnd x)"
    using assms(4) by (intro f64_of_range) (auto simp only: le_less_trans)
qed

end
