(* ===== verification/Credit.thy ===== *)
theory Credit
  imports Security Repr
begin

text \<open>
  What an accepted share is worth (\<open>src/mining/credit.rs\<close>): the session's verdict on whether the
  miner honours \<open>set_difficulty\<close>, and the credit that follows from it.
\<close>

declare of_nat_unat [simp del]

section \<open>Definitions\<close>

definition EVIDENCE_SHARES :: u32 where
  "EVIDENCE_SHARES = 3"

definition REDEEM_SHARES :: u32 where
  "REDEEM_SHARES = 20"

definition RETARGET_GRACE :: duration where
  "RETARGET_GRACE = secs 30"

definition BELOW_TOLERANCE :: f64 where
  "BELOW_TOLERANCE = f64_of (99 / 100)"

record share_credit =
  cr_floor :: u64
  cr_assigned :: u64
  cr_assigned_at :: instant
  cr_below_assigned :: u32
  cr_redeeming :: u32
  cr_honors_assigned :: bool

definition share_credit_new :: "u64 \<Rightarrow> instant \<Rightarrow> share_credit" where
  "share_credit_new floor_diff now =
     \<lparr> cr_floor = max floor_diff 1, cr_assigned = 0, cr_assigned_at = now, cr_below_assigned = 0,
       cr_redeeming = 0, cr_honors_assigned = True \<rparr>"

text \<open>The first block of \<open>credit\<close>: a changed assignment restarts the grace period.\<close>

definition note_assigned :: "share_credit \<Rightarrow> u64 \<Rightarrow> instant \<Rightarrow> share_credit" where
  "note_assigned s assigned now =
     (if assigned \<noteq> cr_assigned s
      then s\<lparr>cr_assigned := assigned, cr_assigned_at := now, cr_below_assigned := 0\<rparr>
      else s)"

definition effective_difficulty :: "share_credit \<Rightarrow> u64 \<Rightarrow> u64" where
  "effective_difficulty s job_difficulty = max (min (cr_assigned s) job_difficulty) (cr_floor s)"

definition meets_effective :: "u64 \<Rightarrow> u64 \<Rightarrow> bool" where
  "meets_effective hash_difficulty effective \<longleftrightarrow>
     f_le (f_mul (f64_of_word effective) BELOW_TOLERANCE) (f64_of_word hash_difficulty)"

text \<open>The verdict; \<open>saturating_duration_since\<close> is truncated subtraction.\<close>

definition judge :: "share_credit \<Rightarrow> bool \<Rightarrow> instant \<Rightarrow> share_credit" where
  "judge s meets now =
     (if cr_honors_assigned s then
        (if \<not> meets \<and> now - cr_assigned_at s > RETARGET_GRACE then
           let s = s\<lparr>cr_below_assigned := cr_below_assigned s + 1\<rparr> in
           if cr_below_assigned s \<ge> EVIDENCE_SHARES
           then s\<lparr>cr_honors_assigned := False, cr_redeeming := 0\<rparr> else s
         else s)
      else if meets then
        let s = s\<lparr>cr_redeeming := cr_redeeming s + 1\<rparr> in
        if cr_redeeming s \<ge> REDEEM_SHARES
        then s\<lparr>cr_honors_assigned := True, cr_below_assigned := 0, cr_assigned_at := now\<rparr> else s
      else s\<lparr>cr_redeeming := 0\<rparr>)"

definition credit :: "share_credit \<Rightarrow> u64 \<Rightarrow> u64 \<Rightarrow> u64 \<Rightarrow> instant \<Rightarrow> u64 \<times> share_credit" where
  "credit s assigned job_difficulty hash_difficulty now =
     (let s = note_assigned s assigned now;
          effective = effective_difficulty s job_difficulty;
          s = judge s (meets_effective hash_difficulty effective) now
      in (if cr_honors_assigned s then effective else cr_floor s, s))"

section \<open>Runs of shares\<close>

record credit_event =
  ce_assigned :: u64
  ce_job :: u64
  ce_hash :: u64
  ce_now :: instant

definition credit_event_step :: "share_credit \<Rightarrow> credit_event \<Rightarrow> u64 \<times> share_credit" where
  "credit_event_step s e = credit s (ce_assigned e) (ce_job e) (ce_hash e) (ce_now e)"

fun credits :: "share_credit \<Rightarrow> credit_event list \<Rightarrow> u64 list" where
  "credits s [] = []"
| "credits s (e # es) = (case credit_event_step s e of (c, s') \<Rightarrow> c # credits s' es)"

fun credit_run :: "share_credit \<Rightarrow> credit_event list \<Rightarrow> share_credit" where
  "credit_run s [] = s"
| "credit_run s (e # es) = credit_run (snd (credit_event_step s e)) es"

definition credit_inv :: "share_credit \<Rightarrow> bool" where
  "credit_inv s \<longleftrightarrow> 1 \<le> cr_floor s \<and> cr_below_assigned s \<le> EVIDENCE_SHARES \<and> cr_redeeming s \<le> REDEEM_SHARES
     \<and> (if cr_honors_assigned s then cr_below_assigned s < EVIDENCE_SHARES else cr_redeeming s < REDEEM_SHARES)"

lemma credit_inv_new: "credit_inv (share_credit_new fl now)"
  by (simp add: credit_inv_def share_credit_new_def EVIDENCE_SHARES_def REDEEM_SHARES_def)

lemma judge_floor [simp]: "cr_floor (judge s m now) = cr_floor s"
  by (simp add: judge_def Let_def)

lemma judge_assigned [simp]: "cr_assigned (judge s m now) = cr_assigned s"
  by (simp add: judge_def Let_def)

lemma note_assigned_simps [simp]:
  "cr_floor (note_assigned s a now) = cr_floor s"
  "cr_assigned (note_assigned s a now) = a"
  "cr_honors_assigned (note_assigned s a now) = cr_honors_assigned s"
  by (simp_all add: note_assigned_def)

lemma word_inc_le: "(x :: u32) < n \<Longrightarrow> x + 1 \<le> n"
  by (simp add: inc_le)

lemma judge_inv:
  assumes "credit_inv s"
  shows "credit_inv (judge s m now)"
  using assms word_inc_le [of "cr_below_assigned s" EVIDENCE_SHARES]
    word_inc_le [of "cr_redeeming s" REDEEM_SHARES]
  by (auto simp: credit_inv_def judge_def Let_def EVIDENCE_SHARES_def REDEEM_SHARES_def not_le)

lemma note_assigned_inv: "credit_inv s \<Longrightarrow> credit_inv (note_assigned s a now)"
  by (auto simp: credit_inv_def note_assigned_def EVIDENCE_SHARES_def)

lemma credit_step_inv: "credit_inv s \<Longrightarrow> credit_inv (snd (credit_event_step s e))"
  by (simp add: credit_event_step_def credit_def Let_def judge_inv note_assigned_inv)

lemma credit_run_inv: "credit_inv s \<Longrightarrow> credit_inv (credit_run s es)"
  by (induction es arbitrary: s) (auto simp: credit_step_inv)

lemma credit_run_floor [simp]: "cr_floor (credit_run s es) = cr_floor s"
  by (induction es arbitrary: s) (auto simp: credit_event_step_def credit_def Let_def)

lemma BELOW_TOLERANCE_Fin: "\<exists>t. BELOW_TOLERANCE = Fin t \<and> 0 \<le> t \<and> t \<le> 1"
proof -
  have "f64_of (99 / 100) = Fin (rnd (99 / 100))" by (rule f64_of_Fin) simp
  moreover have "0 \<le> rnd (99 / 100)" "rnd (99 / 100) \<le> 1"
    using rnd_mono [of 0 "99 / 100"] rnd_mono [of "99 / 100" 1] rnd_int [of 1] by auto
  ultimately show ?thesis by (simp add: BELOW_TOLERANCE_def)
qed

lemma word_f64_mono: "(a :: u64) \<le> b \<Longrightarrow> f_le (f64_of_word a) (f64_of_word b)"
  by (simp add: f64_of_word_def f64_of_nat_mono word_le_nat_alt)

lemma meets_effective_ge: "eff \<le> h \<Longrightarrow> meets_effective h eff"
proof -
  assume le: "eff \<le> h"
  obtain t where t: "BELOW_TOLERANCE = Fin t" "0 \<le> t" "t \<le> 1" using BELOW_TOLERANCE_Fin by blast
  define r where "r = rnd (of_nat (unat eff))"
  have r: "f64_of_word eff = Fin r" "0 \<le> r" "f64_of r = Fin r"
    using f64_of_u64_Fin [of eff] by (auto simp: r_def rnd_nonneg f64_of_rnd_u64)
  have "f_le (f64_of (r * t)) (f64_of r)"
    using r(2) t by (intro f64_of_mono) (simp add: mult_left_le)
  then have "f_le (f_mul (f64_of_word eff) BELOW_TOLERANCE) (f64_of_word eff)"
    using r unfolding t(1) by simp
  then show ?thesis
    unfolding meets_effective_def using word_f64_mono [OF le] by (rule f_le_trans)
qed

definition ce_effective :: "u64 \<Rightarrow> credit_event \<Rightarrow> u64" where
  "ce_effective fl e = max (min (ce_assigned e) (ce_job e)) fl"

lemma credit_step_honest:
  assumes "cr_honors_assigned s" "ce_effective (cr_floor s) e \<le> ce_hash e"
  shows "fst (credit_event_step s e) = ce_effective (cr_floor s) e"
    "cr_honors_assigned (snd (credit_event_step s e))"
    "cr_floor (snd (credit_event_step s e)) = cr_floor s"
  using assms meets_effective_ge [of "ce_effective (cr_floor s) e" "ce_hash e"]
  by (auto simp: credit_event_step_def credit_def Let_def judge_def ce_effective_def effective_difficulty_def)

lemma credits_honest:
  assumes "cr_honors_assigned s" "\<forall>e \<in> set es. ce_effective (cr_floor s) e \<le> ce_hash e"
  shows "credits s es = map (ce_effective (cr_floor s)) es \<and> cr_honors_assigned (credit_run s es)"
  using assms
proof (induction es arbitrary: s)
  case (Cons e es)
  then show ?case
    using credit_step_honest [of s e] Cons.IH [of "snd (credit_event_step s e)"]
    by (simp add: case_prod_unfold)
qed simp

text \<open>
  A run of low shares under one assignment, past its grace period: the session is flagged once
  the evidence is complete, and stays flagged.
\<close>

definition ignores :: "share_credit \<Rightarrow> credit_event \<Rightarrow> bool" where
  "ignores s e \<longleftrightarrow> ce_assigned e = cr_assigned s \<and> cr_assigned_at s + RETARGET_GRACE < ce_now e
     \<and> \<not> meets_effective (ce_hash e) (ce_effective (cr_floor s) e)"

lemma credit_step_ignores:
  assumes "ignores s e"
  defines "s' \<equiv> snd (credit_event_step s e)"
  shows "cr_assigned s' = cr_assigned s" "cr_floor s' = cr_floor s"
    "cr_assigned_at s' = cr_assigned_at s"
    "cr_honors_assigned s' \<longleftrightarrow> cr_honors_assigned s \<and> cr_below_assigned s + 1 < EVIDENCE_SHARES"
    "cr_honors_assigned s \<Longrightarrow> cr_below_assigned s' = cr_below_assigned s + 1"
    "fst (credit_event_step s e) = (if cr_honors_assigned s' then ce_effective (cr_floor s) e else cr_floor s)"
  using assms(1) unfolding s'_def
  by (auto simp: ignores_def credit_event_step_def credit_def Let_def note_assigned_def judge_def
      effective_difficulty_def ce_effective_def not_le)

lemma credits_flagged:
  assumes "\<not> cr_honors_assigned s" "\<forall>e \<in> set es. ignores s e"
  shows "credits s es = replicate (length es) (cr_floor s)"
  using assms
proof (induction es arbitrary: s)
  case (Cons e es)
  then have "ignores s e" by simp
  note st = credit_step_ignores [OF this]
  have "\<forall>x \<in> set es. ignores (snd (credit_event_step s e)) x"
    using Cons.prems(2) st(1-3) by (auto simp: ignores_def)
  with Cons.IH [of "snd (credit_event_step s e)"] Cons.prems(1) st(1-4,6) show ?case
    by (simp add: case_prod_unfold)
qed simp

lemma credits_ignoring:
  assumes "cr_honors_assigned s" "\<forall>e \<in> set es. ignores s e" "unat (cr_below_assigned s) + k = 2"
  shows "credits s es = map (ce_effective (cr_floor s)) (take k es) @ replicate (length es - k) (cr_floor s)"
  using assms
proof (induction es arbitrary: s k)
  case (Cons e es)
  then have "ignores s e" by simp
  note st = credit_step_ignores [OF this]
  let ?s = "snd (credit_event_step s e)"
  have rest: "\<forall>x \<in> set es. ignores ?s x" using Cons.prems(2) st(1-3) by (auto simp: ignores_def)
  have un: "unat (cr_below_assigned s + 1) = unat (cr_below_assigned s) + 1"
    using Cons.prems(3) by (simp add: unat_add_no_wrap)
  have hon: "cr_honors_assigned ?s \<longleftrightarrow> 0 < k"
    using st(4) Cons.prems(1,3) un by (auto simp: word_less_nat_alt EVIDENCE_SHARES_def)
  show ?case
  proof (cases k)
    case 0
    then show ?thesis using hon credits_flagged [of ?s es] rest st(1-3,6) by (simp add: case_prod_unfold)
  next
    case (Suc j)
    then show ?thesis
      using hon Cons.IH [of ?s j] rest st(1-3,5,6) Cons.prems un by (simp add: case_prod_unfold)
  qed
qed simp

lemma credit_step_redeems:
  assumes "\<not> cr_honors_assigned s" "meets_effective (ce_hash e) (ce_effective (cr_floor s) e)"
  defines "s' \<equiv> snd (credit_event_step s e)"
  shows "cr_floor s' = cr_floor s"
    "cr_honors_assigned s' \<longleftrightarrow> REDEEM_SHARES \<le> cr_redeeming s + 1"
    "cr_redeeming s' = cr_redeeming s + 1"
    "fst (credit_event_step s e) = (if cr_honors_assigned s' then ce_effective (cr_floor s) e else cr_floor s)"
  using assms(1,2) unfolding s'_def
  by (auto simp: credit_event_step_def credit_def Let_def note_assigned_def judge_def
      effective_difficulty_def ce_effective_def not_le)

lemma credit_step_meets:
  assumes "cr_honors_assigned s" "meets_effective (ce_hash e) (ce_effective (cr_floor s) e)"
  shows "fst (credit_event_step s e) = ce_effective (cr_floor s) e"
    "cr_honors_assigned (snd (credit_event_step s e))"
    "cr_floor (snd (credit_event_step s e)) = cr_floor s"
  using assms
  by (auto simp: credit_event_step_def credit_def Let_def judge_def ce_effective_def effective_difficulty_def)

lemma credits_meeting:
  assumes "cr_honors_assigned s" "\<forall>e \<in> set es. meets_effective (ce_hash e) (ce_effective (cr_floor s) e)"
  shows "credits s es = map (ce_effective (cr_floor s)) es"
  using assms
proof (induction es arbitrary: s)
  case (Cons e es)
  then show ?case
    using credit_step_meets [of s e] Cons.IH [of "snd (credit_event_step s e)"]
    by (simp add: case_prod_unfold)
qed simp

lemma credits_redeeming:
  assumes "\<not> cr_honors_assigned s" "unat (cr_redeeming s) + k = 19"
    and "\<forall>e \<in> set es. meets_effective (ce_hash e) (ce_effective (cr_floor s) e)"
  shows "credits s es = replicate (min k (length es)) (cr_floor s) @ map (ce_effective (cr_floor s)) (drop k es)"
  using assms
proof (induction es arbitrary: s k)
  case (Cons e es)
  let ?s = "snd (credit_event_step s e)"
  have "meets_effective (ce_hash e) (ce_effective (cr_floor s) e)" using Cons.prems by simp
  note st = credit_step_redeems [OF Cons.prems(1) this]
  have un: "unat (cr_redeeming s + 1) = unat (cr_redeeming s) + 1"
    using Cons.prems(2) by (simp add: unat_add_no_wrap)
  have hon: "cr_honors_assigned ?s \<longleftrightarrow> k = 0"
    using st(2) Cons.prems(2) un by (auto simp: word_le_nat_alt REDEEM_SHARES_def)
  show ?case
  proof (cases k)
    case 0
    then show ?thesis
      using hon credits_meeting [of ?s es] Cons.prems st(1,4) by (simp add: case_prod_unfold)
  next
    case (Suc j)
    then show ?thesis
      using hon Cons.IH [of ?s j] st(1,3,4) Cons.prems un by (simp add: case_prod_unfold)
  qed
qed simp

text \<open>
  C30: A miner whose every share reaches the difficulty it was asked for (the smaller of the
  current assignment and the job's, and at least the floor) is never flagged, whatever the
  order of assignments and the timing, and is credited that difficulty for each share.
\<close>

theorem honest_miner_full_credit:
  assumes "\<forall>e \<in> set es. ce_effective (max fl 1) e \<le> ce_hash e"
  shows "credits (share_credit_new fl t0) es = map (ce_effective (max fl 1)) es
       \<and> cr_honors_assigned (credit_run (share_credit_new fl t0) es)"
  using credits_honest [of "share_credit_new fl t0" es] assms by (simp add: share_credit_new_def)

definition sample_events :: "credit_event list" where
  "sample_events =
     [\<lparr>ce_assigned = 4096, ce_job = 1024, ce_hash = 1024, ce_now = secs 5\<rparr>,
      \<lparr>ce_assigned = 512, ce_job = 4096, ce_hash = 600, ce_now = secs 90\<rparr>]"

theorem honest_miner_full_credit_witness:
  "credits (share_credit_new 256 0) sample_events = [1024, 512]"
  using honest_miner_full_credit [of sample_events 256 0]
  by (simp add: sample_events_def ce_effective_def)

text \<open>
  The verdict of any reachable session is bounded evidence both ways.  A miner that keeps
  submitting below an assignment that is past its grace period is credited above the floor for
  at most two more shares and the floor from then on; a flagged session whose shares reach
  their difficulty is credited the floor for at most nineteen more and in full from then on.
\<close>

theorem credit_verdict:
  fixes fl t0 es0
  defines "s \<equiv> credit_run (share_credit_new fl t0) es0"
  shows "(cr_honors_assigned s \<and> (\<forall>e \<in> set es. ignores s e) \<longrightarrow>
      (\<exists>k \<le> 2. credits s es =
         map (ce_effective (max fl 1)) (take k es) @ replicate (length es - k) (max fl 1)))
   \<and> (\<not> cr_honors_assigned s
      \<and> (\<forall>e \<in> set es. meets_effective (ce_hash e) (ce_effective (max fl 1) e)) \<longrightarrow>
      (\<exists>k \<le> 19. credits s es =
         replicate (min k (length es)) (max fl 1) @ map (ce_effective (max fl 1)) (drop k es)))"
proof -
  have inv: "credit_inv s" unfolding s_def by (rule credit_run_inv [OF credit_inv_new])
  have fl: "cr_floor s = max fl 1" unfolding s_def by (simp add: share_credit_new_def)
  have 1: "unat (cr_below_assigned s) \<le> 2" if "cr_honors_assigned s"
    using inv that by (simp add: credit_inv_def EVIDENCE_SHARES_def word_less_nat_alt)
  have 2: "unat (cr_redeeming s) \<le> 19" if "\<not> cr_honors_assigned s"
    using inv that by (simp add: credit_inv_def REDEEM_SHARES_def word_less_nat_alt)
  show ?thesis
    using credits_ignoring [of s es "2 - unat (cr_below_assigned s)"]
      credits_redeeming [of s "19 - unat (cr_redeeming s)" es] 1 2 fl
    by (metis (no_types, lifting) diff_le_self le_add_diff_inverse)
qed

definition low_event :: "nat \<Rightarrow> credit_event" where
  "low_event t = \<lparr>ce_assigned = 4096, ce_job = 4096, ce_hash = 300, ce_now = secs t\<rparr>"

lemma low_event_ignored:
  assumes "cr_assigned s = 4096" "cr_assigned_at s = 0" "cr_floor s = 256" "30 < t"
  shows "ignores s (low_event t)"
proof -
  have "\<not> meets_effective 300 4096"
  proof -
    obtain x where x: "BELOW_TOLERANCE = Fin x" "1 / 2 \<le> x"
      using rnd_ge_representable [of "1 / 2" "99 / 100"] rnd_pow2 [of "- 1"]
      by (auto simp: BELOW_TOLERANCE_def f64_of_Fin representable_def pow2_def)
    have "f_le (f64_of (4096 * (1 / 2))) (f64_of (4096 * x))" using x by (intro f64_of_mono) simp
    moreover have "f64_of (4096 * (1 / 2)) = Fin 2048" using f64_of_int_exact [of 2048] by simp
    ultimately have "f_le (Fin 2048) (f64_of (4096 * x))" by simp
    moreover have "f64_of_word (4096 :: u64) = Fin 4096" "f64_of_word (300 :: u64) = Fin 300"
      using f64_of_u64_exact [of 4096] f64_of_u64_exact [of 300] by simp_all
    ultimately show ?thesis unfolding meets_effective_def x(1)
      by (auto dest: f_le_trans)
  qed
  then show ?thesis
    using assms by (simp add: ignores_def low_event_def ce_effective_def RETARGET_GRACE_def secs_def)
qed

theorem credit_verdict_witness:
  "let s = credit_run (share_credit_new 256 0) [low_event 0] in
   \<exists>k \<le> 2. credits s (map low_event [31, 32, 33, 34]) =
     map (ce_effective 256) (take k (map low_event [31, 32, 33, 34])) @ replicate (length [31 :: nat, 32, 33, 34] - k) 256"
proof -
  define s where "s = credit_run (share_credit_new 256 0) [low_event 0]"
  have "cr_honors_assigned s" "cr_assigned s = 4096" "cr_assigned_at s = 0" "cr_floor s = 256"
    by (simp_all add: s_def credit_event_step_def credit_def Let_def judge_def note_assigned_def
        share_credit_new_def low_event_def secs_def)
  then show ?thesis
    using credit_verdict [of 256 0 "[low_event 0]" "map low_event [31, 32, 33, 34]"]
      low_event_ignored [of s] unfolding s_def [symmetric] by (simp del: credits.simps)
qed

end
