(* ===== verification/Hashrate.thy ===== *)
theory Hashrate
  imports Repr
begin

text \<open>
  Exponentially decaying averages (\<open>src/mining/hashrate.rs\<close>).  \<open>f64::exp\<close> and \<open>f64::powf\<close>, whose
  precision the standard library leaves open, are the parameters \<open>ex\<close> and \<open>pw\<close>.
\<close>

declare of_nat_unat [simp del]

section \<open>Definitions\<close>

definition NONCES :: f64 where
  "NONCES = Fin 4294967296"

definition SECS_PER_MINUTE :: f64 where
  "SECS_PER_MINUTE = Fin 60"

definition WINDOW_COUNT :: nat where
  "WINDOW_COUNT = 7"

definition WINDOW_SECS :: "f64 list" where
  "WINDOW_SECS = map Fin [60, 300, 600, 3600, 10800, 21600, 86400]"

definition TICK_SECS :: nat where
  "TICK_SECS = 2"

text \<open>The literal \<open>2e-16\<close> below which an average is flushed to zero.\<close>

definition flush_below :: f64 where
  "flush_below = f64_of (2 / 10 ^ 16)"

definition decay_time :: "(f64 \<Rightarrow> f64) \<Rightarrow> f64 \<Rightarrow> f64 \<Rightarrow> f64 \<Rightarrow> f64 \<Rightarrow> f64" where
  "decay_time ex f fadd fsecs interval =
     (if f_le fsecs (Fin 0) then f
      else
        let dexp = f_min (f_div fsecs interval) (Fin 36);
            fprop = f_sub (Fin 1) (f_div (Fin 1) (ex dexp));
            ftotal = f_add (Fin 1) fprop;
            f = f_add f (f_mul (f_div fadd fsecs) fprop);
            f = f_div f ftotal
        in if f_lt f flush_below then Fin 0 else f)"

definition sane_tdiff :: "instant \<Rightarrow> instant \<Rightarrow> f64" where
  "sane_tdiff end_at start = f_max (as_secs_f64 (end_at - start)) (f64_of (1 / 1000))"

definition time_bias :: "(f64 \<Rightarrow> f64) \<Rightarrow> f64 \<Rightarrow> f64 \<Rightarrow> f64" where
  "time_bias ex age_secs interval =
     f_sub (Fin 1) (f_div (Fin 1) (ex (f_min (f_div age_secs interval) (Fin 36))))"

record hashrate_decay =
  hd_dsps :: "f64 list"
  hd_pending :: f64
  hd_last_decay :: instant

definition decay_new :: "instant \<Rightarrow> hashrate_decay" where
  "decay_new now = \<lparr> hd_dsps = replicate WINDOW_COUNT (Fin 0), hd_pending = Fin 0, hd_last_decay = now \<rparr>"

fun f_floor :: "f64 \<Rightarrow> f64" where
  "f_floor (Fin x) = Fin (of_int \<lfloor>x\<rfloor>)"
| "f_floor x = x"

text \<open>One window of \<open>decay_idle_for\<close>.\<close>

definition idle_window :: "(f64 \<Rightarrow> f64) \<Rightarrow> (f64 \<Rightarrow> f64 \<Rightarrow> f64) \<Rightarrow> f64 \<Rightarrow> f64 \<Rightarrow> f64 \<Rightarrow> f64 \<Rightarrow> f64" where
  "idle_window ex pw whole_ticks remainder interval value =
     (let step_factor = f_div (Fin 1) (f_sub (Fin 2) (ex (f_div (f_neg (f64_of_nat TICK_SECS)) interval)));
          value = f_mul value (pw step_factor whole_ticks);
          value = (if f_lt (Fin 0) remainder then decay_time ex value (Fin 0) remainder interval else value)
      in if f_lt value flush_below then Fin 0 else value)"

definition decay_idle_for ::
  "(f64 \<Rightarrow> f64) \<Rightarrow> (f64 \<Rightarrow> f64 \<Rightarrow> f64) \<Rightarrow> hashrate_decay \<Rightarrow> f64 \<Rightarrow> hashrate_decay" where
  "decay_idle_for ex pw d elapsed_secs =
     (if \<not> is_finite elapsed_secs \<or> f_le elapsed_secs (Fin 0) then d
      else
        let step = f64_of_nat TICK_SECS;
            whole_ticks = f_floor (f_div elapsed_secs step);
            remainder = f_sub elapsed_secs (f_mul whole_ticks step)
        in d\<lparr>hd_dsps := map2 (idle_window ex pw whole_ticks remainder) WINDOW_SECS (hd_dsps d)\<rparr>)"

definition restored_rates ::
  "(f64 \<Rightarrow> f64) \<Rightarrow> (f64 \<Rightarrow> f64 \<Rightarrow> f64) \<Rightarrow> instant \<Rightarrow> f64 list \<Rightarrow> duration \<Rightarrow> hashrate_decay" where
  "restored_rates ex pw now rates offline_for =
     decay_idle_for ex pw
       \<lparr> hd_dsps = map (\<lambda>rate. if is_finite rate \<and> f_lt (Fin 0) rate then rate else Fin 0) rates,
         hd_pending = Fin 0, hd_last_decay = now \<rparr> (as_secs_f64 offline_for)"

definition restored ::
  "(f64 \<Rightarrow> f64) \<Rightarrow> (f64 \<Rightarrow> f64 \<Rightarrow> f64) \<Rightarrow> instant \<Rightarrow> f64 list \<Rightarrow> duration \<Rightarrow> hashrate_decay" where
  "restored ex pw now hashrates offline_for =
     restored_rates ex pw now (map (\<lambda>hps. f_div hps NONCES) hashrates) offline_for"

definition restored_per_minute ::
  "(f64 \<Rightarrow> f64) \<Rightarrow> (f64 \<Rightarrow> f64 \<Rightarrow> f64) \<Rightarrow> instant \<Rightarrow> f64 list \<Rightarrow> duration \<Rightarrow> hashrate_decay" where
  "restored_per_minute ex pw now per_minute offline_for =
     restored_rates ex pw now (map (\<lambda>v. f_div v SECS_PER_MINUTE) per_minute) offline_for"

definition add_share :: "hashrate_decay \<Rightarrow> f64 \<Rightarrow> hashrate_decay" where
  "add_share d diff =
     (if is_finite diff \<and> f_lt (Fin 0) diff then d\<lparr>hd_pending := f_add (hd_pending d) diff\<rparr> else d)"

definition tick :: "(f64 \<Rightarrow> f64) \<Rightarrow> hashrate_decay \<Rightarrow> instant \<Rightarrow> hashrate_decay" where
  "tick ex d now =
     (let tdiff = sane_tdiff now (hd_last_decay d); fadd = hd_pending d in
      \<lparr> hd_dsps = map2 (\<lambda>f interval. decay_time ex f fadd tdiff interval) (hd_dsps d) WINDOW_SECS,
        hd_pending = Fin 0, hd_last_decay = now \<rparr>)"

definition rates :: "hashrate_decay \<Rightarrow> f64 list" where
  "rates d = hd_dsps d"

definition per_minute :: "hashrate_decay \<Rightarrow> f64 list" where
  "per_minute d = map (\<lambda>x. f_mul x SECS_PER_MINUTE) (hd_dsps d)"

definition hashrates :: "hashrate_decay \<Rightarrow> f64 list" where
  "hashrates d = map (\<lambda>x. f_mul x NONCES) (hd_dsps d)"

definition is_idle :: "hashrate_decay \<Rightarrow> bool" where
  "is_idle d \<longleftrightarrow> f_eq (hd_pending d) (Fin 0) \<and> list_all (\<lambda>x. f_eq x (Fin 0)) (hd_dsps d)"

section \<open>What is assumed of the exponential\<close>

text \<open>
  For the arguments that occur, \<open>exp\<close> returns a finite value on the right side of one, and from
  \<open>2^-40\<close> on one that grows at least half as fast as its argument; \<open>powf\<close> of a base and a
  non-negative exponent keeps the unit interval.
\<close>

definition exp_ok :: "(f64 \<Rightarrow> f64) \<Rightarrow> bool" where
  "exp_ok ex \<longleftrightarrow>
     (\<forall>x. 0 \<le> x \<and> x \<le> 36 \<longrightarrow>
        (\<exists>y. ex (Fin x) = Fin y \<and> representable y \<and> 1 \<le> y \<and> (1 / 2 ^ 40 \<le> x \<longrightarrow> 1 + x / 2 \<le> y)))
   \<and> (\<forall>x. x \<le> 0 \<longrightarrow> (\<exists>y. ex (Fin x) = Fin y \<and> representable y \<and> 0 \<le> y \<and> y \<le> 1))"

definition powf_ok :: "(f64 \<Rightarrow> f64 \<Rightarrow> f64) \<Rightarrow> bool" where
  "powf_ok pw \<longleftrightarrow> (\<forall>b n. 0 < b \<and> b \<le> 1 \<and> 0 \<le> n \<longrightarrow>
     (\<exists>y. pw (Fin b) (Fin n) = Fin y \<and> representable y \<and> 0 \<le> y \<and> y \<le> 1))"

section \<open>One decay step\<close>

text \<open>The proportion \<open>1 - 1 / exp x\<close> is in the unit interval, and bounded below with \<open>x\<close>.\<close>

definition prop_of :: "(f64 \<Rightarrow> f64) \<Rightarrow> f64 \<Rightarrow> f64" where
  "prop_of ex dexp = f_sub (Fin 1) (f_div (Fin 1) (ex dexp))"

lemma prop_of_bounds:
  assumes "exp_ok ex" "0 \<le> x" "x \<le> 36"
  obtains p where "prop_of ex (Fin x) = Fin p" "0 \<le> p" "p \<le> 1" "representable p"
    "\<And>k. k \<le> 40 \<Longrightarrow> 1 / 2 ^ k \<le> x \<Longrightarrow> 1 / 2 ^ (k + 2) \<le> p"
proof -
  from assms obtain y where y: "ex (Fin x) = Fin y" "representable y" "1 \<le> y"
    "1 / 2 ^ 40 \<le> x \<longrightarrow> 1 + x / 2 \<le> y" unfolding exp_ok_def by blast
  define z where "z = rnd (1 / y)"
  have z: "f64_of (1 / y) = Fin z" "0 \<le> z" "z \<le> 1"
    unfolding z_def using f64_of_le_Fin [of "1 / y" 1] y(3) by auto
  define p where "p = rnd (1 - z)"
  have p: "f64_of (1 - z) = Fin p" "0 \<le> p" "p \<le> 1"
    unfolding p_def using f64_of_le_Fin [of "1 - z" 1] z by auto
  have low: "1 / 2 ^ (k + 2) \<le> p" if k: "k \<le> 40" "1 / 2 ^ k \<le> x" for k
  proof -
    define a where "a = (1 / 2 ^ (k + 2) :: rat)"
    have a: "0 < a" "a \<le> 1 / 4" by (auto simp: a_def field_simps)
    have "(1 :: rat) / 2 ^ 40 \<le> 1 / 2 ^ k" using k(1) by (intro divide_left_mono power_increasing) auto
    then have "1 + x / 2 \<le> y" using y(4) k(2) order_trans by blast
    moreover have "4 * a \<le> x" using k(2) by (simp add: a_def)
    ultimately have "1 + 2 * a \<le> y" by linarith
    then have "1 / y \<le> 1 / (1 + 2 * a)" using a y(3) by (intro divide_left_mono) auto
    also have "1 / (1 + 2 * a) \<le> 1 - a"
    proof -
      have "0 \<le> a * (1 - 2 * a)" using a by (intro mult_nonneg_nonneg) auto
      then have "1 \<le> (1 - a) * (1 + 2 * a)" by (simp add: algebra_simps)
      then show ?thesis using a by (simp add: pos_divide_le_eq)
    qed
    finally have le: "1 / y \<le> 1 - a" .
    have rep: "representable a" "representable (1 - a)"
      using representable_near_1 [of "k + 2"] k(1) by (simp_all only: a_def)
    from le rep(2) have "z \<le> 1 - a" unfolding z_def by (rule rnd_le_representable)
    then have "a \<le> p" unfolding p_def using rep(1) by (intro rnd_ge_representable) simp_all
    then show ?thesis by (simp add: a_def)
  qed
  have "prop_of ex (Fin x) = Fin p" using y(1,3) z(1) p(1) by (simp add: prop_of_def f_sub_def)
  moreover have "representable p" by (simp add: p_def)
  ultimately show ?thesis using p low that by blast
qed

lemma dexp_bounds:
  assumes "f_le (Fin m) fsecs" "0 \<le> m" "0 < i" "\<bar>a\<bar> \<le> 36" "a \<le> m / i" "representable a"
  obtains x where "f_min (f_div fsecs (Fin i)) (Fin 36) = Fin x" "a \<le> x" "x \<le> 36" "0 \<le> x"
proof (cases fsecs)
  case (Fin s)
  then have s: "m \<le> s" using assms by simp
  then have "m / i \<le> s / i" using assms by (simp add: divide_right_mono)
  then have ge: "a \<le> rnd (s / i)" "0 \<le> rnd (s / i)"
    using assms s rnd_ge_representable [of a "s / i"] rnd_nonneg [of "s / i"] by auto
  consider q where "f64_of (s / i) = Fin q" "a \<le> q" "0 \<le> q" | "f64_of (s / i) = Inf False"
  proof (cases "rnd (s / i) < 2 ^ 1024")
    case True
    then show ?thesis using f64_of_range [OF ge(2)] ge that(1) by blast
  next
    case False
    then show ?thesis using that(2) by (simp add: f64_of_def Let_def not_less)
  qed
  then show ?thesis
  proof cases
    case (1 q)
    then have "f_min (f_div fsecs (Fin i)) (Fin 36) = Fin (if 36 < q then 36 else q)"
      using Fin assms by (simp add: f_min_def)
    then show ?thesis using 1 assms that by (auto split: if_splits)
  next
    case 2
    then have "f_min (f_div fsecs (Fin i)) (Fin 36) = Fin 36" using Fin assms by (simp add: f_min_def)
    then show ?thesis using assms that by (auto simp: abs_le_iff)
  qed
next
  case (Inf b)
  then have "f_min (f_div fsecs (Fin i)) (Fin 36) = Fin 36"
    using assms by (auto simp: f_min_def f_le_def)
  then show ?thesis using assms that by (auto simp: abs_le_iff)
qed (use assms in \<open>auto simp: f_le_def\<close>)

text \<open>With nothing pending an average falls, by at least the factor that the elapsed time gives.\<close>

lemma decay_time_idle:
  assumes "exp_ok ex" "f_le (Fin m) fsecs" "0 < m" "0 < i" "0 \<le> r" "representable r" "r < 2 ^ 1024"
  obtains t where "1 \<le> t" "0 \<le> rnd (r / t)" "rnd (r / t) \<le> r"
    "decay_time ex (Fin r) (Fin 0) fsecs (Fin i) =
       (if f_lt (Fin (rnd (r / t))) flush_below then Fin 0 else Fin (rnd (r / t)))"
    "\<And>k. k \<le> 40 \<Longrightarrow> 1 / 2 ^ k \<le> m / i \<Longrightarrow> 1 + 1 / 2 ^ (k + 2) \<le> t"
proof -
  have k: "representable (1 / 2 ^ k)" "\<bar>1 / 2 ^ k :: rat\<bar> \<le> 36" if "k \<le> 40" for k :: nat
    using rnd_pow2 [of "- int k"] that unfolding pow2_minus pow2_nat representable_def
    by (auto simp: divide_le_eq intro: order_trans [of 1 36])
  obtain x where x: "f_min (f_div fsecs (Fin i)) (Fin 36) = Fin x" "x \<le> 36" "0 \<le> x"
    using dexp_bounds [of m fsecs i 0] assms by auto
  have low: "1 / 2 ^ k \<le> x" if "k \<le> 40" "1 / 2 ^ k \<le> m / i" for k :: nat
    using dexp_bounds [of m fsecs i "1 / 2 ^ k"] assms k [OF that(1)] that x(1) by (metis f64.inject(2) less_imp_le)
  obtain p where p: "prop_of ex (Fin x) = Fin p" "0 \<le> p" "p \<le> 1" "representable p"
    "\<And>k. k \<le> 40 \<Longrightarrow> 1 / 2 ^ k \<le> x \<Longrightarrow> 1 / 2 ^ (k + 2) \<le> p"
    using prop_of_bounds [OF assms(1) x(3,2)] by metis
  define t where "t = rnd (1 + p)"
  have t: "f64_of (1 + p) = Fin t" "1 \<le> t"
    using p f64_of_Fin [of "1 + p"] rnd_ge_representable [of 1 "1 + p"] by (auto simp: t_def)
  obtain q where q: "f_div (Fin r) (Fin t) = Fin q" "0 \<le> q" "q \<le> r"
    using f_div_le [OF assms(5-7) t(2)] by blast
  have qr: "q = rnd (r / t)" using q(1) t(2) f64_of_Fin_iff by (auto split: if_splits)
  have "f_le fsecs (Fin 0) = False"
    using assms(2,3) by (cases fsecs) (auto simp: f_le_def)
  moreover have "f_div (Fin 0) fsecs = Fin 0" using assms(2,3) by (cases fsecs) (auto simp: f_le_def)
  moreover have "f64_of r = Fin r" using f64_of_le_Fin [of r r] assms by (simp add: representable_def)
  ultimately have eq: "decay_time ex (Fin r) (Fin 0) fsecs (Fin i) =
      (if f_lt (Fin q) flush_below then Fin 0 else Fin q)"
    unfolding decay_time_def x(1) Let_def prop_of_def [symmetric] p(1) using t(1) q(1) by simp
  have "1 + 1 / 2 ^ (k + 2) \<le> t" if k': "k \<le> 40" "1 / 2 ^ k \<le> m / i" for k :: nat
  proof -
    have "representable (1 + 1 / 2 ^ (k + 2))" using representable_near_1(3) [of "k + 2"] k'(1) by simp
    then show ?thesis unfolding t_def using p(5) [OF k'(1) low [OF k']] by (intro rnd_ge_representable) simp_all
  qed
  with that t q eq show ?thesis unfolding qr by blast
qed

section \<open>Idle meters\<close>

lemma flush_below_Fin: "\<exists>c. flush_below = Fin c \<and> 1 / 2 ^ 53 \<le> c \<and> c \<le> 1"
proof -
  have "flush_below = Fin (rnd (2 / 10 ^ 16))" unfolding flush_below_def by (rule f64_of_Fin) simp
  moreover have "1 / 2 ^ 53 \<le> rnd (2 / 10 ^ 16)"
    using representable_dyadic [of 1 53] by (intro rnd_ge_representable) simp_all
  moreover have "rnd (2 / 10 ^ 16) \<le> 1" by (rule rnd_le_representable) simp_all
  ultimately show ?thesis by blast
qed

definition decay_factor :: rat where
  "decay_factor = 1 - 1 / 2 ^ 21"

lemma shrink_bound:
  assumes "0 \<le> r" "1 + 1 / 2 ^ 19 \<le> t" "1 / 2 ^ 53 \<le> rnd (r / t)"
  shows "rnd (r / t) \<le> r * decay_factor"
proof -
  have t: "0 < t" using assms(2) by (rule less_le_trans [rotated]) simp
  have z: "r / t \<le> r * (1 - 1 / 2 ^ 20)"
  proof -
    have "1 \<le> (1 - 1 / 2 ^ 20) * (1 + 1 / 2 ^ 19 :: rat)" by simp
    also have "\<dots> \<le> (1 - 1 / 2 ^ 20) * t" using assms(2) by (intro mult_left_mono) simp_all
    finally have "1 / t \<le> 1 - 1 / 2 ^ 20" using t by (simp add: pos_divide_le_eq)
    then have "r * (1 / t) \<le> r * (1 - 1 / 2 ^ 20)" using assms(1) by (rule mult_left_mono)
    then show ?thesis by simp
  qed
  have "pow2 (- 1022) \<le> r / t"
  proof (rule ccontr)
    assume "\<not> pow2 (- 1022) \<le> r / t"
    then have "rnd (r / t) \<le> pow2 (- 1022)"
      using rnd_pow2 [of "- 1022"] by (intro rnd_le_representable) (auto simp: representable_def)
    moreover have "pow2 (- 1022) < pow2 (- 53)" by (rule pow2_strict_mono) simp
    moreover have "pow2 (- 53) = 1 / 2 ^ 53" unfolding pow2_minus using pow2_nat [of 53] by simp
    ultimately show False using assms(3) by linarith
  qed
  then have "rnd (r / t) - r / t \<le> r / t * pow2 (- 53)" using rnd_error [of "r / t"] abs_le_D1 by blast
  then have "rnd (r / t) \<le> r / t * (1 + 1 / 2 ^ 53)"
    unfolding pow2_minus using pow2_nat [of 53] by (simp add: algebra_simps)
  also have "\<dots> \<le> r * (1 - 1 / 2 ^ 20) * (1 + 1 / 2 ^ 53)" using z by (intro mult_right_mono) simp_all
  also have "\<dots> = r * ((1 - 1 / 2 ^ 20) * (1 + 1 / 2 ^ 53))" by (rule mult.assoc)
  also have "\<dots> \<le> r * decay_factor" using assms(1) by (intro mult_left_mono) (simp_all add: decay_factor_def)
  finally show ?thesis .
qed

definition window_le :: "rat \<Rightarrow> f64 \<Rightarrow> bool" where
  "window_le b x \<longleftrightarrow> (\<exists>r. x = Fin r \<and> representable r \<and> 0 \<le> r \<and> r \<le> b)"

definition at_rest_or_above :: "f64 \<Rightarrow> bool" where
  "at_rest_or_above x \<longleftrightarrow> (\<forall>r. x = Fin r \<longrightarrow> r = 0 \<or> 1 / 2 ^ 53 \<le> r)"

lemma window_idle_step:
  assumes "exp_ok ex" "window_le b x" "b < 2 ^ 1024" "f_le (Fin 1) fsecs" "0 < i" "i \<le> 86400"
  defines "x' \<equiv> decay_time ex x (Fin 0) fsecs (Fin i)"
  shows "window_le (b * decay_factor) x'" "at_rest_or_above x'"
proof -
  from assms(2) obtain r where r: "x = Fin r" "representable r" "0 \<le> r" "r \<le> b"
    by (auto simp: window_le_def)
  have lt: "r < 2 ^ 1024" using r(4) assms(3) by (rule le_less_trans)
  obtain t where t: "1 \<le> t" "0 \<le> rnd (r / t)" "rnd (r / t) \<le> r"
    "x' = (if f_lt (Fin (rnd (r / t))) flush_below then Fin 0 else Fin (rnd (r / t)))"
    "\<And>k. k \<le> 40 \<Longrightarrow> 1 / 2 ^ k \<le> 1 / i \<Longrightarrow> 1 + 1 / 2 ^ (k + 2) \<le> t"
    using decay_time_idle [OF assms(1,4) zero_less_one assms(5) r(3,2) lt] unfolding x'_def r(1) by metis
  have "1 / 2 ^ 17 \<le> 1 / i" using assms(5,6) by (intro divide_left_mono) simp_all
  with t(5) [of 17] have t19: "1 + 1 / 2 ^ 19 \<le> t" by simp
  obtain c where c: "flush_below = Fin c" "1 / 2 ^ 53 \<le> c" using flush_below_Fin by blast
  have b: "0 \<le> b * decay_factor" using r by (simp add: decay_factor_def)
  show "at_rest_or_above x'" using t(4) c(2) unfolding c(1) by (auto simp: at_rest_or_above_def split: if_splits)
  show "window_le (b * decay_factor) x'"
  proof (cases "f_lt (Fin (rnd (r / t))) flush_below")
    case True
    then show ?thesis using t(4) b by (simp add: window_le_def)
  next
    case False
    then have "1 / 2 ^ 53 \<le> rnd (r / t)" using c(2) unfolding c(1) by simp
    from shrink_bound [OF r(3) t19 this] have "rnd (r / t) \<le> b * decay_factor"
      using r(4) mult_right_mono [of r b decay_factor] by (simp add: decay_factor_def)
    then show ?thesis using t(2,4) False by (simp add: window_le_def)
  qed
qed

lemma sane_tdiff_ge_1: "start + 1000000000 \<le> end_at \<Longrightarrow> f_le (Fin 1) (sane_tdiff end_at start)"
proof -
  assume "start + 1000000000 \<le> end_at"
  then have "1000000000 \<le> end_at - start" by linarith
  then have 1: "f_le (Fin 1) (as_secs_f64 (end_at - start))" by (rule as_secs_f64_ge_1)
  moreover have "as_secs_f64 (end_at - start) \<noteq> NaN" using f_le_not_NaN [OF 1] by simp
  ultimately show ?thesis unfolding sane_tdiff_def using f_le_trans f_max_ge1 by blast
qed

definition windows_le :: "rat \<Rightarrow> hashrate_decay \<Rightarrow> bool" where
  "windows_le b d \<longleftrightarrow> length (hd_dsps d) = WINDOW_COUNT \<and> list_all (window_le b) (hd_dsps d)"

lemma WINDOW_SECS_bounds: "w \<in> set WINDOW_SECS \<Longrightarrow> \<exists>i. w = Fin i \<and> 0 < i \<and> i \<le> 86400"
  by (auto simp: WINDOW_SECS_def)

lemma length_WINDOW_SECS [simp]: "length WINDOW_SECS = WINDOW_COUNT"
  by (simp add: WINDOW_SECS_def WINDOW_COUNT_def)

lemma list_all_map2:
  assumes "\<And>x y. x \<in> set xs \<Longrightarrow> y \<in> set ys \<Longrightarrow> P (f x y)"
  shows "list_all P (map2 f xs ys)"
  using assms by (auto simp: list_all_iff dest: set_zip_leftD set_zip_rightD)

lemma tick_idle_step:
  assumes "exp_ok ex" "windows_le b d" "b < 2 ^ 1024" "hd_pending d = Fin 0"
    and "hd_last_decay d + 1000000000 \<le> now"
  shows "windows_le (b * decay_factor) (tick ex d now)"
    "list_all at_rest_or_above (hd_dsps (tick ex d now))"
    "hd_pending (tick ex d now) = Fin 0" "hd_last_decay (tick ex d now) = now"
proof -
  have step: "window_le (b * decay_factor) (decay_time ex x (Fin 0) (sane_tdiff now (hd_last_decay d)) w)
      \<and> at_rest_or_above (decay_time ex x (Fin 0) (sane_tdiff now (hd_last_decay d)) w)"
    if "x \<in> set (hd_dsps d)" "w \<in> set WINDOW_SECS" for x w
  proof -
    from WINDOW_SECS_bounds [OF that(2)] obtain i where i: "w = Fin i" "0 < i" "i \<le> 86400" by blast
    have "window_le b x" using that(1) assms(2) by (auto simp: windows_le_def list_all_iff)
    from window_idle_step [OF assms(1) this assms(3) sane_tdiff_ge_1 [OF assms(5)] i(2,3)] i(1)
    show ?thesis by simp
  qed
  have len: "length (hd_dsps d) = WINDOW_COUNT" using assms(2) by (simp add: windows_le_def)
  show "windows_le (b * decay_factor) (tick ex d now)"
    unfolding windows_le_def tick_def Let_def assms(4) using len step by (auto intro!: list_all_map2)
  show "list_all at_rest_or_above (hd_dsps (tick ex d now))"
    unfolding tick_def Let_def assms(4) using step by (auto intro!: list_all_map2)
qed (simp_all add: tick_def Let_def)

fun spaced :: "instant \<Rightarrow> instant list \<Rightarrow> bool" where
  "spaced t [] \<longleftrightarrow> True"
| "spaced t (u # us) \<longleftrightarrow> t + 1000000000 \<le> u \<and> spaced u us"

lemma decay_factor_bounds: "0 \<le> decay_factor" "decay_factor \<le> 1" "decay_factor < 1"
  by (simp_all add: decay_factor_def)

lemma idle_ticks:
  assumes "exp_ok ex" "windows_le b d" "0 \<le> b" "b < 2 ^ 1024" "hd_pending d = Fin 0" "spaced (hd_last_decay d) ts"
  shows "windows_le (b * decay_factor ^ length ts) (foldl (tick ex) d ts)
       \<and> hd_pending (foldl (tick ex) d ts) = Fin 0
       \<and> (ts \<noteq> [] \<longrightarrow> list_all at_rest_or_above (hd_dsps (foldl (tick ex) d ts)))"
  using assms(2-)
proof (induction ts arbitrary: d b)
  case (Cons u us)
  then have sp: "hd_last_decay d + 1000000000 \<le> u" "spaced u us" by simp_all
  note st = tick_idle_step [OF assms(1) Cons.prems(1,3,4) sp(1)]
  have le: "b * decay_factor \<le> b" "0 \<le> b * decay_factor"
    using Cons.prems(2) decay_factor_bounds by (simp_all add: mult_left_le)
  from le(1) Cons.prems(3) have "b * decay_factor < 2 ^ 1024" by (rule le_less_trans)
  note IH = Cons.IH [OF st(1) le(2) this st(3)]
  show ?case
  proof (cases us)
    case Nil
    then show ?thesis using st by simp
  next
    case (Cons v vs)
    then show ?thesis using IH sp(2) st(4) by (simp add: mult.assoc)
  qed
qed simp

lemma window_rest:
  assumes "window_le b x" "at_rest_or_above x" "b < 1 / 2 ^ 53"
  shows "x = Fin 0"
proof -
  from assms(1) obtain r where r: "x = Fin r" "r \<le> b" by (auto simp: window_le_def)
  then have "\<not> 1 / 2 ^ 53 \<le> r" using assms(3) by (meson le_less_trans not_le)
  then show ?thesis using r assms(2) by (auto simp: at_rest_or_above_def)
qed

lemma decay_factor_power_small:
  assumes "0 \<le> b"
  shows "\<exists>n. \<forall>m \<ge> n. b * decay_factor ^ m < 1 / 2 ^ 53"
proof -
  have "0 < 1 / (2 ^ 53 * (real_of_rat b + 1))" using assms by (simp add: add_nonneg_pos)
  then obtain n where n: "real_of_rat decay_factor ^ n < 1 / (2 ^ 53 * (real_of_rat b + 1))"
    using real_arch_pow_inv [of _ "real_of_rat decay_factor"] decay_factor_bounds by (metis of_rat_less_1_iff)
  have "b * decay_factor ^ m < 1 / 2 ^ 53" if "n \<le> m" for m
  proof -
    have "real_of_rat decay_factor ^ m \<le> real_of_rat decay_factor ^ n"
      using that decay_factor_bounds by (intro power_decreasing) auto
    with n have "real_of_rat decay_factor ^ m < 1 / (2 ^ 53 * (real_of_rat b + 1))" by linarith
    moreover have pos: "0 < real_of_rat b + 1" using assms by (simp add: add_nonneg_pos)
    ultimately have "(real_of_rat b + 1) * real_of_rat decay_factor ^ m
        < (real_of_rat b + 1) * (1 / (2 ^ 53 * (real_of_rat b + 1)))" by (rule mult_strict_left_mono)
    also have "\<dots> = 1 / 2 ^ 53" using pos by simp
    finally have "(real_of_rat b + 1) * real_of_rat decay_factor ^ m < 1 / 2 ^ 53" .
    then have "real_of_rat ((b + 1) * decay_factor ^ m) < real_of_rat (1 / 2 ^ 53)"
      by (simp add: of_rat_add of_rat_mult of_rat_power of_rat_divide)
    then have "(b + 1) * decay_factor ^ m < 1 / 2 ^ 53" by (simp only: of_rat_less)
    moreover have "b * decay_factor ^ m \<le> (b + 1) * decay_factor ^ m"
      using decay_factor_bounds by (intro mult_right_mono) simp_all
    ultimately show ?thesis by linarith
  qed
  then show ?thesis by blast
qed

text \<open>
  A miner that stops hashing falls off on its own: from any meter whose averages are finite and
  not negative, with no share pending, there is a number of ticks after which every further
  schedule of ticks at least a second apart leaves the meter idle, every window exactly zero,
  so its entry can be evicted.
\<close>

theorem meter_goes_idle:
  assumes "exp_ok ex" "windows_le b d" "0 \<le> b" "b < 2 ^ 1024" "hd_pending d = Fin 0"
  shows "\<exists>n. \<forall>ts. n \<le> length ts \<and> spaced (hd_last_decay d) ts \<longrightarrow> is_idle (foldl (tick ex) d ts)"
proof -
  obtain n where n: "b * decay_factor ^ m < 1 / 2 ^ 53" if "n \<le> m" for m
    using decay_factor_power_small [OF assms(3)] by blast
  have "is_idle (foldl (tick ex) d ts)" if "Suc n \<le> length ts" "spaced (hd_last_decay d) ts" for ts
  proof -
    let ?d = "foldl (tick ex) d ts"
    note run = idle_ticks [OF assms that(2)]
    have "x = Fin 0" if "x \<in> set (hd_dsps ?d)" for x
    proof (rule window_rest [OF _ _ n [of "length ts"]])
      show "window_le (b * decay_factor ^ length ts) x" "at_rest_or_above x"
        using run that \<open>Suc n \<le> length ts\<close> by (auto simp: windows_le_def list_all_iff)
    qed (use \<open>Suc n \<le> length ts\<close> in simp)
    then have "list_all (\<lambda>x. f_eq x (Fin 0)) (hd_dsps ?d)" by (fastforce simp: list_all_iff)
    then show ?thesis using run by (simp add: is_idle_def)
  qed
  then show ?thesis by blast
qed

fun exp_sample :: "f64 \<Rightarrow> f64" where
  "exp_sample (Fin x) = (if x < 0 then Fin 0 else Fin (rnd (1 + x)))"
| "exp_sample x = NaN"

lemma exp_sample_ok: "exp_ok exp_sample"
proof -
  have "1 \<le> rnd (1 + x) \<and> (1 / 2 ^ 40 \<le> x \<longrightarrow> 1 + x / 2 \<le> rnd (1 + x))" if x: "0 \<le> x" "x \<le> 36" for x
  proof -
    have "1 \<le> rnd (1 + x)" using x by (intro rnd_ge_representable) simp_all
    moreover have "pow2 (- 1022) \<le> 1 + x" using pow2_mono [of "- 1022" 0] x by simp
    then have "- ((1 + x) * pow2 (- 53)) \<le> rnd (1 + x) - (1 + x)" using rnd_error abs_le_D2 by fastforce
    then have "1 + x - (1 + x) / 2 ^ 53 \<le> rnd (1 + x)"
      unfolding pow2_minus using pow2_nat [of 53] by (simp add: algebra_simps)
    moreover have "(1 + x) / 2 ^ 53 \<le> 37 / 2 ^ 53" using x by (intro divide_right_mono) simp_all
    ultimately have low: "1 + x - 37 / 2 ^ 53 \<le> rnd (1 + x)" "1 \<le> rnd (1 + x)" by linarith+
    moreover have "37 / 2 ^ 53 \<le> x / 2" if "1 / 2 ^ 40 \<le> x"
      using that by (rule order_trans [rotated, OF divide_right_mono]) simp_all
    ultimately show ?thesis by fastforce
  qed
  moreover have "rnd 1 = 1" using rnd_int [of 1] by simp
  ultimately show ?thesis by (auto simp: exp_ok_def)
qed

definition sample_meter :: hashrate_decay where
  "sample_meter = \<lparr> hd_dsps = replicate 7 (Fin 1024), hd_pending = Fin 0, hd_last_decay = 0 \<rparr>"

lemma sample_meter_le: "windows_le 1024 sample_meter"
  using representable_nat [of 1024]
  by (simp add: windows_le_def sample_meter_def WINDOW_COUNT_def window_le_def list_all_iff)

theorem meter_goes_idle_witness:
  "windows_le 1024 sample_meter \<and>
   (\<exists>n. \<forall>ts. n \<le> length ts \<and> spaced 0 ts \<longrightarrow> is_idle (foldl (tick exp_sample) sample_meter ts))"
  using meter_goes_idle [OF exp_sample_ok sample_meter_le] sample_meter_le by (simp add: sample_meter_def)

section \<open>Checkpoints\<close>

lemma hashrate_scale_roundtrip:
  assumes "representable r" "0 \<le> r" "r \<le> 2 ^ 900"
  shows "f_div (f_mul (Fin r) NONCES) NONCES = Fin r"
proof -
  have "r * 2 ^ 32 \<le> 2 ^ 900 * 2 ^ 32" using assms(3) by (rule mult_right_mono) simp
  also have "\<dots> \<le> (2 :: rat) ^ 1023" unfolding power_add [symmetric] by (rule power_increasing) simp_all
  finally have le: "r * 2 ^ 32 \<le> 2 ^ 1023" .
  have "f64_of (r * 2 ^ 32) = Fin (r * 2 ^ 32)"
    using le assms by (intro f64_of_representable representable_scale) simp_all
  then have mul: "f_mul (Fin r) NONCES = Fin (r * 4294967296)" by (simp add: NONCES_def)
  have "r \<le> 2 ^ 1023" using assms(3) by (rule order_trans) (rule power_increasing, simp_all)
  then have "f64_of r = Fin r" using assms by (intro f64_of_representable) simp_all
  with mul show ?thesis by (simp add: NONCES_def)
qed

lemma sanitize_window:
  assumes "window_le b x"
  shows "(if is_finite x \<and> f_lt (Fin 0) x then x else Fin 0) = x"
  using assms by (auto simp: window_le_def)

lemma as_secs_f64_0: "as_secs_f64 0 = Fin 0"
  using f64_of_nat_exact [of 0] by (simp add: as_secs_f64_def)

text \<open>One window of a checkpoint decayed over the time offline never exceeds what was stored.\<close>

lemma step_factor_unit:
  assumes "exp_ok ex" "1 \<le> i"
  obtains c where "f_div (Fin 1) (f_sub (Fin 2) (ex (f_div (f_neg (f64_of_nat TICK_SECS)) (Fin i)))) = Fin c"
    "0 < c" "c \<le> 1"
proof -
  have step: "f64_of_nat TICK_SECS = Fin 2" using f64_of_nat_exact [of 2] by (simp add: TICK_SECS_def)
  have "2 / i \<le> 2" using assms(2) by (simp add: pos_divide_le_eq)
  then have "f64_of (- 2 / i) = Fin (rnd (- 2 / i))" using assms(2) by (intro f64_of_Fin) (simp add: abs_le_iff)
  moreover have "rnd (- 2 / i) \<le> 0" using assms(2) by (intro rnd_le_representable) simp_all
  ultimately obtain y where y: "ex (f_div (f_neg (f64_of_nat TICK_SECS)) (Fin i)) = Fin y" "0 \<le> y" "y \<le> 1"
    using assms unfolding exp_ok_def step by fastforce
  have r2: "representable 2" using representable_nat [of 2] by simp
  have t: "f64_of (2 - y) = Fin (rnd (2 - y))" "1 \<le> rnd (2 - y)" "rnd (2 - y) \<le> 2"
    using y r2 by (auto intro!: f64_of_Fin rnd_ge_representable rnd_le_representable)
  have c: "f64_of (1 / rnd (2 - y)) = Fin (rnd (1 / rnd (2 - y)))" "rnd (1 / rnd (2 - y)) \<le> 1"
    using f64_of_le_Fin [of "1 / rnd (2 - y)" 1] t by auto
  have "1 / 2 \<le> 1 / rnd (2 - y)" using t by (intro divide_left_mono) simp_all
  then have "1 / 2 \<le> rnd (1 / rnd (2 - y))"
    using representable_near_1(1) [of 1] by (intro rnd_ge_representable) simp_all
  then show ?thesis using c t y by (intro that [of "rnd (1 / rnd (2 - y))"]) (auto simp: f_sub_def)
qed

lemma idle_window_le:
  assumes "exp_ok ex" "powf_ok pw" "1 \<le> i" "window_le b x" "b < 2 ^ 1024" "0 \<le> n"
  shows "window_le b (idle_window ex pw (Fin n) (Fin q) (Fin i) x)"
proof -
  from assms(4) obtain r where r: "x = Fin r" "representable r" "0 \<le> r" "r \<le> b" by (auto simp: window_le_def)
  from step_factor_unit [OF assms(1,3)] obtain c where
    c: "f_div (Fin 1) (f_sub (Fin 2) (ex (f_div (f_neg (f64_of_nat TICK_SECS)) (Fin i)))) = Fin c" "0 < c" "c \<le> 1"
    by blast
  from assms(2,6) c(2,3) obtain y where y: "pw (Fin c) (Fin n) = Fin y" "0 \<le> y" "y \<le> 1"
    unfolding powf_ok_def by blast
  have lt: "r < 2 ^ 1024" using r(4) assms(5) by (rule le_less_trans)
  define v where "v = rnd (r * y)"
  have v: "f64_of (r * y) = Fin v" "0 \<le> v" "v \<le> r" "representable v"
    unfolding v_def using f64_of_le_Fin [of "r * y" r] r y lt by (auto simp: mult_left_le)
  have vlt: "v < 2 ^ 1024" using v(3) lt by (rule le_less_trans)
  have dec: "\<exists>w. decay_time ex (Fin v) (Fin 0) (Fin q) (Fin i) = Fin w \<and> representable w \<and> 0 \<le> w \<and> w \<le> v"
    if "0 < q"
    using decay_time_idle [of ex q "Fin q" i v] assms(1,3) that v vlt
    by (metis f_le_Fin less_le_trans order_refl representable_0 representable_rnd zero_less_one)
  define u where "u = (if f_lt (Fin 0) (Fin q) then decay_time ex (Fin v) (Fin 0) (Fin q) (Fin i) else Fin v)"
  have "\<exists>w. u = Fin w \<and> representable w \<and> 0 \<le> w \<and> w \<le> v" using dec v by (auto simp: u_def)
  moreover have "idle_window ex pw (Fin n) (Fin q) (Fin i) x = (if f_lt u flush_below then Fin 0 else u)"
    unfolding idle_window_def c(1) r(1) Let_def u_def using y(1) v(1) by simp
  ultimately show ?thesis using r v by (auto simp: window_le_def)
qed

text \<open>The whole ticks of a finite time offline are a non-negative number, the remainder is finite.\<close>

lemma as_secs_u64_Fin:
  assumes "d < 2 ^ 64 * 1000000000"
  shows "\<exists>e. as_secs_f64 d = Fin e \<and> 0 \<le> e \<and> e \<le> 2 ^ 65"
proof -
  have "d div 1000000000 < 2 ^ 64" using assms by (simp add: less_mult_imp_div_less)
  then have a: "(of_nat (d div 1000000000) :: rat) \<le> of_nat (2 ^ 64)" by (simp only: of_nat_le_iff less_imp_le)
  have r64: "representable (2 ^ 64)" "representable (2 ^ 65)"
    using representable_scale [OF representable_1, of 64] representable_scale [OF representable_1, of 65] by simp_all
  have big: "(2 :: rat) ^ 64 < 2 ^ 1024" "(2 :: rat) ^ 65 < 2 ^ 1024" by (rule power_strict_increasing; simp)+
  define x where "x = rnd (of_nat (d div 1000000000))"
  have x: "f64_of_nat (d div 1000000000) = Fin x" "0 \<le> x" "x \<le> 2 ^ 64"
    unfolding x_def f64_of_nat_def using f64_of_le_Fin [OF _ _ r64(1) big(1), of "of_nat (d div 1000000000)"] a
    by simp_all
  have m: "d mod 1000000000 < 1000000000" by simp
  then have md: "f64_of_nat (d mod 1000000000) = Fin (of_nat (d mod 1000000000))"
    by (intro f64_of_nat_exact) (rule less_imp_le [OF less_le_trans], assumption, simp)
  have "(of_nat (d mod 1000000000) :: rat) \<le> of_nat 1000000000" using m by (simp only: of_nat_le_iff less_imp_le)
  then have le1: "of_nat (d mod 1000000000) / 1000000000 \<le> (1 :: rat)" by simp
  define y where "y = rnd (of_nat (d mod 1000000000) / 1000000000)"
  have y: "f_div (f64_of_nat (d mod 1000000000)) (Fin 1000000000) = Fin y" "0 \<le> y" "y \<le> 1"
    unfolding y_def md using f64_of_le_Fin [OF le1 _ representable_1] by simp_all
  have "x + y \<le> 2 ^ 64 + 1" using x y by linarith
  then have "x + y \<le> 2 ^ 65" by simp
  then show ?thesis
    using f64_of_le_Fin [OF _ _ r64(2) big(2), of "x + y"] x y by (simp add: as_secs_f64_def)
qed

lemma offline_ticks:
  assumes "0 \<le> e" "e \<le> 2 ^ 65"
  shows "\<exists>n q. f_floor (f_div (Fin e) (f64_of_nat TICK_SECS)) = Fin n \<and> 0 \<le> n
           \<and> f_sub (Fin e) (f_mul (Fin n) (f64_of_nat TICK_SECS)) = Fin q"
proof -
  have step: "f64_of_nat TICK_SECS = Fin 2" using f64_of_nat_exact [of 2] by (simp add: TICK_SECS_def)
  have r: "representable (2 ^ 64)" using representable_scale [OF representable_1, of 64] by simp
  have big: "(2 :: rat) ^ 64 < 2 ^ 1024" by (rule power_strict_increasing) simp_all
  have "e / 2 \<le> 2 ^ 64" "0 \<le> e / 2" using assms by simp_all
  note h = f64_of_le_Fin [OF this r big]
  define n where "n = (of_int \<lfloor>rnd (e / 2)\<rfloor> :: rat)"
  have n: "0 \<le> n" "n \<le> 2 ^ 64" using h(2,3) of_int_floor_le [of "rnd (e / 2)"] unfolding n_def by auto
  have "f_mul (Fin n) (Fin 2) = Fin (rnd (n * 2))" "0 \<le> rnd (n * 2)" "rnd (n * 2) \<le> 2 ^ 65"
    using n f64_of_Fin [of "n * 2"] rnd_nonneg [of "n * 2"]
      rnd_le_representable [of "n * 2" "2 ^ 65"] representable_scale [OF representable_1, of 65] by auto
  moreover from this have "f64_of (e - rnd (n * 2)) = Fin (rnd (e - rnd (n * 2)))"
    using assms by (intro f64_of_Fin) (simp add: abs_le_iff)
  ultimately show ?thesis using h(1) n unfolding step by (auto simp: f_sub_def n_def)
qed

definition f64_wf :: "f64 \<Rightarrow> bool" where
  "f64_wf x = (case x of Fin r \<Rightarrow> representable r \<and> r < 2 ^ 1024 | _ \<Rightarrow> True)"

definition stored_value :: "f64 \<Rightarrow> rat" where
  "stored_value x = (case x of Fin r \<Rightarrow> max r 0 | _ \<Rightarrow> 0)"

lemma sanitized_le:
  assumes "f64_wf x"
  shows "window_le (stored_value x) (if is_finite x \<and> f_lt (Fin 0) x then x else Fin 0)" "stored_value x < 2 ^ 1024"
proof -
  have "(0 :: rat) < 2 ^ 1024" by simp
  then show "stored_value x < 2 ^ 1024" using assms unfolding stored_value_def f64_wf_def
    by (cases x) (simp_all only: f64.case max_less_iff_conj)
  show "window_le (stored_value x) (if is_finite x \<and> f_lt (Fin 0) x then x else Fin 0)"
    using assms by (cases x) (auto simp: f64_wf_def stored_value_def window_le_def)
qed

lemma restored_rates_sane:
  assumes "exp_ok ex" "powf_ok pw" "offline < 2 ^ 64 * 1000000000"
    and "length stored = WINDOW_COUNT" "list_all f64_wf stored"
  shows "list_all2 (\<lambda>x s. window_le (stored_value s) x) (hd_dsps (restored_rates ex pw now stored offline)) stored"
proof -
  let ?clean = "\<lambda>rate. if is_finite rate \<and> f_lt (Fin 0) rate then rate else Fin 0"
  obtain e where e: "as_secs_f64 offline = Fin e" "0 \<le> e" "e \<le> 2 ^ 65" using as_secs_u64_Fin [OF assms(3)] by blast
  obtain n q where nq: "f_floor (f_div (Fin e) (f64_of_nat TICK_SECS)) = Fin n" "0 \<le> n"
    "f_sub (Fin e) (f_mul (Fin n) (f64_of_nat TICK_SECS)) = Fin q" using offline_ticks [OF e(2,3)] by blast
  have wf: "f64_wf (stored ! k)" if "k < WINDOW_COUNT" for k using that assms by (auto simp: list_all_length)
  have w: "\<exists>i \<ge> 1. WINDOW_SECS ! k = Fin i" if "k < WINDOW_COUNT" for k
    using that by (auto simp: WINDOW_SECS_def WINDOW_COUNT_def less_Suc_eq numeral_nat)
  have "window_le (stored_value (stored ! k))
      (idle_window ex pw (Fin n) (Fin q) (WINDOW_SECS ! k) (?clean (stored ! k)))" if k: "k < WINDOW_COUNT" for k
    using w [OF k] idle_window_le [OF assms(1,2) _ sanitized_le [OF wf [OF k]] nq(2)] by auto
  then show ?thesis
    using assms(4) sanitized_le(1) [OF wf]
    by (auto simp: list_all2_conv_all_nth restored_rates_def decay_idle_for_def e(1) nq(1,3) Let_def)
qed

text \<open>
  C31: Restoring a checkpoint is sane and faithful.  Whatever was stored, NaN, infinite or negative
  included, and however long the pool was offline, every restored window is a finite number
  between zero and the stored one; and a hashrate checkpoint restored at once gives back
  exactly the averages it was taken from.
\<close>

theorem checkpoint_restore:
  assumes "exp_ok ex" "powf_ok pw" "offline < 2 ^ 64 * 1000000000"
    and "length stored = WINDOW_COUNT" "list_all f64_wf stored" "windows_le (2 ^ 900) d"
  shows "list_all2 (\<lambda>x s. window_le (stored_value s) x) (hd_dsps (restored_rates ex pw now stored offline)) stored
       \<and> hd_dsps (restored ex pw now (hashrates d) 0) = hd_dsps d"
proof
  have ok: "window_le (2 ^ 900) x" if "x \<in> set (hd_dsps d)" for x
    using that assms(6) by (auto simp: windows_le_def list_all_iff)
  then have "f_div (f_mul x NONCES) NONCES = x" if "x \<in> set (hd_dsps d)" for x
    using that hashrate_scale_roundtrip unfolding window_le_def by metis
  moreover have "(if is_finite x \<and> f_lt (Fin 0) x then x else Fin 0) = x" if "x \<in> set (hd_dsps d)" for x
    using ok [OF that] by (rule sanitize_window)
  ultimately show "hd_dsps (restored ex pw now (hashrates d) 0) = hd_dsps d"
    by (auto simp: restored_def restored_rates_def decay_idle_for_def as_secs_f64_0 hashrates_def
        cong: if_cong split del: if_split intro!: map_idI)
qed (rule restored_rates_sane [OF assms(1-5)])

fun powf_sample :: "f64 \<Rightarrow> f64 \<Rightarrow> f64" where
  "powf_sample (Fin b) (Fin n) = (if n = 0 then Fin 1 else Fin (rnd (min b 1)))"
| "powf_sample x y = NaN"

lemma powf_sample_ok: "powf_ok powf_sample"
proof -
  have "0 \<le> rnd b \<and> rnd b \<le> 1" if "0 < b" "b \<le> 1" for b
    using that rnd_nonneg [of b] rnd_le_representable [of b 1] by simp
  then show ?thesis by (auto simp: powf_ok_def min_def)
qed

theorem checkpoint_restore_witness:
  "list_all2 (\<lambda>x s. window_le (stored_value s) x)
     (hd_dsps (restored_rates exp_sample powf_sample 5 [NaN, Inf False, Fin (- 1), Fin 0, Fin 1, Fin 1, NaN] (10 ^ 12)))
     [NaN, Inf False, Fin (- 1), Fin 0, Fin 1, Fin 1, NaN]
   \<and> hd_dsps (restored exp_sample powf_sample 5 (hashrates sample_meter) 0) = hd_dsps sample_meter"
proof (rule checkpoint_restore [OF exp_sample_ok powf_sample_ok])
  show "list_all f64_wf [NaN, Inf False, Fin (- 1), Fin 0, Fin 1, Fin 1, NaN]"
    using rnd_int [of "- 1"] rnd_int [of 1] by (simp add: f64_wf_def representable_def)
  show "windows_le (2 ^ 900) sample_meter"
    using sample_meter_le by (fastforce simp: windows_le_def window_le_def list_all_iff)
qed (simp_all add: WINDOW_COUNT_def)

end
