(* ===== verification/Vardiff.thy ===== *)
theory Vardiff
  imports Hashrate Config
begin

text \<open>
  Variable difficulty of one session (\<open>src/mining/vardiff.rs\<close>).  A panic of \<open>clamp\<close> is \<open>None\<close>;
  \<open>saturating_duration_since\<close> is truncated subtraction.
\<close>

declare of_nat_unat [simp del]

section \<open>Definitions\<close>

definition FAST_WINDOW_MULTIPLE :: f64 where
  "FAST_WINDOW_MULTIPLE = Fin 20"

definition SLOW_WINDOW_MULTIPLE :: f64 where
  "SLOW_WINDOW_MULTIPLE = Fin 120"

record vardiff =
  vd_cfg :: vardiff_config
  vd_current :: u64
  vd_fast :: f64
  vd_slow :: f64
  vd_fast_secs :: f64
  vd_slow_secs :: f64
  vd_last_decay :: instant
  vd_first_share :: "instant option"
  vd_last_change :: instant
  vd_shares_since_change :: u64
  vd_retarget_shares :: u64

definition vardiff_new :: "vardiff_config \<Rightarrow> u64 \<Rightarrow> instant \<Rightarrow> vardiff" where
  "vardiff_new cfg initial_difficulty now =
     (let target = f64_of_word (max (vc_target_share_time_secs cfg) 1);
          retarget_shares =
            f_to_u64 (f_max (f_round (f_div (f64_of_word (vc_retarget_interval_secs cfg)) target)) (Fin 4))
      in \<lparr> vd_cfg = cfg, vd_current = initial_difficulty, vd_fast = Fin 0, vd_slow = Fin 0,
           vd_fast_secs = f_mul FAST_WINDOW_MULTIPLE target,
           vd_slow_secs = f_mul SLOW_WINDOW_MULTIPLE target,
           vd_last_decay = now, vd_first_share = None, vd_last_change = now,
           vd_shares_since_change = 0, vd_retarget_shares = retarget_shares \<rparr>)"

text \<open>\<open>Ord::clamp\<close> on \<open>u64\<close> panics on an inverted range.\<close>

definition clamp_u64 :: "u64 \<Rightarrow> u64 \<Rightarrow> u64 \<Rightarrow> u64 option" where
  "clamp_u64 x lo hi = (if lo \<le> hi then Some (if x < lo then lo else if hi < x then hi else x) else None)"

definition suggest :: "vardiff \<Rightarrow> u64 \<Rightarrow> instant \<Rightarrow> (u64 \<times> vardiff) option" where
  "suggest vd difficulty now =
     map_option (\<lambda>clamped. (clamped, vd\<lparr>vd_current := clamped, vd_last_change := now, vd_shares_since_change := 0\<rparr>))
       (clamp_u64 difficulty (vc_min_difficulty (vd_cfg vd)) (vc_max_difficulty (vd_cfg vd)))"

definition vd_decay :: "(f64 \<Rightarrow> f64) \<Rightarrow> vardiff \<Rightarrow> f64 \<Rightarrow> instant \<Rightarrow> vardiff" where
  "vd_decay ex vd credit now =
     (let tdiff = sane_tdiff now (vd_last_decay vd) in
      vd\<lparr>vd_last_decay := now,
         vd_fast := decay_time ex (vd_fast vd) credit tdiff (vd_fast_secs vd),
         vd_slow := decay_time ex (vd_slow vd) credit tdiff (vd_slow_secs vd)\<rparr>)"

definition record_share :: "(f64 \<Rightarrow> f64) \<Rightarrow> vardiff \<Rightarrow> u64 \<Rightarrow> instant \<Rightarrow> vardiff" where
  "record_share ex vd credit now =
     (let vd = vd\<lparr>vd_first_share := Some (case vd_first_share vd of Some t \<Rightarrow> t | None \<Rightarrow> now)\<rparr>;
          vd = vd_decay ex vd (f64_of_word credit) now
      in vd\<lparr>vd_shares_since_change := vd_shares_since_change vd + 1\<rparr>)"

definition open_window :: "vardiff \<Rightarrow> instant \<Rightarrow> vardiff" where
  "open_window vd now = vd\<lparr>vd_last_change := now, vd_shares_since_change := 0\<rparr>"

definition optimal_difficulty :: "(f64 \<Rightarrow> f64) \<Rightarrow> vardiff \<Rightarrow> bool \<Rightarrow> instant \<Rightarrow> instant \<Rightarrow> f64" where
  "optimal_difficulty ex vd hit_share_trigger first_share now =
     (let (rate, window) = (if hit_share_trigger then (vd_fast vd, vd_fast_secs vd) else (vd_slow vd, vd_slow_secs vd));
          age = sane_tdiff now first_share;
          dsps = f_div rate (time_bias ex age window)
      in f_mul dsps (f64_of_word (vc_target_share_time_secs (vd_cfg vd))))"

definition retarget_ceiling :: "vardiff_config \<Rightarrow> u64 option \<Rightarrow> u64" where
  "retarget_ceiling cfg network_difficulty =
     max (case network_difficulty of Some network \<Rightarrow> min (vc_max_difficulty cfg) network
          | None \<Rightarrow> vc_max_difficulty cfg) (vc_min_difficulty cfg)"

definition retarget_value :: "vardiff_config \<Rightarrow> u64 \<Rightarrow> f64 \<Rightarrow> u64 option \<Rightarrow> u64 option" where
  "retarget_value cfg current optimal network_difficulty =
     (let ceiling = retarget_ceiling cfg network_difficulty;
          factor = vc_max_retarget_factor cfg;
          cur = f64_of_word current in
      Option.bind (f_clamp optimal (f_div cur factor) (f_mul cur factor)) (\<lambda>x.
      map_option (\<lambda>y. f_to_u64 (f_round y))
        (f_clamp x (f64_of_word (vc_min_difficulty cfg)) (f64_of_word ceiling))))"

definition check_retarget ::
  "(f64 \<Rightarrow> f64) \<Rightarrow> vardiff \<Rightarrow> instant \<Rightarrow> u64 option \<Rightarrow> (u64 option \<times> vardiff) option" where
  "check_retarget ex vd0 now network_difficulty =
     (let vd = vd_decay ex vd0 (Fin 0) now; cfg = vd_cfg vd in
      case vd_first_share vd of
        None \<Rightarrow> Some (None, vd)
      | Some first_share \<Rightarrow>
          let since_change = as_secs_f64 (now - vd_last_change vd);
              hit_share_trigger = (vd_retarget_shares vd \<le> vd_shares_since_change vd) in
          if \<not> hit_share_trigger \<and> f_lt since_change (f64_of_word (vc_retarget_interval_secs cfg))
          then Some (None, vd)
          else
            let optimal = optimal_difficulty ex vd hit_share_trigger first_share now;
                ratio = f_div optimal (f64_of_word (vd_current vd)) in
            if f_lt (vc_deadzone_low cfg) ratio \<and> f_lt ratio (vc_deadzone_high cfg)
            then Some (None, open_window vd now)
            else
              map_option (\<lambda>new_diff.
                if new_diff < vd_current vd \<and> vd_shares_since_change vd \<le> 1
                then (None, vd\<lparr>vd_last_change := now\<rparr>)
                else if new_diff = vd_current vd then (None, open_window vd now)
                else (Some new_diff, open_window (vd\<lparr>vd_current := new_diff\<rparr>) now))
              (retarget_value cfg (vd_current vd) optimal network_difficulty))"

section \<open>Runs of a session\<close>

datatype vd_event = Suggest u64 instant | Share u64 instant | Retarget instant "u64 option"

fun vd_step :: "(f64 \<Rightarrow> f64) \<Rightarrow> vardiff \<Rightarrow> vd_event \<Rightarrow> (u64 option \<times> vardiff) option" where
  "vd_step ex vd (Suggest d now) = map_option (\<lambda>(c, vd'). (Some c, vd')) (suggest vd d now)"
| "vd_step ex vd (Share credit now) = Some (None, record_share ex vd credit now)"
| "vd_step ex vd (Retarget now net) = check_retarget ex vd now net"

fun event_network :: "vd_event \<Rightarrow> u64 option" where
  "event_network (Retarget now net) = net"
| "event_network e = None"

text \<open>The difficulties sent to the miner, each with the network difficulty it was computed under.\<close>

fun vd_run :: "(f64 \<Rightarrow> f64) \<Rightarrow> vardiff \<Rightarrow> vd_event list \<Rightarrow> ((u64 option \<times> u64) list \<times> vardiff) option" where
  "vd_run ex vd [] = Some ([], vd)"
| "vd_run ex vd (e # es) =
     Option.bind (vd_step ex vd e) (\<lambda>(sent, vd').
     map_option (\<lambda>(outs, vd''). ((case sent of Some d \<Rightarrow> [(event_network e, d)] | None \<Rightarrow> []) @ outs, vd''))
       (vd_run ex vd' es))"

section \<open>Rates stay numbers\<close>

lemma representable_milli: "1 / 2 ^ 10 \<le> rnd (1 / 1000)" "f64_of (1 / 1000) = Fin (rnd (1 / 1000))"
proof -
  show "1 / 2 ^ 10 \<le> rnd (1 / 1000)"
    using representable_near_1(1) [of 10] by (intro rnd_ge_representable) simp_all
qed (rule f64_of_Fin, simp)

lemma sane_tdiff_ge: "f_le (Fin (1 / 2 ^ 10)) (sane_tdiff a b)"
proof -
  have "f_le (f64_of (1 / 1000)) (sane_tdiff a b)"
    unfolding sane_tdiff_def by (rule f_max_ge) (simp add: representable_milli)
  moreover have "f_le (Fin (1 / 2 ^ 10)) (f64_of (1 / 1000))" using representable_milli by simp
  ultimately show ?thesis by (rule f_le_trans [rotated])
qed

text \<open>Over a window of at most \<open>2^27\<close> seconds the proportion of a step is positive.\<close>

lemma prop_positive:
  assumes "exp_ok ex" "f_le (Fin (1 / 2 ^ 10)) fsecs" "0 < i" "i \<le> 2 ^ 27"
  shows "\<exists>x p. f_min (f_div fsecs (Fin i)) (Fin 36) = Fin x \<and> prop_of ex (Fin x) = Fin p \<and> 0 < p \<and> p \<le> 1"
proof -
  have "1 / 2 ^ 37 = (1 / 2 ^ 10) / (2 ^ 27 :: rat)" by simp
  also have "\<dots> \<le> (1 / 2 ^ 10) / i" using assms(3,4) by (intro divide_left_mono) simp_all
  finally have le: "1 / 2 ^ 37 \<le> (1 / 2 ^ 10) / i" .
  obtain x where x: "f_min (f_div fsecs (Fin i)) (Fin 36) = Fin x" "1 / 2 ^ 37 \<le> x" "x \<le> 36" "0 \<le> x"
    using dexp_bounds [OF assms(2) _ assms(3) _ le] representable_near_1(1) [of 37] by auto
  obtain p where p: "prop_of ex (Fin x) = Fin p" "p \<le> 1"
    "\<And>k. k \<le> 40 \<Longrightarrow> 1 / 2 ^ k \<le> x \<Longrightarrow> 1 / 2 ^ (k + 2) \<le> p"
    using prop_of_bounds [OF assms(1) x(4,3)] by metis
  have "1 / 2 ^ 39 \<le> p" using p(3) [of 37] x(2) by simp
  then have "0 < p" by (rule less_le_trans [rotated]) simp
  with x p show ?thesis by blast
qed

lemma f_div_nonneg: "f_le (Fin 0) x \<Longrightarrow> 0 < y \<Longrightarrow> f_le (Fin 0) (f_div x (Fin y))"
  by (auto simp: f_le_0_cases [of x] f64_of_nonneg) (auto simp: f_le_def)

lemma f_mul_pos_nonneg: "f_le (Fin 0) x \<Longrightarrow> 0 < y \<Longrightarrow> f_le (Fin 0) (f_mul x (Fin y))"
  by (auto simp: f_le_0_cases [of x] f64_of_nonneg) (auto simp: f_le_def)

lemma decay_time_nonneg:
  assumes "exp_ok ex" "f_le (Fin (1 / 2 ^ 10)) fsecs" "0 < i" "i \<le> 2 ^ 27" "f_le (Fin 0) f" "0 \<le> a"
  shows "f_le (Fin 0) (decay_time ex f (Fin a) fsecs (Fin i))"
proof -
  obtain x p where xp: "f_min (f_div fsecs (Fin i)) (Fin 36) = Fin x" "prop_of ex (Fin x) = Fin p" "0 < p" "p \<le> 1"
    using prop_positive [OF assms(1-4)] by blast
  define t where "t = rnd (1 + p)"
  have t: "f64_of (1 + p) = Fin t" "1 \<le> t"
    using xp f64_of_Fin [of "1 + p"] rnd_ge_representable [of 1 "1 + p"] by (auto simp: t_def)
  have "f_le (Fin 0) (f_div (Fin a) fsecs)"
    using assms(2,6) f_le_not_NaN [OF assms(2)] by (cases fsecs) (auto simp: f64_of_nonneg f_le_def [of _ "Inf _"])
  then have "f_le (Fin 0) (f_mul (f_div (Fin a) fsecs) (Fin p))" using xp(3) by (rule f_mul_pos_nonneg)
  then have "f_le (Fin 0) (f_add f (f_mul (f_div (Fin a) fsecs) (Fin p)))" using assms(5) by (rule f_add_nonneg [rotated])
  then have "f_le (Fin 0) (f_div (f_add f (f_mul (f_div (Fin a) fsecs) (Fin p))) (Fin t))"
    using t(2) by (intro f_div_nonneg) simp_all
  then show ?thesis
    unfolding decay_time_def xp(1) Let_def prop_of_def [symmetric] xp(2) using t(1) assms(5) by simp
qed

section \<open>The invariant\<close>

definition vd_cfg_ok :: "vardiff_config \<Rightarrow> bool" where
  "vd_cfg_ok cfg \<longleftrightarrow> validate_vardiff cfg = Inr () \<and> unat (vc_max_difficulty cfg) \<le> 2 ^ 53
     \<and> unat (vc_target_share_time_secs cfg) \<le> 2 ^ 20"

definition vd_inv :: "vardiff_config \<Rightarrow> vardiff \<Rightarrow> bool" where
  "vd_inv cfg vd \<longleftrightarrow> vd_cfg vd = cfg \<and> f_le (Fin 0) (vd_fast vd) \<and> f_le (Fin 0) (vd_slow vd)
     \<and> (\<exists>i. vd_fast_secs vd = Fin i \<and> 0 < i \<and> i \<le> 2 ^ 27) \<and> (\<exists>i. vd_slow_secs vd = Fin i \<and> 0 < i \<and> i \<le> 2 ^ 27)"

lemma vd_inv_new:
  assumes "vd_cfg_ok cfg"
  shows "vd_inv cfg (vardiff_new cfg d t0)"
proof -
  define n where "n = unat (max (vc_target_share_time_secs cfg) 1)"
  have n: "1 \<le> n" "n \<le> 2 ^ 20"
    using assms unfolding n_def by (auto simp: vd_cfg_ok_def max_def word_le_nat_alt not_le Suc_le_eq)
  have e: "f64_of_word (max (vc_target_share_time_secs cfg) 1) = Fin (of_nat n)"
    unfolding n_def using n by (intro f64_of_u64_exact) (simp add: n_def)
  have mul: "f_mul (Fin (of_nat k)) (Fin (of_nat n)) = Fin (of_nat (k * n))" if "k \<le> 2 ^ 7" for k
  proof -
    have "k * n \<le> 2 ^ 7 * 2 ^ 20" using that n(2) by (rule mult_le_mono)
    then have "k * n \<le> 2 ^ 53" by simp
    from f64_of_nat_exact [OF this] show ?thesis by (simp add: f64_of_nat_def)
  qed
  have le: "k * n \<le> 2 ^ 27" if "k \<le> 2 ^ 7" for k using mult_le_mono [OF that n(2)] by simp
  have "\<exists>i. Fin (of_nat (k * n)) = Fin i \<and> 0 < i \<and> i \<le> 2 ^ 27" if "k \<le> 2 ^ 7" "0 < k" for k
  proof -
    have "(of_nat (k * n) :: rat) \<le> of_nat (2 ^ 27)" using le [OF that(1)] by (simp only: of_nat_le_iff)
    then show ?thesis using that n(1) by (intro exI [of _ "of_nat (k * n)"]) simp
  qed
  from this [of 20] this [of 120] mul [of 20] mul [of 120] show ?thesis
    by (simp add: vd_inv_def vardiff_new_def Let_def e FAST_WINDOW_MULTIPLE_def SLOW_WINDOW_MULTIPLE_def)
qed

lemma vd_decay_inv:
  assumes "exp_ok ex" "vd_inv cfg vd" "0 \<le> a"
  shows "vd_inv cfg (vd_decay ex vd (Fin a) now)"
  using assms(2) decay_time_nonneg [OF assms(1) sane_tdiff_ge _ _ _ assms(3)]
  by (auto simp: vd_inv_def vd_decay_def Let_def)

lemma record_share_inv: "exp_ok ex \<Longrightarrow> vd_inv cfg vd \<Longrightarrow> vd_inv cfg (record_share ex vd c now)"
proof -
  assume a: "exp_ok ex" "vd_inv cfg vd"
  have "vd_inv cfg (vd\<lparr>vd_first_share := f\<rparr>)" for f using a(2) by (simp add: vd_inv_def)
  from vd_decay_inv [OF a(1) this] show ?thesis
    by (auto simp: record_share_def Let_def f64_of_u64_Fin rnd_nonneg vd_inv_def)
qed

lemma optimal_not_NaN:
  assumes "exp_ok ex" "vd_inv cfg vd" "vd_cfg_ok cfg"
  shows "optimal_difficulty ex vd b first now \<noteq> NaN"
proof -
  have bias: "\<exists>p. time_bias ex (sane_tdiff now first) (Fin i) = Fin p \<and> 0 < p" if "0 < i" "i \<le> 2 ^ 27" for i
    using prop_positive [OF assms(1) sane_tdiff_ge that]
    by (metis prop_of_def time_bias_def)
  have "0 < unat (vc_target_share_time_secs cfg)"
    using assms(3) by (auto simp: vd_cfg_ok_def validate_vardiff_def unat_gt_0 split: if_splits)
  moreover have "f64_of_word (vc_target_share_time_secs cfg) = Fin (of_nat (unat (vc_target_share_time_secs cfg)))"
    using assms(3) by (intro f64_of_u64_exact) (simp add: vd_cfg_ok_def)
  ultimately obtain t where t: "f64_of_word (vc_target_share_time_secs cfg) = Fin t" "0 < t"
    by (metis of_nat_0_less_iff)
  have "f_le (Fin 0) (f_mul (f_div r (time_bias ex (sane_tdiff now first) w)) (Fin t))"
    if "f_le (Fin 0) r" "\<exists>i. w = Fin i \<and> 0 < i \<and> i \<le> 2 ^ 27" for r w
    using that bias t(2) by (metis f_div_nonneg f_mul_pos_nonneg)
  then have "f_le (Fin 0) (optimal_difficulty ex vd b first now)"
    using assms(2) t(1) by (auto simp: optimal_difficulty_def vd_inv_def)
  then show ?thesis using f_le_not_NaN by blast
qed

lemma vd_cfg_okD:
  assumes "vd_cfg_ok cfg"
  obtains F where "vc_max_retarget_factor cfg = Fin F" "1 < F"
    "vc_min_difficulty cfg \<le> vc_max_difficulty cfg" "0 < vc_min_difficulty cfg"
    "unat (vc_max_difficulty cfg) \<le> 2 ^ 53"
proof -
  from assms have "is_finite (vc_max_retarget_factor cfg)" "\<not> f_le (vc_max_retarget_factor cfg) (Fin 1)"
    "vc_min_difficulty cfg \<le> vc_max_difficulty cfg" "vc_min_difficulty cfg \<noteq> 0"
    "unat (vc_max_difficulty cfg) \<le> 2 ^ 53"
    by (auto simp: vd_cfg_ok_def validate_vardiff_def not_less split: if_splits)
  then show ?thesis using that by (auto simp: is_finite_iff word_neq_0_conv)
qed

lemma round_in_range:
  assumes "f_le (f64_of_word (lo :: u64)) y" "f_le y (f64_of_word hi)" "unat lo \<le> unat hi" "unat hi \<le> 2 ^ 53"
  shows "lo \<le> f_to_u64 (f_round y) \<and> f_to_u64 (f_round y) \<le> hi"
proof -
  have ex: "f64_of_word w = Fin (of_int (int (unat w)))" if "unat w \<le> 2 ^ 53" for w :: u64
    using f64_of_u64_exact [OF that] by simp
  have lh: "f64_of_word lo = Fin (of_int (int (unat lo)))" "f64_of_word hi = Fin (of_int (int (unat hi)))"
    using ex assms(3,4) by simp_all
  obtain r where r: "y = Fin r" "of_int (int (unat lo)) \<le> r" "r \<le> of_int (int (unat hi))"
    using assms(1,2) unfolding lh by (cases y) (auto simp: f_le_def)
  then have ra: "of_nat (unat lo) \<le> round_away r" "round_away r \<le> of_nat (unat hi)"
    using round_away_mono [OF r(2)] round_away_mono [OF r(3)] by (simp_all only: round_away_int)
  have id: "f_to_u64 (Fin (of_nat (unat w))) = w" for w :: u64
  proof -
    have "word_of_nat (unat w) = w" by (simp add: of_nat_unat)
    then show ?thesis using f_to_u64_int [of "unat w"] unat_lt [of w] by (simp del: f_to_u64.simps)
  qed
  show ?thesis
    using f_to_u64_mono [OF ra(1)] f_to_u64_mono [OF ra(2)] unfolding id r(1) by (simp add: word_le_nat_alt)
qed

lemma retarget_ceiling_bounds:
  assumes "vd_cfg_ok cfg"
  shows "vc_min_difficulty cfg \<le> retarget_ceiling cfg net" "retarget_ceiling cfg net \<le> vc_max_difficulty cfg"
proof -
  obtain le: "vc_min_difficulty cfg \<le> vc_max_difficulty cfg" using vd_cfg_okD [OF assms] by metis
  show "vc_min_difficulty cfg \<le> retarget_ceiling cfg net" by (simp add: retarget_ceiling_def)
  show "retarget_ceiling cfg net \<le> vc_max_difficulty cfg"
    using le by (cases net) (simp_all add: retarget_ceiling_def)
qed

lemma retarget_value_bounds:
  assumes "vd_cfg_ok cfg" "optimal \<noteq> NaN"
  shows "\<exists>d. retarget_value cfg current optimal net = Some d
           \<and> vc_min_difficulty cfg \<le> d \<and> d \<le> retarget_ceiling cfg net"
proof -
  obtain F where F: "vc_max_retarget_factor cfg = Fin F" "1 < F" "unat (vc_max_difficulty cfg) \<le> 2 ^ 53"
    using vd_cfg_okD [OF assms(1)] by metis
  note ceil = retarget_ceiling_bounds [OF assms(1), of net]
  obtain c where c: "f64_of_word current = Fin c" "0 \<le> c"
    using f64_of_u64_Fin [of current] rnd_nonneg [of "of_nat (unat current)"] by auto
  have "c / F \<le> c" "c \<le> c * F" using F(2) c(2) by (simp_all add: pos_divide_le_eq mult_le_cancel_left1)
  then have "f_le (f64_of (c / F)) (f64_of (c * F))" by (intro f64_of_mono) simp
  then have "f_le (f_div (Fin c) (Fin F)) (f_mul (Fin c) (Fin F))" using F(2) by simp
  then obtain x where x: "f_clamp optimal (f_div (Fin c) (Fin F)) (f_mul (Fin c) (Fin F)) = Some x"
    using f_clamp_total by blast
  have nx: "x \<noteq> NaN" using f_clamp_bounds [OF x assms(2)] f_le_not_NaN by blast
  have "f_le (f64_of_word (vc_min_difficulty cfg)) (f64_of_word (retarget_ceiling cfg net))"
    using ceil(1) unfolding f64_of_word_def by (intro f64_of_nat_mono) (simp add: word_le_nat_alt)
  then obtain y where y:
    "f_clamp x (f64_of_word (vc_min_difficulty cfg)) (f64_of_word (retarget_ceiling cfg net)) = Some y"
    using f_clamp_total by blast
  from round_in_range [OF f_clamp_bounds [OF y nx]] ceil F(3)
  have "vc_min_difficulty cfg \<le> f_to_u64 (f_round y) \<and> f_to_u64 (f_round y) \<le> retarget_ceiling cfg net"
    by (simp add: word_le_nat_alt)
  then show ?thesis using x y F(1) c(1) by (simp add: retarget_value_def Let_def)
qed

lemma check_retarget_bounds:
  assumes "exp_ok ex" "vd_inv cfg vd" "vd_cfg_ok cfg"
  shows "\<exists>sent vd'. check_retarget ex vd now net = Some (sent, vd') \<and> vd_inv cfg vd'
     \<and> (\<forall>d. sent = Some d \<longrightarrow> vc_min_difficulty cfg \<le> d \<and> d \<le> retarget_ceiling cfg net \<and> vd_current vd' = d)"
proof -
  define vd1 where "vd1 = vd_decay ex vd (Fin 0) now"
  have inv: "vd_inv cfg vd1" unfolding vd1_def by (rule vd_decay_inv [OF assms(1,2)]) simp
  then have cfg: "vd_cfg vd1 = cfg" by (simp add: vd_inv_def)
  have upd: "vd_inv cfg (open_window vd1 now)" "vd_inv cfg (vd1\<lparr>vd_last_change := now\<rparr>)"
    "vd_inv cfg (open_window (vd1\<lparr>vd_current := d\<rparr>) now)" for d
    using inv by (auto simp: vd_inv_def open_window_def)
  have val: "\<exists>d. retarget_value cfg (vd_current vd1) (optimal_difficulty ex vd1 b first now) net = Some d
      \<and> vc_min_difficulty cfg \<le> d \<and> d \<le> retarget_ceiling cfg net" for b first
    by (rule retarget_value_bounds [OF assms(3) optimal_not_NaN [OF assms(1) inv assms(3)]])
  have retargeted: "\<exists>sent vd'. map_option (\<lambda>new_diff.
        if new_diff < vd_current vd1 \<and> vd_shares_since_change vd1 \<le> 1 then (None, vd1\<lparr>vd_last_change := now\<rparr>)
        else if new_diff = vd_current vd1 then (None, open_window vd1 now)
        else (Some new_diff, open_window (vd1\<lparr>vd_current := new_diff\<rparr>) now))
      (retarget_value cfg (vd_current vd1) (optimal_difficulty ex vd1 b first now) net) = Some (sent, vd')
      \<and> vd_inv cfg vd' \<and> (\<forall>d. sent = Some d \<longrightarrow>
          vc_min_difficulty cfg \<le> d \<and> d \<le> retarget_ceiling cfg net \<and> vd_current vd' = d)" for b first
  proof -
    obtain d where "retarget_value cfg (vd_current vd1) (optimal_difficulty ex vd1 b first now) net = Some d"
      "vc_min_difficulty cfg \<le> d" "d \<le> retarget_ceiling cfg net" using val by blast
    then show ?thesis using upd by (simp add: open_window_def)
  qed
  show ?thesis
  proof (cases "vd_first_share vd1")
    case None
    then show ?thesis using inv by (simp add: check_retarget_def vd1_def [symmetric])
  next
    case (Some first)
    then show ?thesis
      using inv upd(1) retargeted [of _ first] unfolding check_retarget_def vd1_def [symmetric] Let_def cfg
      by simp
  qed
qed

lemma suggest_bounds:
  assumes "vd_inv cfg vd" "vd_cfg_ok cfg"
  shows "\<exists>c vd'. suggest vd d now = Some (c, vd') \<and> vd_inv cfg vd'
           \<and> vc_min_difficulty cfg \<le> c \<and> c \<le> vc_max_difficulty cfg \<and> vd_current vd' = c"
proof -
  obtain "vc_min_difficulty cfg \<le> vc_max_difficulty cfg" using vd_cfg_okD [OF assms(2)] by metis
  then show ?thesis using assms(1) by (auto simp: suggest_def clamp_u64_def vd_inv_def)
qed

lemma vd_step_bounds:
  assumes "exp_ok ex" "vd_inv cfg vd" "vd_cfg_ok cfg"
  shows "\<exists>sent vd'. vd_step ex vd e = Some (sent, vd') \<and> vd_inv cfg vd'
     \<and> (\<forall>d. sent = Some d \<longrightarrow> vc_min_difficulty cfg \<le> d \<and> d \<le> retarget_ceiling cfg (event_network e))"
proof (cases e)
  case (Suggest d now)
  have "retarget_ceiling cfg None = vc_max_difficulty cfg"
    using retarget_ceiling_bounds [OF assms(3), of None] by (simp add: retarget_ceiling_def)
  then show ?thesis using suggest_bounds [OF assms(2,3), of d now] Suggest by auto
next
  case (Share c now)
  then show ?thesis using record_share_inv [OF assms(1,2)] by simp
next
  case (Retarget now net)
  then show ?thesis using check_retarget_bounds [OF assms, of now net] by fastforce
qed

text \<open>
  C29: Under a validated configuration (difficulties up to \<open>2^53\<close>, share times up to \<open>2^20\<close>
  seconds) and any initial difficulty, no sequence of shares, hints and retarget checks makes
  the controller panic, and every difficulty it sends is between the configured minimum and
  the maximum, and not above the network's unless the minimum is.
\<close>

theorem vardiff_bounds:
  assumes "exp_ok ex" "vd_cfg_ok cfg"
  shows "\<exists>outs vd'. vd_run ex (vardiff_new cfg initial t0) es = Some (outs, vd')
     \<and> (\<forall>(net, d) \<in> set outs. vc_min_difficulty cfg \<le> d \<and> d \<le> vc_max_difficulty cfg
          \<and> (\<forall>n. net = Some n \<longrightarrow> d \<le> max n (vc_min_difficulty cfg)))"
proof -
  have "\<exists>outs vd'. vd_run ex vd es = Some (outs, vd')
      \<and> (\<forall>(net, d) \<in> set outs. vc_min_difficulty cfg \<le> d \<and> d \<le> retarget_ceiling cfg net)"
    if "vd_inv cfg vd" for vd
    using that
  proof (induction es arbitrary: vd)
    case (Cons e es)
    from vd_step_bounds [OF assms(1) Cons.prems assms(2), of e] obtain sent vd' where
      st: "vd_step ex vd e = Some (sent, vd')" "vd_inv cfg vd'"
      "\<forall>d. sent = Some d \<longrightarrow> vc_min_difficulty cfg \<le> d \<and> d \<le> retarget_ceiling cfg (event_network e)" by blast
    from Cons.IH [OF st(2)] obtain outs vd'' where
      "vd_run ex vd' es = Some (outs, vd'')"
      "\<forall>(net, d) \<in> set outs. vc_min_difficulty cfg \<le> d \<and> d \<le> retarget_ceiling cfg net" by blast
    with st show ?case by (cases sent) auto
  qed simp
  from this [OF vd_inv_new [OF assms(2)]] obtain outs vd' where
    run: "vd_run ex (vardiff_new cfg initial t0) es = Some (outs, vd')"
    "\<forall>(net, d) \<in> set outs. vc_min_difficulty cfg \<le> d \<and> d \<le> retarget_ceiling cfg net" by blast
  have "d \<le> vc_max_difficulty cfg \<and> (\<forall>n. net = Some n \<longrightarrow> d \<le> max n (vc_min_difficulty cfg))"
    if "d \<le> retarget_ceiling cfg net" for net d
    using that retarget_ceiling_bounds(2) [OF assms(2), of net]
    by (auto simp: retarget_ceiling_def le_max_iff_disj)
  with run show ?thesis by (intro exI [of _ outs] exI [of _ vd']) auto
qed

lemma sample_vardiff_ok: "vd_cfg_ok (c_vardiff sample_config)"
  by (simp add: vd_cfg_ok_def sample_config_def validate_vardiff_def f_ge_def word_less_nat_alt)

theorem vardiff_bounds_witness:
  "\<exists>outs vd'. vd_run exp_sample (vardiff_new (c_vardiff sample_config) 1024 0)
       [Suggest 1 5, Share 1024 6, Retarget (10 ^ 12) (Some 7)] = Some (outs, vd')
     \<and> (\<forall>(net, d) \<in> set outs. vc_min_difficulty (c_vardiff sample_config) \<le> d)"
proof -
  obtain outs vd' where "vd_run exp_sample (vardiff_new (c_vardiff sample_config) 1024 0)
       [Suggest 1 5, Share 1024 6, Retarget (10 ^ 12) (Some 7)] = Some (outs, vd')"
     "\<forall>(net, d) \<in> set outs. vc_min_difficulty (c_vardiff sample_config) \<le> d
        \<and> d \<le> vc_max_difficulty (c_vardiff sample_config)
        \<and> (\<forall>n. net = Some n \<longrightarrow> d \<le> max n (vc_min_difficulty (c_vardiff sample_config)))"
    using vardiff_bounds [OF exp_sample_ok sample_vardiff_ok] by blast
  then show ?thesis by (intro exI [of _ outs] exI [of _ vd'] conjI) (simp_all only: split_beta, blast)
qed

end
