(* ===== verification/Store.thy ===== *)
theory Store
  imports Hashrate "HOL-Library.AList"
begin

text \<open>
  The persistent store behind the statistics (\<open>src/stats.rs\<close>): the records handed to the writer
  thread, the tables they update, and the writer's retry loop.  A table is an association list
  in insertion order, a statement is its effect on the table, and a statement SQLite refuses
  (disk, lock, constraint) makes the write fail with its transaction rolled back.  When the
  disk fails is not decided by the model: every write takes two flags, for its transaction
  and for the statements after it.  SQLite integers are natural numbers; a \<open>u64\<close> from \<open>2^63\<close>
  on does not bind as one.
\<close>

declare of_nat_unat [simp del]

section \<open>Records\<close>

record pending_block =
  pb_hash :: string
  pb_height :: u64
  pb_worker :: string
  pb_payout :: string
  pb_found_ts :: u64
  pb_won_at_submit :: bool

datatype block_resolution = Confirmed | Orphaned | Abandoned

fun resolution_label :: "block_resolution \<Rightarrow> string" where
  "resolution_label Confirmed = ''confirmed''"
| "resolution_label Orphaned = ''orphaned''"
| "resolution_label Abandoned = ''abandoned''"

definition BLOCK_STATUS_PENDING :: string where
  "BLOCK_STATUS_PENDING = ''pending''"

record hashrate_windows =
  one_minute :: f64
  five_minutes :: f64
  ten_minutes :: f64
  one_hour :: f64
  three_hours :: f64
  six_hours :: f64
  twenty_four_hours :: f64

definition windows_default :: hashrate_windows where
  "windows_default = \<lparr> one_minute = Fin 0, five_minutes = Fin 0, ten_minutes = Fin 0, one_hour = Fin 0,
     three_hours = Fin 0, six_hours = Fin 0, twenty_four_hours = Fin 0 \<rparr>"

definition windows_add :: "hashrate_windows \<Rightarrow> hashrate_windows \<Rightarrow> hashrate_windows" where
  "windows_add a b =
     \<lparr> one_minute = f_add (one_minute a) (one_minute b), five_minutes = f_add (five_minutes a) (five_minutes b),
       ten_minutes = f_add (ten_minutes a) (ten_minutes b), one_hour = f_add (one_hour a) (one_hour b),
       three_hours = f_add (three_hours a) (three_hours b), six_hours = f_add (six_hours a) (six_hours b),
       twenty_four_hours = f_add (twenty_four_hours a) (twenty_four_hours b) \<rparr>"

definition from_windows :: "f64 list \<Rightarrow> hashrate_windows" where
  "from_windows hps =
     \<lparr> one_minute = hps ! 0, five_minutes = hps ! 1, ten_minutes = hps ! 2, one_hour = hps ! 3,
       three_hours = hps ! 4, six_hours = hps ! 5, twenty_four_hours = hps ! 6 \<rparr>"

definition to_windows :: "hashrate_windows \<Rightarrow> f64 list" where
  "to_windows w = [one_minute w, five_minutes w, ten_minutes w, one_hour w, three_hours w, six_hours w, twenty_four_hours w]"

record ledger_entry =
  le_worker :: string
  le_work :: u64
  le_accepted :: u64
  le_rejected :: u64

record snapshot_write =
  sw_history_ts :: u64
  sw_state_ts :: u64
  sw_rates :: hashrate_windows
  sw_worker_rates :: "(string \<times> hashrate_windows) list"
  sw_accepted :: u64
  sw_rejected :: u64
  sw_round_reject_reasons :: "(string \<times> u64) list"
  sw_round_work :: u64
  sw_round_epoch :: u64
  sw_share_rates :: "f64 list"

datatype store_write =
    BestShare u64
  | BestHashrate f64
  | WorkerBestShare string u64
  | Snapshot snapshot_write
  | Ledger u64 "ledger_entry list"
  | RoundReset u64 u64
  | PruneWorkerBestShares nat
  | BlockFound pending_block
  | BlockResolved string block_resolution u64
  | Flush

definition MAX_WRITE_BACKLOG :: nat where "MAX_WRITE_BACKLOG = 10000"
definition MAX_LEDGER_WORKERS :: nat where "MAX_LEDGER_WORKERS = 10000"
definition MAX_WORKER_BEST_SHARES :: nat where "MAX_WORKER_BEST_SHARES = 512"
definition LEDGER_INTERVAL_SECS :: nat where "LEDGER_INTERVAL_SECS = 60"
definition LEDGER_FINE_RETENTION_SECS :: nat where "LEDGER_FINE_RETENTION_SECS = 8 * 86400"
definition FINE_HISTORY_RETENTION_SECS :: nat where "FINE_HISTORY_RETENTION_SECS = 48 * 3600"

section \<open>Tables\<close>

record round_row =
  rr_accepted :: nat
  rr_rejected :: nat
  rr_work :: nat
  rr_since_ts :: nat
  rr_best_share :: nat
  rr_best_hashrate :: f64

record block_row =
  br_block :: pending_block
  br_status :: string
  br_resolved_ts :: "u64 option"

record ledger_row =
  lr_work :: nat
  lr_accepted :: nat
  lr_rejected :: nat

type_synonym interval_table = "((nat \<times> nat) \<times> ledger_row) list"

record db =
  db_round :: round_row
  db_reject_reasons :: "(string \<times> nat) list"
  db_worker_best :: "(string \<times> nat) list"
  db_found :: "(string \<times> block_row) list"
  db_users :: "(string \<times> nat) list"
  db_workers :: "((nat \<times> string) \<times> nat) list"
  db_minutes :: interval_table
  db_hours :: interval_table
  db_hashrate_history :: "(nat \<times> f64 list) list"
  db_worker_state :: "(string \<times> nat \<times> f64 list) list"
  db_share_rate_history :: "(nat \<times> f64 list) list"
  db_share_rate_state :: "(nat \<times> f64 list) option"

record writer_state =
  ws_round_epoch :: u64
  ws_worker_ids :: "(string \<times> nat) list"

definition sql_int :: "u64 \<Rightarrow> nat option" where
  "sql_int w = (if unat w < 2 ^ 63 then Some (unat w) else None)"

text \<open>A NaN binds as \<open>NULL\<close>, which a \<open>NOT NULL\<close> column refuses.\<close>

definition not_null :: "f64 list \<Rightarrow> bool" where
  "not_null xs \<longleftrightarrow> NaN \<notin> set xs"

section \<open>The ledger\<close>

definition row_add :: "ledger_row \<Rightarrow> ledger_row \<Rightarrow> ledger_row" where
  "row_add a b = \<lparr> lr_work = lr_work a + lr_work b, lr_accepted = lr_accepted a + lr_accepted b,
     lr_rejected = lr_rejected a + lr_rejected b \<rparr>"

text \<open>\<open>INSERT ... ON CONFLICT DO UPDATE SET work = work + excluded.work, ...\<close>\<close>

definition accumulate :: "(nat \<times> nat) \<Rightarrow> ledger_row \<Rightarrow> interval_table \<Rightarrow> interval_table" where
  "accumulate k row rows =
     AList.update k (case map_of rows k of None \<Rightarrow> row | Some old \<Rightarrow> row_add old row) rows"

fun position :: "('a \<Rightarrow> bool) \<Rightarrow> 'a list \<Rightarrow> nat option" where
  "position p [] = None"
| "position p (x # xs) = (if p x then Some 0 else map_option Suc (position p xs))"

text \<open>Row ids are one more than the position: both tables are only ever inserted into.\<close>

definition user_id :: "db \<Rightarrow> string \<Rightarrow> nat option" where
  "user_id d address = map_option Suc (position (\<lambda>r. fst r = address) (db_users d))"

definition worker_row_id :: "db \<Rightarrow> string \<Rightarrow> string \<Rightarrow> nat option" where
  "worker_row_id d address lbl =
     Option.bind (user_id d address) (\<lambda>u.
       map_option Suc (position (\<lambda>r. fst r = (u, lbl)) (db_workers d)))"

definition split_worker :: "string \<Rightarrow> string \<times> string" where
  "split_worker name = (case split_once CHR ''.'' name of Some (address, lbl) \<Rightarrow> (address, lbl) | None \<Rightarrow> (name, []))"

definition insert_user :: "db \<Rightarrow> string \<Rightarrow> nat \<Rightarrow> db" where
  "insert_user d address now =
     (if address = [] \<or> user_id d address \<noteq> None then d
      else d\<lparr>db_users := db_users d @ [(address, now)]\<rparr>)"

definition insert_worker :: "db \<Rightarrow> string \<Rightarrow> string \<Rightarrow> nat \<Rightarrow> db" where
  "insert_worker d address lbl now =
     (case user_id d address of
        None \<Rightarrow> d
      | Some u \<Rightarrow> if (u, lbl) \<in> fst ` set (db_workers d) then d
                  else d\<lparr>db_workers := db_workers d @ [((u, lbl), now)]\<rparr>)"

text \<open>\<open>None\<close> is an error; otherwise the id, absent once the table is full.\<close>

definition resolve_worker_id :: "db \<Rightarrow> string \<Rightarrow> nat \<Rightarrow> (nat option \<times> db) option" where
  "resolve_worker_id d name now =
     (let (address, lbl) = split_worker name in
      case worker_row_id d address lbl of
        Some i \<Rightarrow> Some (Some i, d)
      | None \<Rightarrow>
          if MAX_LEDGER_WORKERS \<le> length (db_workers d) then Some (None, d)
          else
            let d = insert_worker (insert_user d address now) address lbl now in
            case worker_row_id d address lbl of
              None \<Rightarrow> None
            | Some i \<Rightarrow> Some (Some i, d))"

definition entry_row :: "ledger_entry \<Rightarrow> ledger_row option" where
  "entry_row e =
     Option.bind (sql_int (le_work e)) (\<lambda>w. Option.bind (sql_int (le_accepted e)) (\<lambda>a.
     map_option (\<lambda>r. \<lparr> lr_work = w, lr_accepted = a, lr_rejected = r \<rparr>) (sql_int (le_rejected e))))"

text \<open>
  One execution of the prepared upsert: the row must satisfy \<open>CHECK(ts % 60 = 0)\<close> and reference an
  existing worker.
\<close>

definition upsert_minute :: "db \<Rightarrow> nat \<Rightarrow> nat \<Rightarrow> ledger_entry \<Rightarrow> db option" where
  "upsert_minute d i minute_ts e =
     (if minute_ts mod LEDGER_INTERVAL_SECS \<noteq> 0 \<or> i = 0 \<or> length (db_workers d) < i then None
      else map_option (\<lambda>row. d\<lparr>db_minutes := accumulate (i, minute_ts) row (db_minutes d)\<rparr>) (entry_row e))"

fun write_entries ::
  "nat \<Rightarrow> db \<Rightarrow> (string \<times> nat) list \<Rightarrow> ledger_entry list \<Rightarrow> (db \<times> (string \<times> nat) list) option" where
  "write_entries minute_ts d ids [] = Some (d, ids)"
| "write_entries minute_ts d ids (e # es) =
     (case map_of ids (le_worker e) of
        Some i \<Rightarrow> Option.bind (upsert_minute d i minute_ts e) (\<lambda>d'. write_entries minute_ts d' ids es)
      | None \<Rightarrow>
          (case resolve_worker_id d (le_worker e) minute_ts of
             None \<Rightarrow> None
           | Some (None, d1) \<Rightarrow> write_entries minute_ts d1 ids es
           | Some (Some i, d1) \<Rightarrow>
               Option.bind (upsert_minute d1 i minute_ts e) (\<lambda>d'.
                 write_entries minute_ts d' (AList.update (le_worker e) i ids) es)))"

definition write_ledger_minute ::
  "bool \<Rightarrow> db \<Rightarrow> u64 \<Rightarrow> ledger_entry list \<Rightarrow> (string \<times> nat) list \<Rightarrow> (db \<times> (string \<times> nat) list) option" where
  "write_ledger_minute fault d minute_ts entries ids =
     (if entries = [] then Some (d, ids)
      else if fault then None
      else Option.bind (sql_int minute_ts) (\<lambda>ts. write_entries ts d ids entries))"

definition hour_of :: "nat \<Rightarrow> nat" where
  "hour_of ts = ts div 3600 * 3600"

text \<open>\<open>SELECT worker_id, hour, SUM(...) ... WHERE ts < cutoff GROUP BY worker_id, hour\<close>.\<close>

definition hourly_sums :: "nat \<Rightarrow> interval_table \<Rightarrow> interval_table" where
  "hourly_sums cutoff rows =
     foldl (\<lambda>acc ((w, ts), row). accumulate (w, hour_of ts) row acc) [] (filter (\<lambda>((w, ts), _). ts < cutoff) rows)"

definition roll_up_ledger :: "bool \<Rightarrow> db \<Rightarrow> u64 \<Rightarrow> db" where
  "roll_up_ledger fault d now =
     (let cutoff = hour_of (unat now - LEDGER_FINE_RETENTION_SECS);
          due = filter (\<lambda>((w, ts), _). ts < cutoff) (db_minutes d) in
      if fault \<or> due = [] then d
      else d\<lparr>db_hours := foldl (\<lambda>hours (k, row). accumulate k row hours) (db_hours d) (hourly_sums cutoff (db_minutes d)),
             db_minutes := filter (\<lambda>((w, ts), _). \<not> ts < cutoff) (db_minutes d)\<rparr>)"

section \<open>The other writes\<close>

definition apply_round_reset :: "db \<Rightarrow> nat \<Rightarrow> db" where
  "apply_round_reset d since_ts =
     d\<lparr>db_round := \<lparr> rr_accepted = 0, rr_rejected = 0, rr_work = 0, rr_since_ts = since_ts,
                     rr_best_share = 0, rr_best_hashrate = Fin 0 \<rparr>,
       db_reject_reasons := [], db_worker_best := []\<rparr>"

definition prune_worker_rows :: "db \<Rightarrow> nat \<Rightarrow> db" where
  "prune_worker_rows d keep =
     (let top = map fst (take keep (rev (sort_key snd (db_worker_best d)))) in
      d\<lparr>db_worker_best := filter (\<lambda>r. fst r \<in> set top) (db_worker_best d)\<rparr>)"

definition upsert_max :: "'k \<Rightarrow> nat \<Rightarrow> ('k \<times> nat) list \<Rightarrow> ('k \<times> nat) list" where
  "upsert_max k n rows = AList.update k (case map_of rows k of None \<Rightarrow> n | Some old \<Rightarrow> max old n) rows"

definition merge_round :: "snapshot_write \<Rightarrow> db \<Rightarrow> db option" where
  "merge_round s d =
     Option.bind (sql_int (sw_accepted s)) (\<lambda>acc. Option.bind (sql_int (sw_rejected s)) (\<lambda>rej.
     Option.bind (sql_int (sw_round_work s)) (\<lambda>work.
     if list_all (\<lambda>(_, c). sql_int c \<noteq> None) (sw_round_reject_reasons s) then
       let r = db_round d in
       Some (d\<lparr>db_round := r\<lparr>rr_accepted := max (rr_accepted r) acc, rr_rejected := max (rr_rejected r) rej,
                             rr_work := max (rr_work r) work\<rparr>,
               db_reject_reasons := foldl (\<lambda>rows (reason, c). upsert_max reason (unat c) rows)
                 (db_reject_reasons d) (sw_round_reject_reasons s)\<rparr>)
     else None)))"

definition snapshot_tx :: "snapshot_write \<Rightarrow> bool \<Rightarrow> db \<Rightarrow> db option" where
  "snapshot_tx s stale_round d =
     Option.bind (sql_int (sw_history_ts s)) (\<lambda>history_ts. Option.bind (sql_int (sw_state_ts s)) (\<lambda>state_ts.
     let r = sw_rates s; sr = sw_share_rates s in
     if \<not> not_null [ten_minutes r] \<or> \<not> list_all (\<lambda>(_, w). not_null (to_windows w)) (sw_worker_rates s)
     then None
     else
       Option.bind
         (let d1 = d\<lparr>db_hashrate_history := AList.update history_ts
                [ten_minutes r, one_minute r, five_minutes r, one_hour r, six_hours r, twenty_four_hours r]
                (db_hashrate_history d),
              db_worker_state := map (\<lambda>(w, wr). (w, state_ts, to_windows wr)) (sw_worker_rates s)\<rparr>
          in if stale_round then Some d1 else merge_round s d1) (\<lambda>d2.
       if not_null sr then
         Some (d2\<lparr>db_share_rate_history := AList.update history_ts [sr ! 0, sr ! 1, sr ! 2, sr ! 3, sr ! 5, sr ! 6]
                    (db_share_rate_history d2),
                  db_share_rate_state := Some (state_ts, sr)\<rparr>)
       else None)))"

definition prune_history :: "nat \<Rightarrow> db \<Rightarrow> db" where
  "prune_history cutoff d =
     d\<lparr>db_hashrate_history := filter (\<lambda>r. \<not> fst r < cutoff) (db_hashrate_history d),
       db_share_rate_history := filter (\<lambda>r. \<not> fst r < cutoff) (db_share_rate_history d)\<rparr>"

text \<open>The flag, whether the write succeeded; on failure the database is the rolled-back one.\<close>

definition write_snapshot :: "bool \<times> bool \<Rightarrow> db \<Rightarrow> snapshot_write \<Rightarrow> bool \<Rightarrow> bool \<times> db" where
  "write_snapshot fault d s stale_round =
     (if fst fault then (False, d)
      else case snapshot_tx s stale_round d of
        None \<Rightarrow> (False, d)
      | Some d1 \<Rightarrow>
          if snd fault then (False, d1)
          else (True, prune_history (unat (sw_history_ts s) - FINE_HISTORY_RETENTION_SECS) d1))"

definition insert_found :: "db \<Rightarrow> pending_block \<Rightarrow> db option" where
  "insert_found d b =
     Option.bind (sql_int (pb_height b)) (\<lambda>_. Option.bind (sql_int (pb_found_ts b)) (\<lambda>_.
     Some (case map_of (db_found d) (pb_hash b) of
         Some _ \<Rightarrow> d
       | None \<Rightarrow> d\<lparr>db_found := db_found d @
           [(pb_hash b, \<lparr> br_block = b, br_status = BLOCK_STATUS_PENDING, br_resolved_ts = None \<rparr>)]\<rparr>)))"

definition resolve_found :: "bool \<Rightarrow> db \<Rightarrow> string \<Rightarrow> block_resolution \<Rightarrow> u64 \<Rightarrow> bool \<times> db" where
  "resolve_found select_fault d hash resolution resolved_ts =
     (case sql_int resolved_ts of None \<Rightarrow> (False, d) | Some _ \<Rightarrow>
      (case map_of (db_found d) hash of
         Some row \<Rightarrow>
           if br_status row = BLOCK_STATUS_PENDING
           then (True, d\<lparr>db_found := AList.update hash
                  (row\<lparr>br_status := resolution_label resolution, br_resolved_ts := Some resolved_ts\<rparr>) (db_found d)\<rparr>)
           else (\<not> select_fault, d)
       | None \<Rightarrow> (False, d)))"

definition apply_write :: "bool \<times> bool \<Rightarrow> db \<Rightarrow> store_write \<Rightarrow> writer_state \<Rightarrow> bool \<times> db \<times> writer_state" where
  "apply_write fault d write st =
     (let failed = (False, d, st); ok = (\<lambda>d'. (True, d', st)) in
      case write of
        BestShare difficulty \<Rightarrow>
          (case (fst fault, sql_int difficulty) of
             (False, Some n) \<Rightarrow> ok (if n > rr_best_share (db_round d) then d\<lparr>db_round := (db_round d)\<lparr>rr_best_share := n\<rparr>\<rparr> else d)
           | _ \<Rightarrow> failed)
      | BestHashrate hps \<Rightarrow>
          if fst fault then failed
          else ok (if f_lt (rr_best_hashrate (db_round d)) hps then d\<lparr>db_round := (db_round d)\<lparr>rr_best_hashrate := hps\<rparr>\<rparr> else d)
      | WorkerBestShare worker difficulty \<Rightarrow>
          (case (fst fault, sql_int difficulty) of
             (False, Some n) \<Rightarrow> ok (d\<lparr>db_worker_best := upsert_max worker n (db_worker_best d)\<rparr>)
           | _ \<Rightarrow> failed)
      | PruneWorkerBestShares keep \<Rightarrow> ok (if fst fault then d else prune_worker_rows d keep)
      | BlockFound block \<Rightarrow>
          (case (fst fault, insert_found d block) of (False, Some d') \<Rightarrow> ok d' | _ \<Rightarrow> failed)
      | BlockResolved hash resolution resolved_ts \<Rightarrow>
          if fst fault then failed
          else (let (b, d') = resolve_found (snd fault) d hash resolution resolved_ts in (b, d', st))
      | Snapshot snapshot \<Rightarrow>
          (let (b, d') = write_snapshot fault d snapshot (sw_round_epoch snapshot \<noteq> ws_round_epoch st) in (b, d', st))
      | Ledger minute_ts entries \<Rightarrow>
          (case write_ledger_minute (fst fault) d minute_ts entries (ws_worker_ids st) of
             None \<Rightarrow> (False, d, st\<lparr>ws_worker_ids := []\<rparr>)
           | Some (d', ids) \<Rightarrow> (True, roll_up_ledger (snd fault) d' minute_ts, st\<lparr>ws_worker_ids := ids\<rparr>))
      | RoundReset epoch since_ts \<Rightarrow>
          (case (fst fault, sql_int since_ts) of
             (False, Some ts) \<Rightarrow> (True, apply_round_reset d ts, st\<lparr>ws_round_epoch := max (ws_round_epoch st) epoch\<rparr>)
           | _ \<Rightarrow> failed)
      | Flush \<Rightarrow> ok d)"

section \<open>The writer loop\<close>

fun is_durable :: "store_write \<Rightarrow> bool" where
  "is_durable (Ledger _ _) = True"
| "is_durable (BlockFound _) = True"
| "is_durable (BlockResolved _ _ _) = True"
| "is_durable (RoundReset _ _) = True"
| "is_durable _ = False"

definition handle_write ::
  "bool \<times> bool \<Rightarrow> db \<Rightarrow> store_write \<Rightarrow> writer_state \<Rightarrow> store_write list \<Rightarrow> db \<times> writer_state \<times> store_write list" where
  "handle_write fault d write st backlog =
     (case apply_write fault d write st of
        (True, d', st') \<Rightarrow> (d', st', backlog)
      | (False, d', st') \<Rightarrow>
          if is_durable write then
            (d', st', (if MAX_WRITE_BACKLOG \<le> length backlog then tl backlog else backlog) @ [write])
          else (d', st', backlog))"

text \<open>One flag pair per attempt, numbered from the front of the backlog.\<close>

fun retry_backlog ::
  "(nat \<Rightarrow> bool \<times> bool) \<Rightarrow> db \<Rightarrow> store_write list \<Rightarrow> writer_state \<Rightarrow> db \<times> writer_state \<times> store_write list" where
  "retry_backlog faults d [] st = (d, st, [])"
| "retry_backlog faults d (write # backlog) st =
     (case apply_write (faults 0) d write st of
        (True, d', st') \<Rightarrow> retry_backlog (\<lambda>n. faults (Suc n)) d' backlog st'
      | (False, d', st') \<Rightarrow> (d', st', write # backlog))"

record loop_input =
  li_next :: "store_write option"
  li_retry_faults :: "nat \<Rightarrow> bool \<times> bool"
  li_fault :: "bool \<times> bool"

definition writer_iteration ::
  "db \<times> writer_state \<times> store_write list \<Rightarrow> loop_input \<Rightarrow> db \<times> writer_state \<times> store_write list" where
  "writer_iteration s i =
     (let (d, st, backlog) = s;
          (d1, st1, backlog1) = retry_backlog (li_retry_faults i) d backlog st in
      case li_next i of
        Some write \<Rightarrow> handle_write (li_fault i) d1 write st1 backlog1
      | None \<Rightarrow> (d1, st1, backlog1))"

definition writer_init :: writer_state where
  "writer_init = \<lparr> ws_round_epoch = 0, ws_worker_ids = [] \<rparr>"

definition writer_loop ::
  "db \<Rightarrow> loop_input list \<Rightarrow> (nat \<Rightarrow> bool \<times> bool) \<Rightarrow> db \<times> writer_state \<times> store_write list" where
  "writer_loop d inputs final_faults =
     (let (d', st, backlog) = foldl writer_iteration (d, writer_init, []) inputs
      in retry_backlog final_faults d' backlog st)"

section \<open>Reading back\<close>

definition load_pending_blocks :: "db \<Rightarrow> pending_block list" where
  "load_pending_blocks d = map (br_block \<circ> snd) (filter (\<lambda>(_, r). br_status r = BLOCK_STATUS_PENDING) (db_found d))"

definition load_block_counts :: "db \<Rightarrow> nat \<times> nat \<times> nat" where
  "load_block_counts d =
     (let count = (\<lambda>p. length (filter (\<lambda>(_, r). p (pb_won_at_submit (br_block r)) (br_status r)) (db_found d))) in
      (count (\<lambda>won s. (won \<and> s \<noteq> ''orphaned'') \<or> (\<not> won \<and> s = ''confirmed'')),
       count (\<lambda>won s. won \<and> s = ''orphaned''),
       count (\<lambda>won s. \<not> won \<and> s \<noteq> ''confirmed'')))"

definition check_schema_version :: "int \<Rightarrow> nat \<Rightarrow> bool" where
  "check_schema_version version tables \<longleftrightarrow> version = 1 \<or> version = 0 \<and> tables = 0"

text \<open>The reconciliation at the end of \<open>open\<close>: a reset lost with the process is derived again.\<close>

definition reconcile_round :: "db \<Rightarrow> db" where
  "reconcile_round d =
     (let wins = map (\<lambda>(_, r). unat (pb_found_ts (br_block r))) (filter (\<lambda>(_, r). pb_won_at_submit (br_block r)) (db_found d))
      in if wins \<noteq> [] \<and> Max (set wins) > rr_since_ts (db_round d) then apply_round_reset d (Max (set wins)) else d)"

definition open_db :: "db \<Rightarrow> db" where
  "open_db d = prune_worker_rows (reconcile_round d) MAX_WORKER_BEST_SHARES"

section \<open>Found blocks settle once\<close>

definition found_le :: "db \<Rightarrow> db \<Rightarrow> bool" where
  "found_le d d' \<longleftrightarrow> (\<forall>h row. map_of (db_found d) h = Some row \<longrightarrow>
     (\<exists>row'. map_of (db_found d') h = Some row' \<and> br_block row' = br_block row
        \<and> (br_status row \<noteq> BLOCK_STATUS_PENDING \<longrightarrow> row' = row)))"

lemma found_le_refl: "found_le d d"
  by (simp add: found_le_def)

lemma found_le_eq: "db_found d' = db_found d \<Longrightarrow> found_le d d'"
  by (simp add: found_le_def)

lemma found_le_trans: "found_le a b \<Longrightarrow> found_le b c \<Longrightarrow> found_le a c"
  unfolding found_le_def by metis

lemma insert_found_le: "insert_found d b = Some d' \<Longrightarrow> found_le d d'"
  by (auto simp: insert_found_def found_le_def bind_eq_Some_conv split: option.splits)

lemma resolve_found_le: "resolve_found f d h r ts = (ok, d') \<Longrightarrow> found_le d d'"
  by (auto simp: resolve_found_def found_le_def AList.update_conv' split: option.splits if_splits)

text \<open>Writes other than ledger minutes leave the ledger tables alone, and conversely.\<close>

definition ledger_same :: "db \<Rightarrow> db \<Rightarrow> bool" where
  "ledger_same d d' \<longleftrightarrow> db_users d' = db_users d \<and> db_workers d' = db_workers d
     \<and> db_minutes d' = db_minutes d \<and> db_hours d' = db_hours d"

lemma merge_round_same: "merge_round s d = Some d' \<Longrightarrow> ledger_same d d' \<and> db_found d' = db_found d"
  by (auto simp: merge_round_def ledger_same_def bind_eq_Some_conv Let_def split: if_splits)

lemma snapshot_tx_same:
  assumes "snapshot_tx s stale d = Some d'"
  shows "ledger_same d d' \<and> db_found d' = db_found d"
  using assms unfolding snapshot_tx_def Let_def
  by (auto simp: bind_eq_Some_conv ledger_same_def split: if_splits dest!: merge_round_same)

lemma write_snapshot_same:
  assumes "write_snapshot f d s stale = (ok, d')"
  shows "ledger_same d d' \<and> db_found d' = db_found d"
  using assms snapshot_tx_same [of s stale d]
  by (auto simp: write_snapshot_def prune_history_def ledger_same_def split: option.splits if_splits)

lemma insert_found_same: "insert_found d b = Some d' \<Longrightarrow> ledger_same d d'"
  by (auto simp: insert_found_def ledger_same_def bind_eq_Some_conv split: option.splits)

lemma resolve_found_same: "resolve_found f d h r ts = (ok, d') \<Longrightarrow> ledger_same d d'"
  by (auto simp: resolve_found_def ledger_same_def split: option.splits if_splits)

lemma resolve_worker_found: "resolve_worker_id d name now = Some (r, d') \<Longrightarrow> db_found d' = db_found d"
  by (auto simp: resolve_worker_id_def insert_worker_def insert_user_def Let_def split: prod.splits option.splits if_splits)

lemma write_entries_found: "write_entries ts d ids es = Some (d', ids') \<Longrightarrow> db_found d' = db_found d"
proof (induction es arbitrary: d ids)
  case (Cons e es)
  then show ?case
    by (fastforce simp: bind_eq_Some_conv upsert_minute_def resolve_worker_found split: option.splits if_splits prod.splits)
qed simp

lemma apply_write_found_le:
  assumes "apply_write f d w st = (ok, d', st')"
  shows "found_le d d'"
proof (cases w)
  case (Ledger ts es)
  then show ?thesis using assms
    by (auto simp: apply_write_def write_ledger_minute_def roll_up_ledger_def Let_def bind_eq_Some_conv
        write_entries_found intro!: found_le_eq split: option.splits prod.splits if_splits)
next
  case (BlockFound b)
  then show ?thesis using assms insert_found_le [of d b]
    by (auto simp: apply_write_def Let_def found_le_refl split: option.splits bool.splits)
next
  case (BlockResolved h r ts)
  then show ?thesis using assms resolve_found_le [of "snd f" d h r ts]
    by (auto simp: apply_write_def Let_def found_le_refl split: prod.splits if_splits)
next
  case (Snapshot s)
  then show ?thesis using assms write_snapshot_same [of f d s]
    by (auto simp: apply_write_def Let_def intro!: found_le_eq split: prod.splits)
qed (use assms in \<open>auto simp: apply_write_def apply_round_reset_def prune_worker_rows_def Let_def found_le_refl
    intro!: found_le_eq split: option.splits bool.splits if_splits\<close>)

lemma retry_found_le: "retry_backlog fs d bl st = (d', st', bl') \<Longrightarrow> found_le d d'"
proof (induction bl arbitrary: fs d st)
  case (Cons w bl)
  obtain ok d1 st1 where a: "apply_write (fs 0) d w st = (ok, d1, st1)" by (cases "apply_write (fs 0) d w st") auto
  then show ?case
    using Cons.prems Cons.IH [of "\<lambda>n. fs (Suc n)" d1 st1] apply_write_found_le [OF a]
    by (auto split: bool.splits intro: found_le_trans)
qed (simp add: found_le_refl)

lemma handle_found_le: "handle_write f d w st bl = (d', st', bl') \<Longrightarrow> found_le d d'"
  using apply_write_found_le [of f d w st]
  by (auto simp: handle_write_def split: prod.splits bool.splits if_splits)

lemma iteration_found_le: "found_le (fst s) (fst (writer_iteration s i))"
proof -
  obtain d st bl where s: "s = (d, st, bl)" by (cases s) auto
  obtain d1 st1 bl1 where r: "retry_backlog (li_retry_faults i) d bl st = (d1, st1, bl1)"
    by (cases "retry_backlog (li_retry_faults i) d bl st") auto
  note 1 = retry_found_le [OF r]
  show ?thesis
  proof (cases "li_next i")
    case None
    then show ?thesis using 1 by (simp add: writer_iteration_def s r)
  next
    case (Some w)
    obtain d2 st2 bl2 where h: "handle_write (li_fault i) d1 w st1 bl1 = (d2, st2, bl2)"
      by (cases "handle_write (li_fault i) d1 w st1 bl1") auto
    show ?thesis using found_le_trans [OF 1 handle_found_le [OF h]] Some by (simp add: writer_iteration_def s r h)
  qed
qed

lemma run_found_le: "found_le (fst s) (fst (foldl writer_iteration s is))"
proof (induction "is" arbitrary: s)
  case (Cons i "is")
  show ?case using found_le_trans [OF iteration_found_le Cons.IH] by simp
qed (simp add: found_le_refl)

lemma writer_loop_found_le: "found_le d (fst (writer_loop d inputs ff))"
proof -
  obtain d1 st1 bl1 where f: "foldl writer_iteration (d, writer_init, []) inputs = (d1, st1, bl1)"
    by (cases "foldl writer_iteration (d, writer_init, []) inputs") auto
  have "found_le d d1" using run_found_le [of "(d, writer_init, [])" inputs] f by simp
  then show ?thesis
    using retry_found_le [of ff d1 bl1 st1] f
    by (cases "retry_backlog ff d1 bl1 st1") (auto simp: writer_loop_def intro: found_le_trans)
qed

text \<open>
  C5: A found block settles once.  Through any run of the writer, with whatever failures, a row of
  \<open>found_blocks\<close> is never lost, always describes the block it was enrolled with, and once its
  status has left \<open>pending\<close> it never changes again.
\<close>

theorem found_block_settles_once:
  assumes "map_of (db_found d) h = Some row"
  shows "\<exists>row'. map_of (db_found (fst (writer_loop d inputs final))) h = Some row'
     \<and> br_block row' = br_block row \<and> (br_status row \<noteq> BLOCK_STATUS_PENDING \<longrightarrow> row' = row)"
  using writer_loop_found_le [of d inputs final] assms unfolding found_le_def by blast

definition sample_block :: pending_block where
  "sample_block = \<lparr> pb_hash = ''ab'', pb_height = 7, pb_worker = ''addr.rig'', pb_payout = ''addr'',
     pb_found_ts = 61, pb_won_at_submit = True \<rparr>"

definition sample_found_db :: db where
  "sample_found_db = \<lparr> db_round = \<lparr> rr_accepted = 0, rr_rejected = 0, rr_work = 0, rr_since_ts = 0, rr_best_share = 0,
     rr_best_hashrate = Fin 0 \<rparr>, db_reject_reasons = [], db_worker_best = [],
     db_found = [(''ab'', \<lparr> br_block = sample_block, br_status = ''confirmed'', br_resolved_ts = Some 70 \<rparr>)],
     db_users = [], db_workers = [], db_minutes = [], db_hours = [], db_hashrate_history = [], db_worker_state = [],
     db_share_rate_history = [], db_share_rate_state = None \<rparr>"

theorem found_block_settles_once_witness:
  "map_of (db_found (fst (writer_loop sample_found_db
      [\<lparr> li_next = Some (BlockResolved ''ab'' Orphaned 99), li_retry_faults = (\<lambda>_. (False, False)), li_fault = (False, False) \<rparr>]
      (\<lambda>_. (False, False))))) ''ab''
   = Some \<lparr> br_block = sample_block, br_status = ''confirmed'', br_resolved_ts = Some 70 \<rparr>"
  using found_block_settles_once [of sample_found_db "''ab''"
      "\<lparr> br_block = sample_block, br_status = ''confirmed'', br_resolved_ts = Some 70 \<rparr>"]
  by (simp add: sample_found_db_def BLOCK_STATUS_PENDING_def)

end
