(* ===== verification/Stats.thy ===== *)
theory Stats
  imports Store
begin

text \<open>
  The pool statistics (\<open>src/stats.rs\<close>, \<open>PoolStats\<close>).  The atomics and concurrent maps are the
  fields of one record; each method is atomic here and takes the clock readings it makes as
  arguments.  A map is an association list in its iteration order, which the source does not
  rely on.  The store is the queue of writes handed to the writer thread, absent without a
  database.  Best hashrates are compared as values, which for the non-negative finite ones
  that reach them is the order of their bit patterns.  Log lines and Prometheus gauges are not
  part of the state; the display fields \<open>snapshot\<close> fills in are left out.  The node identity shown on the dashboard is not kept.
\<close>

declare of_nat_unat [simp del]

section \<open>State\<close>

record ledger_pending =
  lp_work :: u64
  lp_accepted :: u64
  lp_rejected :: u64

record ledger_accum =
  la_minute_ts :: u64
  la_pending :: "(string \<times> ledger_pending) list"

record session_hashrate =
  sh_worker :: string
  sh_decay :: hashrate_decay

record worker_state =
  wk_worker :: string
  wk_protocol :: string
  wk_online :: bool
  wk_current_vardiff :: u64
  wk_shares_accepted :: u64
  wk_shares_rejected :: u64
  wk_shares_stale :: u64
  wk_reject_reasons :: "(string \<times> u64) list"
  wk_best_share_difficulty :: u64
  wk_active_sessions :: u64
  wk_connected_ts :: u64
  wk_last_submit_ts :: u64

record pool_stats =
  ps_shares_accepted :: u64
  ps_shares_rejected :: u64
  ps_rate_limited_drops :: u64
  ps_round_accepted_base :: u64
  ps_round_rejected_base :: u64
  ps_round_offset_accepted :: u64
  ps_round_offset_rejected :: u64
  ps_round_work :: u64
  ps_round_epoch :: u64
  ps_round_since_ts :: u64
  ps_reject_reasons :: "(string \<times> u64) list"
  ps_round_reject_reasons_base :: "(string \<times> u64) list"
  ps_round_offset_reject_reasons :: "(string \<times> u64) list"
  ps_blocks_found :: u64
  ps_blocks_inconclusive :: u64
  ps_blocks_orphaned :: u64
  ps_connected_miners :: u64
  ps_current_height :: u64
  ps_current_coinbase_value :: u64
  ps_current_block_transaction_count :: u64
  ps_best_share_difficulty :: u64
  ps_session_best_share_difficulty :: u64
  ps_best_hashrate_hps :: f64
  ps_session_best_hashrate_hps :: f64
  ps_network_hashrate_hps :: f64
  ps_network_difficulty :: f64
  ps_est_difficulty_change_pct :: f64
  ps_pending_blocks :: "(string \<times> pending_block) list"
  ps_session_hashrates :: "(string \<times> session_hashrate) list"
  ps_pending_shares :: u64
  ps_share_rate :: hashrate_decay
  ps_ledger :: ledger_accum
  ps_worker_protocol :: "(string \<times> string) list"
  ps_worker_last_submit_ts :: "(string \<times> u64) list"
  ps_worker_best_shares :: "(string \<times> u64) list"
  ps_worker_states :: "(string \<times> worker_state) list"
  ps_store :: "store_write list option"

definition enqueue :: "store_write \<Rightarrow> pool_stats \<Rightarrow> pool_stats" where
  "enqueue w ps = ps\<lparr>ps_store := map_option (\<lambda>q. q @ [w]) (ps_store ps)\<rparr>"

text \<open>\<open>*map.entry(k).or_insert(0) += n\<close>.\<close>

definition count_add :: "'k \<Rightarrow> u64 \<Rightarrow> ('k \<times> u64) list \<Rightarrow> ('k \<times> u64) list" where
  "count_add k n m = AList.update k ((case map_of m k of None \<Rightarrow> 0 | Some c \<Rightarrow> c) + n) m"

text \<open>\<open>if let Some(mut state) = self.worker_states.get_mut(worker)\<close>.\<close>

definition with_worker :: "string \<Rightarrow> (worker_state \<Rightarrow> worker_state) \<Rightarrow> pool_stats \<Rightarrow> pool_stats" where
  "with_worker worker f ps =
     (case map_of (ps_worker_states ps) worker of
        None \<Rightarrow> ps
      | Some s \<Rightarrow> ps\<lparr>ps_worker_states := AList.update worker (f s) (ps_worker_states ps)\<rparr>)"

section \<open>The share ledger's staging area\<close>

definition take_open :: "ledger_accum \<Rightarrow> (u64 \<times> ledger_entry list) option \<times> ledger_accum" where
  "take_open a =
     (if la_pending a = [] then (None, a)
      else (Some (la_minute_ts a, map (\<lambda>(worker, amounts). \<lparr> le_worker = worker, le_work = lp_work amounts,
              le_accepted = lp_accepted amounts, le_rejected = lp_rejected amounts \<rparr>) (la_pending a)),
            a\<lparr>la_pending := []\<rparr>))"

definition minute_of :: "u64 \<Rightarrow> u64" where
  "minute_of now = now div 60 * 60"

definition roll_to :: "ledger_accum \<Rightarrow> u64 \<Rightarrow> (u64 \<times> ledger_entry list) option \<times> ledger_accum" where
  "roll_to a now =
     (let minute = minute_of now in
      if minute = la_minute_ts a then (None, a)
      else if minute < la_minute_ts a then (None, a)
      else let (ended, a') = take_open a in (ended, a'\<lparr>la_minute_ts := minute\<rparr>))"

definition persist_ledger_minute :: "(u64 \<times> ledger_entry list) option \<Rightarrow> pool_stats \<Rightarrow> pool_stats" where
  "persist_ledger_minute ended ps =
     (case ended of None \<Rightarrow> ps | Some (minute_ts, entries) \<Rightarrow> enqueue (Ledger minute_ts entries) ps)"

definition add_pending :: "string \<Rightarrow> u64 \<Rightarrow> u64 \<Rightarrow> u64 \<Rightarrow> ledger_accum \<Rightarrow> ledger_accum" where
  "add_pending worker work acc rej a =
     (let e = (case map_of (la_pending a) worker of
                 None \<Rightarrow> \<lparr> lp_work = 0, lp_accepted = 0, lp_rejected = 0 \<rparr> | Some e \<Rightarrow> e) in
      a\<lparr>la_pending := AList.update worker
          \<lparr> lp_work = sat_add (lp_work e) work, lp_accepted = sat_add (lp_accepted e) acc,
            lp_rejected = sat_add (lp_rejected e) rej \<rparr> (la_pending a)\<rparr>)"

definition record_ledger :: "string \<Rightarrow> u64 \<Rightarrow> u64 \<Rightarrow> u64 \<Rightarrow> u64 \<Rightarrow> pool_stats \<Rightarrow> pool_stats" where
  "record_ledger worker work acc rej now ps =
     (if ps_store ps = None then ps
      else if map_of (ps_worker_states ps) worker = None then ps
      else
        let (ended, a) = roll_to (ps_ledger ps) now in
        persist_ledger_minute ended (ps\<lparr>ps_ledger := add_pending worker work acc rej a\<rparr>))"

definition ledger_share_accepted :: "string \<Rightarrow> u64 \<Rightarrow> u64 \<Rightarrow> pool_stats \<Rightarrow> pool_stats" where
  "ledger_share_accepted worker credit now ps = record_ledger worker credit 1 0 now ps"

definition ledger_share_rejected :: "string \<Rightarrow> u64 \<Rightarrow> pool_stats \<Rightarrow> pool_stats" where
  "ledger_share_rejected worker now ps = record_ledger worker 0 0 1 now ps"

definition flush_ledger_at :: "u64 \<Rightarrow> pool_stats \<Rightarrow> pool_stats" where
  "flush_ledger_at now ps =
     (if ps_store ps = None then ps
      else let (ended, a) = roll_to (ps_ledger ps) now in persist_ledger_minute ended (ps\<lparr>ps_ledger := a\<rparr>))"

definition flush_ledger_partial :: "pool_stats \<Rightarrow> pool_stats" where
  "flush_ledger_partial ps =
     (if ps_store ps = None then ps
      else let (ended, a) = take_open (ps_ledger ps) in persist_ledger_minute ended (ps\<lparr>ps_ledger := a\<rparr>))"

section \<open>Shares and rounds\<close>

definition miner_connected :: "pool_stats \<Rightarrow> pool_stats" where
  "miner_connected ps = ps\<lparr>ps_connected_miners := ps_connected_miners ps + 1\<rparr>"

definition miner_disconnected :: "pool_stats \<Rightarrow> pool_stats" where
  "miner_disconnected ps = ps\<lparr>ps_connected_miners := ps_connected_miners ps - 1\<rparr>"

definition share_accepted :: "u64 \<Rightarrow> u64 \<Rightarrow> pool_stats \<Rightarrow> pool_stats" where
  "share_accepted credit hash_difficulty ps =
     (let best = ps_best_share_difficulty ps;
          ps = ps\<lparr>ps_shares_accepted := ps_shares_accepted ps + 1, ps_pending_shares := ps_pending_shares ps + 1,
                 ps_round_work := ps_round_work ps + credit,
                 ps_best_share_difficulty := max best hash_difficulty,
                 ps_session_best_share_difficulty := max (ps_session_best_share_difficulty ps) hash_difficulty\<rparr>
      in if best < hash_difficulty then enqueue (BestShare hash_difficulty) ps else ps)"

definition share_rejected :: "string \<Rightarrow> pool_stats \<Rightarrow> pool_stats" where
  "share_rejected reason ps =
     ps\<lparr>ps_shares_rejected := ps_shares_rejected ps + 1, ps_reject_reasons := count_add reason 1 (ps_reject_reasons ps)\<rparr>"

definition message_rate_limited :: "pool_stats \<Rightarrow> pool_stats" where
  "message_rate_limited ps = ps\<lparr>ps_rate_limited_drops := ps_rate_limited_drops ps + 1\<rparr>"

definition round_shares_accepted :: "pool_stats \<Rightarrow> u64" where
  "round_shares_accepted ps =
     sat_sub (sat_add (ps_round_accepted_base ps) (ps_shares_accepted ps)) (ps_round_offset_accepted ps)"

definition round_shares_rejected :: "pool_stats \<Rightarrow> u64" where
  "round_shares_rejected ps =
     sat_sub (sat_add (ps_round_rejected_base ps) (ps_shares_rejected ps)) (ps_round_offset_rejected ps)"

definition merged_reasons :: "pool_stats \<Rightarrow> (string \<times> u64) list" where
  "merged_reasons ps =
     foldl (\<lambda>merged (reason, count). count_add reason count merged) (ps_round_reject_reasons_base ps) (ps_reject_reasons ps)"

definition round_reject_reasons :: "pool_stats \<Rightarrow> (string \<times> u64) list" where
  "round_reject_reasons ps =
     filter (\<lambda>(_, count). 0 < count)
       (map (\<lambda>(reason, count). (reason, sat_sub count
          (case map_of (ps_round_offset_reject_reasons ps) reason of None \<Rightarrow> 0 | Some c \<Rightarrow> c))) (merged_reasons ps))"

definition round_reset :: "u64 \<Rightarrow> pool_stats \<Rightarrow> pool_stats" where
  "round_reset now ps =
     (let ps = ps\<lparr>ps_round_offset_accepted := sat_add (ps_round_accepted_base ps) (ps_shares_accepted ps),
                 ps_round_offset_rejected := sat_add (ps_round_rejected_base ps) (ps_shares_rejected ps),
                 ps_round_offset_reject_reasons := merged_reasons ps,
                 ps_round_work := 0, ps_best_share_difficulty := 0, ps_best_hashrate_hps := Fin 0,
                 ps_round_since_ts := now, ps_worker_best_shares := [],
                 ps_worker_states := map (\<lambda>(w, s). (w, s\<lparr>wk_best_share_difficulty := 0\<rparr>)) (ps_worker_states ps),
                 ps_round_epoch := ps_round_epoch ps + 1\<rparr>
      in enqueue (RoundReset (ps_round_epoch ps) now) ps)"

section \<open>Found blocks\<close>

definition block_found :: "u64 \<Rightarrow> pool_stats \<Rightarrow> pool_stats" where
  "block_found now ps = round_reset now (ps\<lparr>ps_blocks_found := ps_blocks_found ps + 1\<rparr>)"

definition block_inconclusive :: "pool_stats \<Rightarrow> pool_stats" where
  "block_inconclusive ps = ps\<lparr>ps_blocks_inconclusive := ps_blocks_inconclusive ps + 1\<rparr>"

definition enroll_pending_block ::
  "u64 \<Rightarrow> string \<Rightarrow> string \<Rightarrow> string \<Rightarrow> bool \<Rightarrow> u64 \<Rightarrow> pool_stats \<Rightarrow> pool_stats" where
  "enroll_pending_block height hash worker payout won_at_submit now ps =
     (let block = \<lparr> pb_hash = hash, pb_height = height, pb_worker = worker, pb_payout = payout,
            pb_found_ts = now, pb_won_at_submit = won_at_submit \<rparr> in
      if map_of (ps_pending_blocks ps) hash \<noteq> None then ps
      else enqueue (BlockFound block) (ps\<lparr>ps_pending_blocks := ps_pending_blocks ps @ [(hash, block)]\<rparr>))"

definition pending_blocks :: "pool_stats \<Rightarrow> pending_block list" where
  "pending_blocks ps = map snd (ps_pending_blocks ps)"

text \<open>Two clock readings: one inside \<open>block_found\<close>, one for the resolution's time.\<close>

definition resolve_block ::
  "pending_block \<Rightarrow> block_resolution \<Rightarrow> u64 \<Rightarrow> u64 \<Rightarrow> pool_stats \<Rightarrow> bool \<times> pool_stats" where
  "resolve_block block resolution now1 now2 ps =
     (if map_of (ps_pending_blocks ps) (pb_hash block) = None then (False, ps)
      else
        let ps = ps\<lparr>ps_pending_blocks := AList.delete (pb_hash block) (ps_pending_blocks ps)\<rparr>;
            ps = (case (pb_won_at_submit block, resolution) of
                    (True, Orphaned) \<Rightarrow>
                      ps\<lparr>ps_blocks_orphaned := ps_blocks_orphaned ps + 1,
                         ps_blocks_found := sat_sub (ps_blocks_found ps) 1\<rparr>
                  | (False, Confirmed) \<Rightarrow>
                      block_found now1 (ps\<lparr>ps_blocks_inconclusive := sat_sub (ps_blocks_inconclusive ps) 1\<rparr>)
                  | _ \<Rightarrow> ps)
        in (True, enqueue (BlockResolved (pb_hash block) resolution now2) ps))"

definition update_height :: "u64 \<Rightarrow> u64 \<Rightarrow> u64 \<Rightarrow> pool_stats \<Rightarrow> pool_stats" where
  "update_height height coinbase_value transaction_count ps =
     ps\<lparr>ps_current_height := height, ps_current_coinbase_value := coinbase_value,
        ps_current_block_transaction_count := transaction_count\<rparr>"

definition set_network_hashrate :: "f64 \<Rightarrow> pool_stats \<Rightarrow> pool_stats" where
  "set_network_hashrate hps ps = ps\<lparr>ps_network_hashrate_hps := hps\<rparr>"

definition set_network_difficulty :: "f64 \<Rightarrow> pool_stats \<Rightarrow> pool_stats" where
  "set_network_difficulty difficulty ps = ps\<lparr>ps_network_difficulty := difficulty\<rparr>"

definition set_est_difficulty_change_pct :: "f64 \<Rightarrow> pool_stats \<Rightarrow> pool_stats" where
  "set_est_difficulty_change_pct pct ps = ps\<lparr>ps_est_difficulty_change_pct := pct\<rparr>"

section \<open>Hashrates\<close>

definition add_share_diff_at :: "string \<Rightarrow> string \<Rightarrow> f64 \<Rightarrow> instant \<Rightarrow> pool_stats \<Rightarrow> pool_stats" where
  "add_share_diff_at session_id worker difficulty now ps =
     (case map_of (ps_session_hashrates ps) session_id of
        Some entry \<Rightarrow> ps\<lparr>ps_session_hashrates := AList.update session_id
            \<lparr> sh_worker = worker, sh_decay = add_share (sh_decay entry) difficulty \<rparr> (ps_session_hashrates ps)\<rparr>
      | None \<Rightarrow> ps\<lparr>ps_session_hashrates := AList.update session_id
            \<lparr> sh_worker = worker, sh_decay = add_share (decay_new now) difficulty \<rparr> (ps_session_hashrates ps)\<rparr>)"

definition hashrates_by_worker :: "pool_stats \<Rightarrow> (string \<times> hashrate_windows) list" where
  "hashrates_by_worker ps =
     foldl (\<lambda>by_worker (_, entry).
         let worker = sh_worker entry;
             old = (case map_of by_worker worker of None \<Rightarrow> windows_default | Some w \<Rightarrow> w) in
         AList.update worker (windows_add old (from_windows (hashrates (sh_decay entry)))) by_worker)
       [] (ps_session_hashrates ps)"

definition total_windows :: "(string \<times> hashrate_windows) list \<Rightarrow> hashrate_windows" where
  "total_windows by_worker = foldl (\<lambda>total (_, w). windows_add total w) windows_default by_worker"

definition record_best_hashrate :: "f64 \<Rightarrow> pool_stats \<Rightarrow> pool_stats" where
  "record_best_hashrate total_10m ps =
     (if \<not> is_finite total_10m \<or> f_lt total_10m (Fin 0) then ps
      else
        let best = ps_best_hashrate_hps ps;
            ps = ps\<lparr>ps_best_hashrate_hps := f_max best total_10m,
                   ps_session_best_hashrate_hps := f_max (ps_session_best_hashrate_hps ps) total_10m\<rparr>
        in if f_lt best total_10m then enqueue (BestHashrate total_10m) ps else ps)"

definition tick_hashrates_at :: "(f64 \<Rightarrow> f64) \<Rightarrow> instant \<Rightarrow> pool_stats \<Rightarrow> pool_stats" where
  "tick_hashrates_at ex now ps =
     (let ticked = map (\<lambda>(sid, e). (sid, e\<lparr>sh_decay := tick ex (sh_decay e) now\<rparr>)) (ps_session_hashrates ps);
          live = filter (\<lambda>(_, e). \<not> is_idle (sh_decay e)) ticked;
          ps = ps\<lparr>ps_session_hashrates := live\<rparr>;
          total = total_windows (hashrates_by_worker ps);
          pending = ps_pending_shares ps;
          ps = ps\<lparr>ps_pending_shares := 0,
                 ps_share_rate := tick ex (add_share (ps_share_rate ps) (f64_of_nat (unat pending))) now\<rparr>
      in record_best_hashrate (ten_minutes total) ps)"

definition share_rate_windows :: "pool_stats \<Rightarrow> f64 list" where
  "share_rate_windows ps = per_minute (ps_share_rate ps)"

section \<open>Workers\<close>

definition set_worker_protocol :: "string \<Rightarrow> string \<Rightarrow> pool_stats \<Rightarrow> pool_stats" where
  "set_worker_protocol worker protocol ps =
     with_worker worker (\<lambda>s. s\<lparr>wk_protocol := protocol\<rparr>)
       (ps\<lparr>ps_worker_protocol := AList.update worker protocol (ps_worker_protocol ps)\<rparr>)"

definition mark_worker_submit :: "string \<Rightarrow> u64 \<Rightarrow> pool_stats \<Rightarrow> pool_stats" where
  "mark_worker_submit worker now ps =
     with_worker worker (\<lambda>s. s\<lparr>wk_last_submit_ts := now\<rparr>)
       (ps\<lparr>ps_worker_last_submit_ts := AList.update worker now (ps_worker_last_submit_ts ps)\<rparr>)"

definition mark_worker_online :: "string \<Rightarrow> u64 \<Rightarrow> u64 \<Rightarrow> pool_stats \<Rightarrow> pool_stats" where
  "mark_worker_online worker current_vardiff now ps =
     (case map_of (ps_worker_states ps) worker of
        Some s \<Rightarrow> ps\<lparr>ps_worker_states := AList.update worker
            (s\<lparr>wk_online := True, wk_current_vardiff := current_vardiff, wk_connected_ts := now,
               wk_active_sessions := sat_add (wk_active_sessions s) 1\<rparr>) (ps_worker_states ps)\<rparr>
      | None \<Rightarrow> ps\<lparr>ps_worker_states := AList.update worker
            \<lparr> wk_worker = worker,
              wk_protocol = (case map_of (ps_worker_protocol ps) worker of None \<Rightarrow> ''sv1'' | Some p \<Rightarrow> p),
              wk_online = True, wk_current_vardiff = current_vardiff, wk_shares_accepted = 0,
              wk_shares_rejected = 0, wk_shares_stale = 0, wk_reject_reasons = [],
              wk_best_share_difficulty = (case map_of (ps_worker_best_shares ps) worker of None \<Rightarrow> 0 | Some b \<Rightarrow> b),
              wk_active_sessions = 1, wk_connected_ts = now, wk_last_submit_ts = 0 \<rparr> (ps_worker_states ps)\<rparr>)"

definition mark_worker_offline :: "string \<Rightarrow> pool_stats \<Rightarrow> pool_stats" where
  "mark_worker_offline worker ps =
     with_worker worker (\<lambda>s. if 1 < wk_active_sessions s then s\<lparr>wk_active_sessions := wk_active_sessions s - 1\<rparr>
                              else s\<lparr>wk_active_sessions := 0, wk_online := False\<rparr>) ps"

definition update_worker_vardiff :: "string \<Rightarrow> u64 \<Rightarrow> u64 \<Rightarrow> pool_stats \<Rightarrow> pool_stats" where
  "update_worker_vardiff worker vardiff now ps =
     (if map_of (ps_worker_states ps) worker \<noteq> None
      then with_worker worker (\<lambda>s. s\<lparr>wk_current_vardiff := vardiff\<rparr>) ps
      else mark_worker_online worker vardiff now ps)"

definition worker_share_accepted :: "string \<Rightarrow> u64 \<Rightarrow> pool_stats \<Rightarrow> pool_stats" where
  "worker_share_accepted worker difficulty ps =
     (let ps = with_worker worker (\<lambda>s. s\<lparr>wk_shares_accepted := wk_shares_accepted s + 1,
                 wk_best_share_difficulty := max (wk_best_share_difficulty s) difficulty\<rparr>) ps;
          entry = (case map_of (ps_worker_best_shares ps) worker of None \<Rightarrow> 0 | Some b \<Rightarrow> b);
          ps = ps\<lparr>ps_worker_best_shares := AList.update worker (max entry difficulty) (ps_worker_best_shares ps)\<rparr>
      in if entry < difficulty then enqueue (WorkerBestShare worker difficulty) ps else ps)"

definition worker_share_rejected :: "string \<Rightarrow> string \<Rightarrow> pool_stats \<Rightarrow> pool_stats" where
  "worker_share_rejected worker reason ps =
     with_worker worker (\<lambda>s. s\<lparr>wk_shares_rejected := wk_shares_rejected s + 1,
         wk_reject_reasons := count_add reason 1 (wk_reject_reasons s),
         wk_shares_stale := (if reason = ''stale'' then wk_shares_stale s + 1 else wk_shares_stale s)\<rparr>) ps"

definition IDLE_WORKER_EVICT_SECS :: u64 where
  "IDLE_WORKER_EVICT_SECS = 86400"

definition stale_worker :: "u64 \<Rightarrow> pool_stats \<Rightarrow> string \<times> worker_state \<Rightarrow> bool" where
  "stale_worker cutoff ps e =
     (let (worker, s) = e;
          last_submit = (case map_of (ps_worker_last_submit_ts ps) worker of None \<Rightarrow> wk_last_submit_ts s | Some t \<Rightarrow> t)
      in \<not> wk_online s \<and> max last_submit (wk_connected_ts s) < cutoff)"

text \<open>The order of equal best shares is left open by \<open>sort_unstable_by_key\<close>; here it is the map's.\<close>

definition top_best_shares :: "(string \<times> u64) list \<Rightarrow> (string \<times> u64) list" where
  "top_best_shares m = take MAX_WORKER_BEST_SHARES (rev (sort_key snd (rev m)))"

definition prune_idle_workers :: "u64 \<Rightarrow> pool_stats \<Rightarrow> pool_stats" where
  "prune_idle_workers now ps =
     (let cutoff = sat_sub now IDLE_WORKER_EVICT_SECS;
          stale = map fst (filter (stale_worker cutoff ps) (ps_worker_states ps));
          ps = ps\<lparr>ps_worker_states := filter (\<lambda>e. fst e \<notin> set stale) (ps_worker_states ps),
                 ps_worker_protocol := filter (\<lambda>e. fst e \<notin> set stale) (ps_worker_protocol ps),
                 ps_worker_last_submit_ts := filter (\<lambda>e. fst e \<notin> set stale) (ps_worker_last_submit_ts ps),
                 ps_session_hashrates := filter (\<lambda>e. sh_worker (snd e) \<notin> set stale) (ps_session_hashrates ps)\<rparr>
      in if MAX_WORKER_BEST_SHARES < length (ps_worker_best_shares ps)
         then enqueue (PruneWorkerBestShares MAX_WORKER_BEST_SHARES)
                (ps\<lparr>ps_worker_best_shares :=
                   filter (\<lambda>e. fst e \<in> fst ` set (top_best_shares (ps_worker_best_shares ps))) (ps_worker_best_shares ps)\<rparr>)
         else ps)"

section \<open>Checkpoints and boot\<close>

definition SNAPSHOT_INTERVAL_SECS :: u64 where
  "SNAPSHOT_INTERVAL_SECS = 10"

definition record_hashrate_snapshot_at :: "u64 \<Rightarrow> pool_stats \<Rightarrow> pool_stats" where
  "record_hashrate_snapshot_at state_ts ps =
     (let ps = flush_ledger_at state_ts ps;
          by_worker = hashrates_by_worker ps
      in if ps_store ps = None then ps
         else enqueue (Snapshot \<lparr> sw_history_ts = state_ts div SNAPSHOT_INTERVAL_SECS * SNAPSHOT_INTERVAL_SECS,
                sw_state_ts = state_ts, sw_rates = total_windows by_worker, sw_worker_rates = by_worker,
                sw_accepted = round_shares_accepted ps, sw_rejected = round_shares_rejected ps,
                sw_round_reject_reasons = round_reject_reasons ps, sw_round_work = ps_round_work ps,
                sw_round_epoch = ps_round_epoch ps, sw_share_rates = share_rate_windows ps \<rparr>) ps)"

definition shutdown_persist :: "u64 \<Rightarrow> pool_stats \<Rightarrow> pool_stats" where
  "shutdown_persist now ps = enqueue Flush (flush_ledger_partial (record_hashrate_snapshot_at now ps))"

text \<open>What is read back at boot; the flags say which of the reads fail, in the order of the code.\<close>

definition load_values :: "db \<Rightarrow> u64 \<times> f64 \<times> (string \<times> u64) list" where
  "load_values d = (of_nat (rr_best_share (db_round d)), rr_best_hashrate (db_round d),
     map (\<lambda>(w, n). (w, of_nat n)) (db_worker_best d))"

definition load_hashrate_state :: "db \<Rightarrow> (string \<times> u64 \<times> hashrate_windows) list" where
  "load_hashrate_state d = map (\<lambda>(w, ts, r). (w, of_nat ts, from_windows r)) (db_worker_state d)"

definition load_round_stats :: "db \<Rightarrow> (u64 \<times> u64) \<times> u64 \<times> u64" where
  "load_round_stats d =
     (let r = db_round d in ((of_nat (rr_accepted r), of_nat (rr_rejected r)), of_nat (rr_since_ts r), of_nat (rr_work r)))"

definition load_reject_reasons :: "db \<Rightarrow> (string \<times> u64) list" where
  "load_reject_reasons d = map (\<lambda>(reason, n). (reason, of_nat n)) (db_reject_reasons d)"

definition load_share_rate_state :: "db \<Rightarrow> (u64 \<times> f64 list) option" where
  "load_share_rate_state d = map_option (\<lambda>(ts, r). (of_nat ts, r)) (db_share_rate_state d)"

record persisted =
  pe_store :: bool
  pe_best_share_difficulty :: u64
  pe_best_hashrate_hps :: f64
  pe_worker_best_shares :: "(string \<times> u64) list"
  pe_hashrates :: "(string \<times> u64 \<times> hashrate_windows) list"
  pe_pending_blocks :: "pending_block list"
  pe_block_counts :: "u64 \<times> u64 \<times> u64"
  pe_round_share_totals :: "u64 \<times> u64"
  pe_round_since_ts :: u64
  pe_round_work :: u64
  pe_round_reject_reasons :: "(string \<times> u64) list"
  pe_share_rate :: "(u64 \<times> f64 list) option"

definition persisted_default :: persisted where
  "persisted_default = \<lparr> pe_store = False, pe_best_share_difficulty = 0, pe_best_hashrate_hps = Fin 0,
     pe_worker_best_shares = [], pe_hashrates = [], pe_pending_blocks = [], pe_block_counts = (0, 0, 0),
     pe_round_share_totals = (0, 0), pe_round_since_ts = 0, pe_round_work = 0, pe_round_reject_reasons = [],
     pe_share_rate = None \<rparr>"

definition persisted_load :: "(nat \<Rightarrow> bool) \<Rightarrow> db \<Rightarrow> (persisted \<times> db) option" where
  "persisted_load fails d =
     (if fails 0 \<or> fails 1 then None
      else
        let d = open_db d;
            (best_share, best_hashrate, worker_best) = load_values d;
            (found, orphaned, inconclusive) = (if fails 4 then (0, 0, 0) else load_block_counts d);
            (totals, since_ts, work) = (if fails 5 then ((0, 0), 0, 0) else load_round_stats d)
        in Some (\<lparr> pe_store = True, pe_best_share_difficulty = best_share, pe_best_hashrate_hps = best_hashrate,
             pe_worker_best_shares = worker_best,
             pe_hashrates = (if fails 2 then [] else load_hashrate_state d),
             pe_pending_blocks = (if fails 3 then [] else load_pending_blocks d),
             pe_block_counts = (of_nat found, of_nat orphaned, of_nat inconclusive),
             pe_round_share_totals = totals, pe_round_since_ts = since_ts, pe_round_work = work,
             pe_round_reject_reasons = (if fails 6 then [] else load_reject_reasons d),
             pe_share_rate = (if fails 7 then None else load_share_rate_state d) \<rparr>, d))"

definition offline_for :: "u64 \<Rightarrow> u64 \<Rightarrow> duration" where
  "offline_for wall_now updated_ts = unat (sat_sub wall_now updated_ts) * 10 ^ 9"

definition restored_session ::
  "(f64 \<Rightarrow> f64) \<Rightarrow> (f64 \<Rightarrow> f64 \<Rightarrow> f64) \<Rightarrow> u64 \<Rightarrow> instant \<Rightarrow> string \<times> u64 \<times> hashrate_windows
     \<Rightarrow> string \<times> session_hashrate" where
  "restored_session ex pw wall_now instant_now h =
     (let (worker, updated_ts, r) = h in
      (''restored:'' @ worker, \<lparr> sh_worker = worker,
         sh_decay = restored ex pw instant_now (to_windows r) (offline_for wall_now updated_ts) \<rparr>))"

definition from_persisted ::
  "(f64 \<Rightarrow> f64) \<Rightarrow> (f64 \<Rightarrow> f64 \<Rightarrow> f64) \<Rightarrow> persisted \<Rightarrow> u64 \<Rightarrow> instant \<Rightarrow> pool_stats" where
  "from_persisted ex pw p wall_now instant_now =
     (let (found, orphaned, inconclusive) = pe_block_counts p in
      \<lparr> ps_shares_accepted = 0, ps_shares_rejected = 0, ps_rate_limited_drops = 0,
        ps_round_accepted_base = fst (pe_round_share_totals p), ps_round_rejected_base = snd (pe_round_share_totals p),
        ps_round_offset_accepted = 0, ps_round_offset_rejected = 0, ps_round_work = pe_round_work p,
        ps_round_epoch = 0,
        ps_round_since_ts = (if pe_round_since_ts p = 0 then wall_now else pe_round_since_ts p),
        ps_reject_reasons = [], ps_round_reject_reasons_base = pe_round_reject_reasons p,
        ps_round_offset_reject_reasons = [],
        ps_blocks_found = found, ps_blocks_inconclusive = inconclusive, ps_blocks_orphaned = orphaned,
        ps_connected_miners = 0, ps_current_height = 0, ps_current_coinbase_value = 0,
        ps_current_block_transaction_count = 0,
        ps_best_share_difficulty = pe_best_share_difficulty p, ps_session_best_share_difficulty = 0,
        ps_best_hashrate_hps = pe_best_hashrate_hps p, ps_session_best_hashrate_hps = Fin 0,
        ps_network_hashrate_hps = Fin 0, ps_network_difficulty = Fin 0, ps_est_difficulty_change_pct = NaN,
        ps_pending_blocks = foldl (\<lambda>m b. AList.update (pb_hash b) b m) [] (pe_pending_blocks p),
        ps_session_hashrates = foldl (\<lambda>m (k, s). AList.update k s m) []
          (filter (\<lambda>(_, s). \<not> is_idle (sh_decay s)) (map (restored_session ex pw wall_now instant_now) (pe_hashrates p))),
        ps_pending_shares = 0,
        ps_share_rate = (case pe_share_rate p of
            Some (updated_ts, r) \<Rightarrow> restored_per_minute ex pw instant_now r (offline_for wall_now updated_ts)
          | None \<Rightarrow> decay_new instant_now),
        ps_ledger = \<lparr> la_minute_ts = minute_of wall_now, la_pending = [] \<rparr>,
        ps_worker_protocol = [], ps_worker_last_submit_ts = [],
        ps_worker_best_shares = pe_worker_best_shares p, ps_worker_states = [],
        ps_store = (if pe_store p then Some [] else None) \<rparr>)"

definition open_recording ::
  "(f64 \<Rightarrow> f64) \<Rightarrow> (f64 \<Rightarrow> f64 \<Rightarrow> f64) \<Rightarrow> (nat \<Rightarrow> bool) \<Rightarrow> db \<Rightarrow> u64 \<Rightarrow> instant \<Rightarrow> (pool_stats \<times> db) option" where
  "open_recording ex pw fails d wall_now instant_now =
     map_option (\<lambda>(p, d'). (from_persisted ex pw p wall_now instant_now, d')) (persisted_load fails d)"

end
