(* ===== verification/Accounting.thy ===== *)
theory Accounting
  imports Stats Security Rpc
begin

text \<open>
  The bookkeeping of one share, one found block and one resolution, common to both protocols
  (\<open>src/mining/accounting.rs\<close>).  Prometheus counters are not part of the state.  Every clock
  reading of the methods called is an argument, in the order of the calls.
\<close>

declare of_nat_unat [simp del]

datatype reject_reason =
  RUnauthorized | RJobNotFound | RDuplicate | RStale | RLowDifficulty | RBadExtranonce | RInvalid

fun reject_label :: "reject_reason \<Rightarrow> string" where
  "reject_label RUnauthorized = ''unauthorized''"
| "reject_label RJobNotFound = ''job_not_found''"
| "reject_label RDuplicate = ''duplicate''"
| "reject_label RStale = ''stale''"
| "reject_label RLowDifficulty = ''low_difficulty''"
| "reject_label RBadExtranonce = ''bad_extranonce''"
| "reject_label RInvalid = ''invalid''"

definition counts_as_invalid :: "reject_reason \<Rightarrow> bool" where
  "counts_as_invalid r \<longleftrightarrow> r \<notin> {RLowDifficulty, RStale, RUnauthorized}"

fun reason_from_error :: "pool_error \<Rightarrow> reject_reason" where
  "reason_from_error (StaleJob _) = RStale"
| "reason_from_error DuplicateShare = RDuplicate"
| "reason_from_error LowDifficulty = RLowDifficulty"
| "reason_from_error _ = RInvalid"

definition record_accepted ::
  "string \<Rightarrow> string \<Rightarrow> u64 \<Rightarrow> u64 \<Rightarrow> instant \<Rightarrow> u64 \<Rightarrow> u64 \<Rightarrow> pool_stats \<Rightarrow> pool_stats" where
  "record_accepted session_id worker credit hash_difficulty inst now1 now2 ps =
     (let ps = add_share_diff_at session_id worker (f64_of_word credit) inst ps;
          ps = share_accepted credit hash_difficulty ps;
          ps = worker_share_accepted worker hash_difficulty ps;
          ps = mark_worker_submit worker now1 ps
      in ledger_share_accepted worker credit now2 ps)"

definition record_rejected ::
  "string \<Rightarrow> reject_reason \<Rightarrow> u64 \<Rightarrow> session_guard \<Rightarrow> pool_stats \<Rightarrow> bool \<times> session_guard \<times> pool_stats" where
  "record_rejected worker reason now guard ps =
     (let lbl = reject_label reason;
          ps = share_rejected lbl ps;
          ps = worker_share_rejected worker lbl ps;
          ps = ledger_share_rejected worker now ps
      in if counts_as_invalid reason
         then (let (over, counter) = record_invalid (sg_invalid_shares guard)
               in (over, guard\<lparr>sg_invalid_shares := counter\<rparr>, ps))
         else (False, guard, ps))"

definition record_rate_limited :: "pool_stats \<Rightarrow> pool_stats" where
  "record_rate_limited ps = message_rate_limited ps"

definition record_block_outcome ::
  "block_submit_outcome \<Rightarrow> u64 \<Rightarrow> string \<Rightarrow> string \<Rightarrow> string \<Rightarrow> u64 \<Rightarrow> u64 \<Rightarrow> pool_stats \<Rightarrow> pool_stats" where
  "record_block_outcome outcome height worker payout hash_hex now1 now2 ps =
     (let ps = (if is_win outcome then block_found now1 ps else block_inconclusive ps)
      in enroll_pending_block height hash_hex worker payout (is_win outcome) now2 ps)"

definition record_block_resolution ::
  "pending_block \<Rightarrow> block_resolution \<Rightarrow> u64 \<Rightarrow> u64 \<Rightarrow> pool_stats \<Rightarrow> bool \<times> pool_stats" where
  "record_block_resolution block resolution now1 now2 ps = resolve_block block resolution now1 now2 ps"

end
