(* ===== verification/Engine.thy ===== *)
theory Engine
  imports Template Accounting
begin

text \<open>
  The template engine (\<open>src/mining/engine.rs\<close>).  The node is the client of theory \<open>Rpc\<close>; the
  broadcast channel is the list of what was sent on it, oldest first; each clock reading is an
  argument; log lines and metrics are left out.  The refresh loop runs over the sequence of
  events its \<open>select!\<close> picks, and the background resubmission of a block is a loop over the
  readings of the monotonic clock.
\<close>

declare of_nat_unat [simp del]

section \<open>State\<close>

definition TEMPLATE_STALE_AFTER :: duration where
  "TEMPLATE_STALE_AFTER = secs 180"

definition SUBMIT_INLINE_ATTEMPTS :: u32 where
  "SUBMIT_INLINE_ATTEMPTS = 3"

definition SUBMIT_RETRY_INTERVAL :: duration where
  "SUBMIT_RETRY_INTERVAL = secs 10"

definition SUBMIT_RETRY_DEADLINE :: duration where
  "SUBMIT_RETRY_DEADLINE = secs (2 * 60 * 60)"

record job_broadcast =
  jb_template :: job_template
  jb_clean :: bool

record 'c engine =
  en_rpc :: "'c rpc_state"
  en_pool_cfg :: pool_config
  en_current_template :: "job_template option"
  en_sent :: "job_broadcast list"
  en_stats :: pool_stats
  en_started :: instant
  en_last_refresh_offset_secs :: u64
  en_has_refreshed :: bool
  en_last_refresh_unix_secs :: u64
  en_unsupported_rules :: "string list"

definition engine_new :: "'c rpc_state \<Rightarrow> pool_config \<Rightarrow> pool_stats \<Rightarrow> instant \<Rightarrow> 'c engine" where
  "engine_new rpc cfg ps now =
     \<lparr> en_rpc = rpc, en_pool_cfg = cfg, en_current_template = None, en_sent = [], en_stats = ps, en_started = now,
       en_last_refresh_offset_secs = 0, en_has_refreshed = False, en_last_refresh_unix_secs = 0, en_unsupported_rules = [] \<rparr>"

definition is_blocked_on_rules :: "'c engine \<Rightarrow> bool" where
  "is_blocked_on_rules e \<longleftrightarrow> pc_strict_gbt_rules (en_pool_cfg e) \<and> en_unsupported_rules e \<noteq> []"

definition template_age_from :: "instant \<Rightarrow> u64 \<Rightarrow> instant \<Rightarrow> duration" where
  "template_age_from started last_refresh_offset_secs now =
     (let now_offset_secs = of_nat ((now - started) div secs 1)
      in secs (unat (sat_sub now_offset_secs last_refresh_offset_secs)))"

definition template_age :: "'c engine \<Rightarrow> instant \<Rightarrow> duration" where
  "template_age e now = template_age_from (en_started e) (en_last_refresh_offset_secs e) now"

definition is_fresh :: "bool \<Rightarrow> duration \<Rightarrow> bool" where
  "is_fresh has_refreshed age \<longleftrightarrow> has_refreshed \<and> age < TEMPLATE_STALE_AFTER"

definition is_template_fresh :: "'c engine \<Rightarrow> instant \<Rightarrow> bool" where
  "is_template_fresh e now \<longleftrightarrow> is_fresh (en_has_refreshed e) (template_age e now)"

section \<open>Refreshing the template\<close>

definition should_force_clean :: "string option \<Rightarrow> string \<Rightarrow> bool" where
  "should_force_clean previous new_prev_hash \<longleftrightarrow> previous \<noteq> Some new_prev_hash"

definition check_template_rules :: "gbt_result \<Rightarrow> 'c engine \<Rightarrow> bool \<times> 'c engine" where
  "check_template_rules gbt e =
     (let unsupported = unsupported_gbt_rules gbt;
          e = e\<lparr>en_unsupported_rules := unsupported\<rparr>
      in if unsupported = [] then (True, e)
         else if \<not> pc_strict_gbt_rules (en_pool_cfg e) then (True, e)
         else (False, e\<lparr>en_current_template := None\<rparr>))"

text \<open>What a built template changes; the two readings are of the monotonic and of the wall clock.\<close>

definition publish :: "(f64 \<Rightarrow> f64) \<Rightarrow> job_template \<Rightarrow> instant \<Rightarrow> u64 \<Rightarrow> 'c engine \<Rightarrow> 'c engine" where
  "publish powf2 template now unix_secs e =
     (let clean = should_force_clean (map_option jt_prev_hash (en_current_template e)) (jt_prev_hash template);
          ps = update_height (jt_height template) (jt_coinbase_value template)
                 (of_nat (length (jt_transactions template))) (en_stats e);
          ps = (case bits_to_difficulty powf2 (jt_bits template) of
                  Inr net_diff \<Rightarrow> set_network_difficulty net_diff ps | Inl _ \<Rightarrow> ps)
      in e\<lparr>en_current_template := Some template, en_stats := ps,
           en_last_refresh_offset_secs := of_nat ((now - en_started e) div secs 1),
           en_last_refresh_unix_secs := unix_secs, en_has_refreshed := True,
           en_sent := en_sent e @ [\<lparr> jb_template = template, jb_clean = clean \<rparr>]\<rparr>)"

definition refresh ::
  "crates \<Rightarrow> (f64 \<Rightarrow> f64) \<Rightarrow> ('c, 'v, 'w) node_api \<Rightarrow> instant \<Rightarrow> u64 \<Rightarrow> 'c engine \<times> 'w \<Rightarrow> 'c engine \<times> 'w" where
  "refresh cr powf2 api now unix_secs s =
     (let (e, w) = s; (r, rpc, w) = get_block_template cr api (en_rpc e) w; e = e\<lparr>en_rpc := rpc\<rparr> in
      case r of
        Inl _ \<Rightarrow> (e, w)
      | Inr gbt \<Rightarrow>
          let (go_on, e) = check_template_rules gbt e in
          if \<not> go_on then (e, w)
          else (case build_job_template cr gbt of
                  Inl _ \<Rightarrow> (e, w)
                | Inr template \<Rightarrow> (publish powf2 template now unix_secs e, w)))"

text \<open>
  The refresh loop.  \<open>TipClosed\<close> is the error of a closed channel, after which that branch of the
  \<open>select!\<close> is no longer polled; the result is the flag and whether the template is refreshed,
  with the caller's reason.
\<close>

datatype drive_event = TipSignal | TipClosed | NtimeTick

fun drive_refresh_loop :: "bool \<Rightarrow> drive_event \<Rightarrow> bool \<times> bool option" where
  "drive_refresh_loop alive TipSignal = (alive, if alive then Some True else None)"
| "drive_refresh_loop alive TipClosed = (False, None)"
| "drive_refresh_loop alive NtimeTick = (alive, Some False)"

fun drive ::
  "crates \<Rightarrow> (f64 \<Rightarrow> f64) \<Rightarrow> ('c, 'v, 'w) node_api \<Rightarrow> (drive_event \<times> instant \<times> u64) list \<Rightarrow> bool
     \<Rightarrow> 'c engine \<times> 'w \<Rightarrow> 'c engine \<times> 'w" where
  "drive cr powf2 api [] alive s = s"
| "drive cr powf2 api ((event, now, unix_secs) # events) alive s =
     (case drive_refresh_loop alive event of
        (alive, None) \<Rightarrow> drive cr powf2 api events alive s
      | (alive, Some clean_jobs) \<Rightarrow> drive cr powf2 api events alive (refresh cr powf2 api now unix_secs s))"

definition engine_run ::
  "crates \<Rightarrow> (f64 \<Rightarrow> f64) \<Rightarrow> ('c, 'v, 'w) node_api \<Rightarrow> instant \<Rightarrow> u64 \<Rightarrow> (drive_event \<times> instant \<times> u64) list
     \<Rightarrow> 'c engine \<times> 'w \<Rightarrow> 'c engine \<times> 'w" where
  "engine_run cr powf2 api now unix_secs events s =
     drive cr powf2 api events True (refresh cr powf2 api now unix_secs s)"

section \<open>Submitting a found block\<close>

fun is_permanent_reject :: "pool_error \<Rightarrow> bool" where
  "is_permanent_reject (SubmitBlockRejected reason) \<longleftrightarrow> True"
| "is_permanent_reject e \<longleftrightarrow> False"

text \<open>
  The attempts in line, \<open>n\<close> of them left: the answer that ended them, or the last error.  The
  sleeps between them only let time pass.
\<close>

fun submit_inline ::
  "('c, 'v, 'w) node_api \<Rightarrow> string \<Rightarrow> nat \<Rightarrow> pool_error option \<Rightarrow> 'c rpc_state \<times> 'w
     \<Rightarrow> (pool_error option + block_submit_outcome result) \<times> 'c rpc_state \<times> 'w" where
  "submit_inline api block_hex 0 last_err s = (Inl last_err, s)"
| "submit_inline api block_hex (Suc n) last_err s =
     (case submit_block api block_hex (fst s) (snd s) of
        (Inr outcome, s') \<Rightarrow> (Inr (Inr outcome), s')
      | (Inl e, s') \<Rightarrow>
          if is_permanent_reject e then (Inr (Inl e), s') else submit_inline api block_hex n (Some e) s')"

text \<open>The flag says whether the background task is started.\<close>

definition submit_found_block ::
  "('c, 'v, 'w) node_api \<Rightarrow> string \<Rightarrow> 'c rpc_state \<times> 'w
     \<Rightarrow> block_submit_outcome result \<times> bool \<times> 'c rpc_state \<times> 'w" where
  "submit_found_block api block_hex s =
     (case submit_inline api block_hex (unat SUBMIT_INLINE_ATTEMPTS) None s of
        (Inr r, s') \<Rightarrow> (r, False, s')
      | (Inl last_err, s') \<Rightarrow>
          (Inl (case last_err of Some e \<Rightarrow> e | None \<Rightarrow> Other ''submitblock never attempted''), True, s'))"

text \<open>
  The background task: reading \<open>k\<close> of the clock is taken at the head of the loop, \<open>stamps k\<close> are the
  two readings of the wall clock inside the accounting.
\<close>

datatype resubmit_end = Resubmitted block_submit_outcome | RejectedForGood pool_error | GaveUp

record found_block =
  fb_height :: u64
  fb_hash_hex :: string
  fb_block_hex :: string
  fb_worker :: string
  fb_payout :: string

partial_function (option) resubmit_loop ::
  "('c, 'v, 'w) node_api \<Rightarrow> found_block \<Rightarrow> (nat \<Rightarrow> instant) \<Rightarrow> (nat \<Rightarrow> u64 \<times> u64) \<Rightarrow> instant \<Rightarrow> nat \<Rightarrow> u32
     \<Rightarrow> 'c rpc_state \<times> 'w \<Rightarrow> pool_stats \<Rightarrow> (u32 \<times> resubmit_end \<times> pool_stats) option" where
  "resubmit_loop api b clk stamps deadline k attempt s ps =
     (if clk k < deadline
      then
        let attempt = attempt + 1 in
        case submit_block api (fb_block_hex b) (fst s) (snd s) of
          (Inr outcome, s') \<Rightarrow>
            Some (attempt, Resubmitted outcome, record_block_outcome outcome (fb_height b) (fb_worker b) (fb_payout b)
              (fb_hash_hex b) (fst (stamps k)) (snd (stamps k)) ps)
        | (Inl e, s') \<Rightarrow>
            if is_permanent_reject e then Some (attempt, RejectedForGood e, ps)
            else resubmit_loop api b clk stamps deadline (Suc k) attempt s' ps
      else Some (attempt, GaveUp, ps))"

declare resubmit_loop.simps [code]

definition spawn_resubmit_task ::
  "('c, 'v, 'w) node_api \<Rightarrow> found_block \<Rightarrow> (nat \<Rightarrow> instant) \<Rightarrow> (nat \<Rightarrow> u64 \<times> u64)
     \<Rightarrow> 'c rpc_state \<times> 'w \<Rightarrow> pool_stats \<Rightarrow> (u32 \<times> resubmit_end \<times> pool_stats) option" where
  "spawn_resubmit_task api b clk stamps s ps =
     resubmit_loop api b clk stamps (clk 0 + SUBMIT_RETRY_DEADLINE) 1 SUBMIT_INLINE_ATTEMPTS s ps"

section \<open>What the miners are told\<close>

text \<open>A relation between each broadcast and the one before it.\<close>

fun follows :: "(string option \<Rightarrow> job_broadcast \<Rightarrow> bool) \<Rightarrow> string option \<Rightarrow> job_broadcast list \<Rightarrow> bool" where
  "follows R p [] \<longleftrightarrow> True"
| "follows R p (b # bs) \<longleftrightarrow> R p b \<and> follows R (Some (jt_prev_hash (jb_template b))) bs"

definition broadcast_ok :: "job_broadcast list \<Rightarrow> bool" where
  "broadcast_ok = follows (\<lambda>p b. p \<noteq> Some (jt_prev_hash (jb_template b)) \<longrightarrow> jb_clean b) None"

definition broadcast_exact :: "job_broadcast list \<Rightarrow> bool" where
  "broadcast_exact = follows (\<lambda>p b. jb_clean b \<longleftrightarrow> p \<noteq> Some (jt_prev_hash (jb_template b))) None"

definition served_ok :: "crates \<Rightarrow> bool \<Rightarrow> job_template \<Rightarrow> bool" where
  "served_ok cr strict t \<longleftrightarrow> (\<exists>gbt. build_job_template cr gbt = Inr t \<and> (strict \<longrightarrow> unsupported_gbt_rules gbt = []))"

definition engine_ok :: "crates \<Rightarrow> 'c engine \<Rightarrow> bool" where
  "engine_ok cr e \<longleftrightarrow> (let strict = pc_strict_gbt_rules (en_pool_cfg e); bs = en_sent e in
     broadcast_ok bs \<and> (\<not> strict \<longrightarrow> broadcast_exact bs \<and> (en_current_template e = None \<longrightarrow> bs = []))
     \<and> (\<forall>t. en_current_template e = Some t \<longrightarrow> bs \<noteq> [] \<and> t = jb_template (last bs))
     \<and> (is_blocked_on_rules e \<longrightarrow> en_current_template e = None)
     \<and> (\<forall>b \<in> set bs. served_ok cr strict (jb_template b))
     \<and> (en_has_refreshed e \<longleftrightarrow> bs \<noteq> [])
     \<and> (bs \<noteq> [] \<longrightarrow> ps_current_height (en_stats e) = jt_height (jb_template (last bs))))"

lemma follows_snoc:
  "follows R p (bs @ [b]) \<longleftrightarrow> follows R p bs \<and> R (if bs = [] then p else Some (jt_prev_hash (jb_template (last bs)))) b"
  by (induction bs arbitrary: p) auto

lemma rules_ok:
  assumes "engine_ok cr e" "check_template_rules gbt e = (go_on, e')"
  shows "engine_ok cr e' \<and> (go_on \<longrightarrow> (pc_strict_gbt_rules (en_pool_cfg e') \<longrightarrow> unsupported_gbt_rules gbt = []) \<and>
    \<not> is_blocked_on_rules e')"
  using assms
  by (auto simp: check_template_rules_def engine_ok_def is_blocked_on_rules_def Let_def split: if_splits)

lemma publish_ok:
  assumes "engine_ok cr e" "served_ok cr (pc_strict_gbt_rules (en_pool_cfg e)) t" "\<not> is_blocked_on_rules e"
  shows "engine_ok cr (publish powf2 t now unix_secs e)"
proof -
  have h: "ps_current_height (case r of Inl (u :: pool_error) \<Rightarrow> ps | Inr d \<Rightarrow> set_network_difficulty d ps) = ps_current_height ps" for r ps
    by (cases r) (simp_all add: set_network_difficulty_def)
  show ?thesis
    using assms
    by (cases "en_current_template e")
      (auto simp: publish_def engine_ok_def is_blocked_on_rules_def broadcast_ok_def broadcast_exact_def follows_snoc Let_def
        should_force_clean_def h update_height_def)
qed

lemma refresh_ok:
  assumes "engine_ok cr (fst s)"
  shows "engine_ok cr (fst (refresh cr powf2 api now unix_secs s))"
proof -
  obtain e w where s: "s = (e, w)" by (metis surj_pair)
  obtain r rpc w' where r: "get_block_template cr api (en_rpc e) w = (r, rpc, w')" by (metis prod_cases3)
  have 0: "engine_ok cr (e\<lparr>en_rpc := rpc\<rparr>)" using assms s by (simp add: engine_ok_def is_blocked_on_rules_def)
  show ?thesis
  proof (cases r)
    case (Inr gbt)
    obtain go_on e' where c: "check_template_rules gbt (e\<lparr>en_rpc := rpc\<rparr>) = (go_on, e')" by (metis surj_pair)
    have "served_ok cr (pc_strict_gbt_rules (en_pool_cfg e')) t" if "build_job_template cr gbt = Inr t" go_on for t
      using that rules_ok [OF 0 c] by (auto simp: served_ok_def)
    then show ?thesis
      using rules_ok [OF 0 c] c s r Inr
      by (auto simp: refresh_def split: sum.splits intro!: publish_ok)
  qed (use 0 s r in \<open>simp add: refresh_def\<close>)
qed

lemma drive_ok: "engine_ok cr (fst s) \<Longrightarrow> engine_ok cr (fst (drive cr powf2 api events alive s))"
proof (induction events arbitrary: alive s)
  case (Cons event events)
  obtain v now unix_secs where event: "event = (v, now, unix_secs)" by (metis prod_cases3)
  then show ?case using Cons.prems by (cases v) (simp_all add: Cons.IH refresh_ok)
qed simp

lemma engine_run_ok:
  "engine_ok cr (fst (engine_run cr powf2 api now unix_secs events (engine_new rpc cfg ps start, w)))"
  unfolding engine_run_def
  by (intro drive_ok refresh_ok)
    (simp add: engine_new_def engine_ok_def is_blocked_on_rules_def broadcast_ok_def broadcast_exact_def)

text \<open>
  C10: What the engine serves, after any sequence of tip signals, timer ticks and node answers.  Work
  is announced as not clean only when its parent block is that of the announcement before, so no
  miner is left on a dead parent; without the strict rule check it is announced as clean only when
  the parent changed.  The current template is the one announced last.  Under the strict check
  every template announced came from a node answer with no unsupported rule, and while the last
  answer has one no template is served.  The engine counts as refreshed exactly when it has
  announced work, and the height shown is that of the last announcement.
\<close>

theorem engine_serves:
  "engine_ok cr (fst (engine_run cr powf2 api now unix_secs events (engine_new rpc cfg ps start, w)))"
  by (rule engine_run_ok)

section \<open>The background task ends\<close>

lemma clock_lower:
  assumes "clk 0 \<le> clk 1" "\<And>k. 0 < k \<Longrightarrow> clk k + SUBMIT_RETRY_INTERVAL \<le> clk (Suc k)"
  shows "clk 0 + k * SUBMIT_RETRY_INTERVAL \<le> clk (Suc k)"
proof (induction k)
  case (Suc k)
  then show ?case using assms(2) [of "Suc k"] by simp
qed (use assms(1) in simp)

definition resubmit_result :: "found_block \<Rightarrow> (nat \<Rightarrow> instant) \<Rightarrow> (nat \<Rightarrow> u64 \<times> u64) \<Rightarrow> pool_stats \<Rightarrow> u32 \<times> resubmit_end \<times> pool_stats \<Rightarrow> bool" where
  "resubmit_result b clk stamps ps r \<longleftrightarrow> (case r of (attempt, how, ps') \<Rightarrow>
     (case how of
        Resubmitted outcome \<Rightarrow> (\<exists>k. ps' = record_block_outcome outcome (fb_height b) (fb_worker b) (fb_payout b)
          (fb_hash_hex b) (fst (stamps k)) (snd (stamps k)) ps)
      | RejectedForGood e \<Rightarrow> is_permanent_reject e \<and> ps' = ps
      | GaveUp \<Rightarrow> ps' = ps \<and> (\<exists>k. clk 0 + SUBMIT_RETRY_DEADLINE \<le> clk k)))"

lemma resubmit_ends:
  assumes "\<And>k. clk 0 + k * SUBMIT_RETRY_INTERVAL \<le> clk (Suc k)" "k \<le> 720" "unat attempt = k + 3"
  shows "\<exists>r. resubmit_loop api b clk stamps (clk 0 + SUBMIT_RETRY_DEADLINE) (Suc k) attempt s ps = Some r
    \<and> unat (fst r) \<le> 723 \<and> resubmit_result b clk stamps ps r"
  using assms(2,3)
proof (induction "720 - k" arbitrary: k attempt s)
  case 0
  then have "\<not> clk (Suc k) < clk 0 + SUBMIT_RETRY_DEADLINE"
    using assms(1) [of k] by (simp add: SUBMIT_RETRY_DEADLINE_def SUBMIT_RETRY_INTERVAL_def secs_def)
  then show ?case using 0 by (subst resubmit_loop.simps) (auto simp: resubmit_result_def not_less)
next
  case (Suc n)
  obtain r s' where r: "submit_block api (fb_block_hex b) (fst s) (snd s) = (r, s')" by (metis surj_pair)
  have a: "unat (attempt + 1) = Suc k + 3" using Suc.hyps(2) Suc.prems by (simp add: unat_add_no_wrap)
  show ?case
  proof (cases r)
    case (Inl e)
    then show ?thesis using Suc.hyps(1) [of "Suc k" "attempt + 1" s'] Suc.hyps(2) Suc.prems a r
      by (subst resubmit_loop.simps) (auto simp: Let_def resubmit_result_def not_less)
  next
    case (Inr outcome)
    then show ?thesis using a r Suc.hyps(2) Suc.prems
      by (subst resubmit_loop.simps) (auto simp: Let_def resubmit_result_def not_less)
  qed
qed

text \<open>
  C34: The background task that resubmits a block always ends.  A sleep lasts at least its interval, so
  over two hours the task makes at most 720 attempts beyond the three in line and then stops,
  whatever the node answers.  It touches the statistics only when the node took the block, and
  then records exactly that outcome once; a permanent rejection and giving up leave them alone,
  and it gives up only once the two hours have passed.
\<close>

theorem resubmit_terminates:
  assumes "clk 0 \<le> clk 1" "\<And>k. 0 < k \<Longrightarrow> clk k + SUBMIT_RETRY_INTERVAL \<le> clk (Suc k)"
  shows "\<exists>attempt how ps'. spawn_resubmit_task api b clk stamps s ps = Some (attempt, how, ps') \<and> unat attempt \<le> 723
    \<and> (case how of
         Resubmitted outcome \<Rightarrow> (\<exists>k. ps' = record_block_outcome outcome (fb_height b) (fb_worker b) (fb_payout b)
           (fb_hash_hex b) (fst (stamps k)) (snd (stamps k)) ps)
       | RejectedForGood e \<Rightarrow> is_permanent_reject e \<and> ps' = ps
       | GaveUp \<Rightarrow> ps' = ps \<and> (\<exists>k. clk 0 + SUBMIT_RETRY_DEADLINE \<le> clk k))"
proof -
  have "\<exists>r. resubmit_loop api b clk stamps (clk 0 + SUBMIT_RETRY_DEADLINE) (Suc 0) SUBMIT_INLINE_ATTEMPTS s ps = Some r
      \<and> unat (fst r) \<le> 723 \<and> resubmit_result b clk stamps ps r"
    by (rule resubmit_ends [OF clock_lower [OF assms]]) (simp_all add: SUBMIT_INLINE_ATTEMPTS_def)
  then obtain attempt how ps' where "resubmit_loop api b clk stamps (clk 0 + SUBMIT_RETRY_DEADLINE) (Suc 0) SUBMIT_INLINE_ATTEMPTS s ps
      = Some (attempt, how, ps')" "unat attempt \<le> 723" "resubmit_result b clk stamps ps (attempt, how, ps')" by auto
  then show ?thesis
    by (intro exI [of _ attempt] exI [of _ how] exI [of _ ps']) (simp add: spawn_resubmit_task_def resubmit_result_def)
qed

text \<open>A node that answers every call with a connection error.\<close>

definition deaf_node :: "(unit, unit, unit) node_api" where
  "deaf_node = \<lparr> n_call = \<lambda>c f xs w. (Inl (RpcOther ''refused''), w), n_best_block_hash = \<lambda>c w. (Inr [], w),
     n_header_confirmations = \<lambda>c h w. (Inr 100, w), n_block_count = \<lambda>c w. (Inr 900, w),
     n_block_hash = \<lambda>c n w. (Inr [], w), n_header_time = \<lambda>c h w. (Inr 0, w), n_parse_block_hash = \<lambda>s. Some [],
     n_read_cookie = \<lambda>w. None, n_build_client = \<lambda>k. Inr (), j_get = \<lambda>v k. None, j_as_str = \<lambda>v. None,
     j_as_u64 = \<lambda>v. None, j_as_array = \<lambda>v. None, j_is_null = \<lambda>v. True, j_string = \<lambda>s. (), j_gbt_request = () \<rparr>"

theorem resubmit_terminates_witness:
  "\<exists>attempt how ps'. spawn_resubmit_task deaf_node \<lparr> fb_height = 8, fb_hash_hex = ''cd'', fb_block_hex = ''00'',
      fb_worker = ''addr.rig'', fb_payout = ''addr'' \<rparr> (\<lambda>k. k * secs 10) (\<lambda>k. (100, 100))
      (\<lparr> r_client = (), r_cookie = None \<rparr>, ()) (from_persisted (\<lambda>x. x) (\<lambda>x y. x) persisted_default 100 0) = Some (attempt, how, ps')
     \<and> unat attempt \<le> 723"
  using resubmit_terminates [of "\<lambda>k. k * secs 10" deaf_node "\<lparr> fb_height = 8, fb_hash_hex = ''cd'', fb_block_hex = ''00'',
      fb_worker = ''addr.rig'', fb_payout = ''addr'' \<rparr>" "\<lambda>k. (100, 100)" "(\<lparr> r_client = (), r_cookie = None \<rparr>, ())"
      "from_persisted (\<lambda>x. x) (\<lambda>x y. x) persisted_default 100 0"]
  by (simp add: SUBMIT_RETRY_INTERVAL_def) blast

end
