(* ===== verification/Sv1.thy ===== *)
theory Sv1
  imports Crates F64
begin

text \<open>
  Stratum V1 messages (\<open>src/protocol/sv1.rs\<close>).  JSON values, their text and the derived
  deserialisation of a request are library code: a record of functions over an abstract type of
  values.  The typed requests, their parsing and the responses are the pool's own.
\<close>

section \<open>JSON\<close>

record 'v request =
  rq_id :: 'v
  rq_method :: string
  rq_params :: 'v

record 'v value_api =
  v_null :: 'v
  v_bool :: "bool \<Rightarrow> 'v"
  v_u64 :: "u64 \<Rightarrow> 'v"
  v_string :: "string \<Rightarrow> 'v"
  v_array :: "'v list \<Rightarrow> 'v"
  v_object :: "(string \<times> 'v) list \<Rightarrow> 'v"
  v_as_str :: "'v \<Rightarrow> string option"
  v_as_u64 :: "'v \<Rightarrow> u64 option"
  v_as_f64 :: "'v \<Rightarrow> f64 option"
  v_as_array :: "'v \<Rightarrow> 'v list option"
  v_object_get :: "'v \<Rightarrow> string \<Rightarrow> 'v option"
  v_print :: "'v \<Rightarrow> string"
  v_parse_request :: "string \<Rightarrow> string + 'v request"

text \<open>What \<open>serde_json\<close> documents of the accessors: each reads back what its constructor holds.\<close>

definition value_ok :: "'v value_api \<Rightarrow> bool" where
  "value_ok js \<longleftrightarrow> (\<forall>s. v_as_str js (v_string js s) = Some s) \<and> (\<forall>xs. v_as_array js (v_array js xs) = Some xs)
     \<and> (\<forall>kvs k. v_object_get js (v_object js kvs) k = map_of kvs k)"

definition request_parse :: "'v value_api \<Rightarrow> string \<Rightarrow> 'v request result" where
  "request_parse js line = (case v_parse_request js line of Inl e \<Rightarrow> Inl (Parse e) | Inr r \<Rightarrow> Inr r)"

section \<open>Requests\<close>

record subscribe_params =
  sub_user_agent :: "string option"
  sub_session_id :: "string option"

record authorize_params =
  au_worker :: string
  au_password :: "string option"

record submit_params =
  su_worker :: string
  su_job_id :: string
  su_extranonce2 :: bytes
  su_ntime :: u32
  su_nonce :: u32
  su_version_bits :: "u32 option"

record configure_params =
  cf_version_rolling :: bool
  cf_version_rolling_mask :: "u32 option"
  cf_version_rolling_min_bit_count :: "u32 option"
  cf_minimum_difficulty :: "u64 option"
  cf_subscribe_extranonce :: bool

record suggest_difficulty_params =
  sg_difficulty :: u64

datatype client_message =
    Subscribe subscribe_params
  | Authorize authorize_params
  | Submit submit_params
  | Configure configure_params
  | SuggestDifficulty suggest_difficulty_params
  | ExtranonceSubscribe
  | UnknownRequest string

text \<open>\<open>slice::get\<close>.\<close>

definition get_at :: "'a list \<Rightarrow> nat \<Rightarrow> 'a option" where
  "get_at xs i = (if i < length xs then Some (xs ! i) else None)"

definition str_ref_at :: "'v value_api \<Rightarrow> 'v list \<Rightarrow> nat \<Rightarrow> string \<Rightarrow> string \<Rightarrow> string result" where
  "str_ref_at js arr idx method field =
     ok_or (InvalidParams method (''missing or non-string field `'' @ field @ ''` at index '' @ show_nat idx))
       (Option.bind (get_at arr idx) (v_as_str js))"

definition str_at :: "'v value_api \<Rightarrow> 'v list \<Rightarrow> nat \<Rightarrow> string \<Rightarrow> string \<Rightarrow> string result" where
  "str_at js arr idx method field = str_ref_at js arr idx method field"

definition opt_str :: "'v value_api \<Rightarrow> 'v \<Rightarrow> nat \<Rightarrow> string option" where
  "opt_str js params i = Option.bind (v_as_array js params) (\<lambda>a. Option.bind (get_at a i) (v_as_str js))"

definition subscribe_parse :: "'v value_api \<Rightarrow> 'v \<Rightarrow> subscribe_params result" where
  "subscribe_parse js params = Inr \<lparr> sub_user_agent = opt_str js params 0, sub_session_id = opt_str js params 1 \<rparr>"

definition authorize_parse :: "'v value_api \<Rightarrow> 'v \<Rightarrow> authorize_params result" where
  "authorize_parse js params =
     bind_res (ok_or (InvalidParams ''mining.authorize'' ''params must be an array'') (v_as_array js params)) (\<lambda>arr.
     bind_res (ok_or (InvalidParams ''mining.authorize'' ''missing worker name'')
                 (Option.bind (get_at arr 0) (v_as_str js))) (\<lambda>worker.
     Inr \<lparr> au_worker = worker, au_password = Option.bind (get_at arr 1) (v_as_str js) \<rparr>))"

definition submit_parse :: "crates \<Rightarrow> 'v value_api \<Rightarrow> 'v \<Rightarrow> submit_params result" where
  "submit_parse cr js params =
     bind_res (ok_or (InvalidParams ''mining.submit'' ''params must be an array'') (v_as_array js params)) (\<lambda>arr.
     bind_res (str_at js arr 0 ''mining.submit'' ''worker'') (\<lambda>worker.
     bind_res (str_at js arr 1 ''mining.submit'' ''job_id'') (\<lambda>job_id.
     bind_res (str_ref_at js arr 2 ''mining.submit'' ''extranonce2'') (\<lambda>en2_hex.
     bind_res (str_ref_at js arr 3 ''mining.submit'' ''ntime'') (\<lambda>ntime_hex.
     bind_res (str_ref_at js arr 4 ''mining.submit'' ''nonce'') (\<lambda>nonce_hex.
     bind_res (ok_or (InvalidParams ''mining.submit'' ''extranonce2 is not valid hex'') (hex_decode cr en2_hex)) (\<lambda>extranonce2.
     bind_res (ok_or (InvalidParams ''mining.submit'' ''ntime is not valid hex u32'') (u32_from_hex ntime_hex)) (\<lambda>ntime.
     bind_res (ok_or (InvalidParams ''mining.submit'' ''nonce is not valid hex u32'') (u32_from_hex nonce_hex)) (\<lambda>nonce.
     Inr \<lparr> su_worker = worker, su_job_id = job_id, su_extranonce2 = extranonce2, su_ntime = ntime, su_nonce = nonce,
           su_version_bits = Option.bind (Option.bind (get_at arr 5) (v_as_str js)) u32_from_hex \<rparr>)))))))))"

definition configure_default :: configure_params where
  "configure_default = \<lparr> cf_version_rolling = False, cf_version_rolling_mask = None,
     cf_version_rolling_min_bit_count = None, cf_minimum_difficulty = None, cf_subscribe_extranonce = False \<rparr>"

text \<open>One extension of the list; \<open>param\<close> looks a key up in the second parameter.\<close>

definition configure_extension ::
  "'v value_api \<Rightarrow> (string \<Rightarrow> 'v option) \<Rightarrow> 'v \<Rightarrow> configure_params \<Rightarrow> configure_params" where
  "configure_extension js param ext result =
     (if v_as_str js ext = Some ''version-rolling'' then
        let result = result\<lparr>cf_version_rolling := True\<rparr>;
            result = (case Option.bind (param ''version-rolling.mask'') (v_as_str js) of
                        Some mask_str \<Rightarrow> result\<lparr>cf_version_rolling_mask := u32_from_hex mask_str\<rparr> | None \<Rightarrow> result)
        in (case Option.bind (param ''version-rolling.min-bit-count'') (v_as_u64 js) of
              Some min_bits \<Rightarrow> result\<lparr>cf_version_rolling_min_bit_count := Some (ucast min_bits)\<rparr> | None \<Rightarrow> result)
      else if v_as_str js ext = Some ''minimum-difficulty'' then
        result\<lparr>cf_minimum_difficulty := Option.bind (param ''minimum-difficulty.value'') (v_as_u64 js)\<rparr>
      else if v_as_str js ext = Some ''subscribe-extranonce'' then result\<lparr>cf_subscribe_extranonce := True\<rparr>
      else result)"

definition configure_parse :: "'v value_api \<Rightarrow> 'v \<Rightarrow> configure_params result" where
  "configure_parse js params =
     (let arr = v_as_array js params;
          extensions = (case Option.bind arr (\<lambda>a. Option.bind (get_at a 0) (v_as_array js)) of Some xs \<Rightarrow> xs | None \<Rightarrow> []);
          param = (\<lambda>k. Option.bind arr (\<lambda>a. Option.bind (get_at a 1) (\<lambda>v. v_object_get js v k)))
      in Inr (foldl (\<lambda>result ext. configure_extension js param ext result) configure_default extensions))"

definition suggest_difficulty_parse :: "'v value_api \<Rightarrow> 'v \<Rightarrow> suggest_difficulty_params result" where
  "suggest_difficulty_parse js params =
     (let v = (case Option.bind (v_as_array js params) (\<lambda>a. get_at a 0) of Some v \<Rightarrow> v | None \<Rightarrow> params) in
      bind_res (ok_or (InvalidParams ''mining.suggest_difficulty'' ''expected a numeric difficulty'') (v_as_f64 js v)) (\<lambda>d.
      if \<not> is_finite d \<or> f_lt d (Fin 1)
      then Inl (InvalidParams ''mining.suggest_difficulty'' ''difficulty must be a finite number >= 1'')
      else Inr \<lparr> sg_difficulty = f_to_u64 d \<rparr>))"

definition from_request :: "crates \<Rightarrow> 'v value_api \<Rightarrow> 'v request \<Rightarrow> client_message result" where
  "from_request cr js req =
     (let m = rq_method req; p = rq_params req in
      if m = ''mining.subscribe'' then bind_res (subscribe_parse js p) (\<lambda>x. Inr (Subscribe x))
      else if m = ''mining.authorize'' then bind_res (authorize_parse js p) (\<lambda>x. Inr (Authorize x))
      else if m = ''mining.submit'' then bind_res (submit_parse cr js p) (\<lambda>x. Inr (Submit x))
      else if m = ''mining.configure'' then bind_res (configure_parse js p) (\<lambda>x. Inr (Configure x))
      else if m = ''mining.suggest_difficulty'' then bind_res (suggest_difficulty_parse js p) (\<lambda>x. Inr (SuggestDifficulty x))
      else if m = ''mining.extranonce.subscribe'' then Inr ExtranonceSubscribe
      else Inr (UnknownRequest m))"

section \<open>Responses\<close>

definition resp_ok :: "'v value_api \<Rightarrow> 'v \<Rightarrow> 'v \<Rightarrow> string" where
  "resp_ok js rid res = v_print js (v_object js [(''id'', rid), (''result'', res), (''error'', v_null js)])"

definition resp_err :: "'v value_api \<Rightarrow> 'v \<Rightarrow> 'v \<Rightarrow> string" where
  "resp_err js rid err = v_print js (v_object js [(''id'', rid), (''result'', v_null js), (''error'', err)])"

text \<open>The error tuple \<open>[code, message, null]\<close> as a value.\<close>

definition error_value :: "'v value_api \<Rightarrow> pool_error \<Rightarrow> 'v" where
  "error_value js e =
     (let (code, msg) = to_stratum_error e in v_array js [v_u64 js (ucast code), v_string js msg, v_null js])"

definition resp_subscribe :: "'v value_api \<Rightarrow> 'v \<Rightarrow> string \<Rightarrow> string \<Rightarrow> nat \<Rightarrow> string" where
  "resp_subscribe js rid session_id extranonce1_hex extranonce2_size =
     resp_ok js rid (v_array js [
       v_array js [v_array js [v_string js ''mining.set_difficulty'', v_string js session_id],
                   v_array js [v_string js ''mining.notify'', v_string js session_id]],
       v_string js extranonce1_hex, v_u64 js (of_nat extranonce2_size)])"

definition resp_configure :: "'v value_api \<Rightarrow> 'v \<Rightarrow> bool \<Rightarrow> u32 \<Rightarrow> u64 option \<Rightarrow> bool \<Rightarrow> string" where
  "resp_configure js rid version_rolling our_mask min_difficulty subscribe_extranonce =
     resp_ok js rid (v_object js (
       (if version_rolling
        then [(''version-rolling'', v_bool js True), (''version-rolling.mask'', v_string js (show_hex 8 (unat our_mask)))]
        else [])
       @ (case min_difficulty of
            Some md \<Rightarrow> [(''minimum-difficulty'', v_bool js True), (''minimum-difficulty.value'', v_u64 js md)]
          | None \<Rightarrow> [])
       @ (if subscribe_extranonce then [(''subscribe-extranonce'', v_bool js True)] else [])))"

definition resp_extranonce_subscribe :: "'v value_api \<Rightarrow> 'v \<Rightarrow> string" where
  "resp_extranonce_subscribe js rid = resp_ok js rid (v_bool js True)"

definition resp_set_difficulty :: "'v value_api \<Rightarrow> u64 \<Rightarrow> string" where
  "resp_set_difficulty js difficulty =
     v_print js (v_object js [(''id'', v_null js), (''method'', v_string js ''mining.set_difficulty''),
       (''params'', v_array js [v_u64 js difficulty])])"

definition notify_value ::
  "'v value_api \<Rightarrow> string \<Rightarrow> string \<Rightarrow> string \<Rightarrow> string \<Rightarrow> string list \<Rightarrow> u32 \<Rightarrow> string \<Rightarrow> u32 \<Rightarrow> bool \<Rightarrow> 'v" where
  "notify_value js job_id prev_hash coinbase1 coinbase2 merkle_branch version bits ntime clean_jobs =
     v_object js [(''id'', v_null js), (''method'', v_string js ''mining.notify''),
       (''params'', v_array js [v_string js job_id, v_string js prev_hash, v_string js coinbase1, v_string js coinbase2,
          v_array js (map (v_string js) merkle_branch), v_string js (show_hex 8 (unat version)), v_string js bits,
          v_string js (show_hex 8 (unat ntime)), v_bool js clean_jobs])]"

definition resp_set_extranonce :: "'v value_api \<Rightarrow> string \<Rightarrow> nat \<Rightarrow> string" where
  "resp_set_extranonce js extranonce1_hex extranonce2_size =
     v_print js (v_object js [(''id'', v_null js), (''method'', v_string js ''mining.set_extranonce''),
       (''params'', v_array js [v_string js extranonce1_hex, v_u64 js (of_nat extranonce2_size)])])"

section \<open>The wire\<close>

lemma u32_from_show_hex [simp]: "u32_from_hex (show_hex 8 (unat x)) = Some x"
proof -
  have l: "length (show_hex 8 (unat x)) = 8" by simp
  have n: "hd (show_hex 8 (unat x)) \<noteq> CHR ''+''"
  proof -
    have c: "hex_char (m mod 16) \<noteq> CHR ''+''" for m
    proof
      assume "hex_char (m mod 16) = CHR ''+''"
      then have "hex_digit (CHR ''+'') = Some (m mod 16)" using hex_digit_hex_char [of "m mod 16"] by simp
      then show False by (simp add: hex_digit_def)
    qed
    have "hd (show_hex (Suc k) n) \<noteq> CHR ''+''" for k n
    proof (induction k arbitrary: n)
      case (Suc k)
      have "show_hex (Suc k) (n div 16) \<noteq> []" by (metis length_show_hex length_0_conv nat.distinct(1))
      then show ?case using Suc [of "n div 16"] unfolding show_hex.simps(2) [of "Suc k"] by (simp only: hd_append2 not_False_eq_True)
    qed (simp add: c)
    from this [of 7 "unat x"] show ?thesis by simp
  qed
  have "hex_digits (2 ^ 32) 0 (show_hex 8 (unat x)) = Some (unat x)"
    using hex_digits_show_hex [of 0 8 "unat x" "2 ^ 32"] unat_lt [of x] by simp
  moreover have "xs \<noteq> [] \<and> xs \<noteq> [c]" if "length xs = 8" for xs :: string and c using that by auto
  from this [OF l] have "show_hex 8 (unat x) \<noteq> []" "show_hex 8 (unat x) \<noteq> [c]" for c by blast+
  ultimately show ?thesis using n by (simp add: u32_from_hex_def del: show_hex.simps)
qed

text \<open>
  C36: A share survives the wire.  Reading a \<open>mining.submit\<close> whose fields are rendered the way
  miners render them gives back the worker, the job, the extranonce, the time, the nonce and the
  version bits, and a request with fewer than five fields is refused.
\<close>

theorem submit_roundtrip:
  assumes "value_ok js" "hex_ok cr" "rq_method req = ''mining.submit''"
    and "rq_params req = v_array js (take n (map (v_string js) [worker, job_id, hex_encode cr extranonce2,
      show_hex 8 (unat ntime), show_hex 8 (unat nonce), show_hex 8 (unat version_bits)]))"
  shows "(5 \<le> n \<longrightarrow> from_request cr js req = Inr (Submit \<lparr> su_worker = worker, su_job_id = job_id, su_extranonce2 = extranonce2,
      su_ntime = ntime, su_nonce = nonce, su_version_bits = (if 6 \<le> n then Some version_bits else None) \<rparr>))
    \<and> (n < 5 \<longrightarrow> (\<exists>detail. from_request cr js req = Inl (InvalidParams ''mining.submit'' detail)))"
proof -
  have rd: "v_as_array js (rq_params req) = Some (take n (map (v_string js) [worker, job_id, hex_encode cr extranonce2,
      show_hex 8 (unat ntime), show_hex 8 (unat nonce), show_hex 8 (unat version_bits)]))" "v_as_str js (v_string js s) = Some s" for s
    using assms by (simp_all add: value_ok_def)
  have h: "hex_decode cr (hex_encode cr b) = Some b" for b using assms(2) by (simp add: hex_ok_def)
  show ?thesis
  proof (cases "5 \<le> n")
    case True
    then show ?thesis
      using assms(3) rd h by (auto simp: from_request_def submit_parse_def str_at_def str_ref_at_def get_at_def ok_or_def)
  next
    case False
    then have "n \<in> {0, 1, 2, 3, 4}" by auto
    then show ?thesis
      using assms(3) rd h by (auto simp: from_request_def submit_parse_def str_at_def str_ref_at_def get_at_def ok_or_def)
  qed
qed

datatype sample_json = SNull | SBool bool | SNum u64 | SStr string | SArr "sample_json list" | SObj "(string \<times> sample_json) list"

definition sample_values :: "sample_json value_api" where
  "sample_values = \<lparr> v_null = SNull, v_bool = SBool, v_u64 = SNum, v_string = SStr, v_array = SArr, v_object = SObj,
     v_as_str = (\<lambda>v. case v of SStr s \<Rightarrow> Some s | _ \<Rightarrow> None), v_as_u64 = (\<lambda>v. case v of SNum n \<Rightarrow> Some n | _ \<Rightarrow> None),
     v_as_f64 = (\<lambda>v. case v of SNum n \<Rightarrow> Some (f64_of_word n) | _ \<Rightarrow> None),
     v_as_array = (\<lambda>v. case v of SArr xs \<Rightarrow> Some xs | _ \<Rightarrow> None),
     v_object_get = (\<lambda>v k. case v of SObj kvs \<Rightarrow> map_of kvs k | _ \<Rightarrow> None),
     v_print = (\<lambda>v. []), v_parse_request = (\<lambda>s. Inl []) \<rparr>"

lemma sample_values_ok: "value_ok sample_values"
  by (simp add: value_ok_def sample_values_def)

theorem submit_roundtrip_witness:
  "from_request sample_crates sample_values \<lparr> rq_id = SNull, rq_method = ''mining.submit'',
     rq_params = SArr (take 5 (map SStr [''addr.rig'', ''1'', hex_encode sample_crates [5, 6, 7, 8],
       show_hex 8 (unat (1700000001 :: u32)), show_hex 8 (unat (9 :: u32)), show_hex 8 (unat (0 :: u32))])) \<rparr>
   = Inr (Submit \<lparr> su_worker = ''addr.rig'', su_job_id = ''1'', su_extranonce2 = [5, 6, 7, 8], su_ntime = 1700000001,
       su_nonce = 9, su_version_bits = None \<rparr>)"
  using submit_roundtrip [OF sample_values_ok sample_crates_ok(1), of "\<lparr> rq_id = SNull, rq_method = ''mining.submit'',
     rq_params = SArr (take 5 (map SStr [''addr.rig'', ''1'', hex_encode sample_crates [5, 6, 7, 8],
       show_hex 8 (unat (1700000001 :: u32)), show_hex 8 (unat (9 :: u32)), show_hex 8 (unat (0 :: u32))])) \<rparr>" 5
     "''addr.rig''" "''1''" "[5, 6, 7, 8]" 1700000001 9 0]
  by (simp add: sample_values_def del: show_hex.simps)

end
