(* ===== verification/Session.thy ===== *)
theory Session
  imports Validator Credit Vardiff Engine Sv1
begin

text \<open>
  One Stratum V1 connection (\<open>src/network/session.rs\<close>).  The session is a record, every handler
  takes and returns it together with what it shares with the rest of the pool: the statistics,
  the ban list, the node, the engine's current template, the job counter and the background
  tasks it has started.  Library code comes in through \<open>env\<close>, and every clock reading of one
  event through \<open>moment\<close>.  A handler's \<open>None\<close> is a panic.
\<close>

declare of_nat_unat [simp del]

section \<open>State\<close>

record ('a, 'c, 'v, 'w) env =
  ev_crates :: crates
  ev_address :: "'a address_api"
  ev_node :: "('c, 'v, 'w) node_api"
  ev_json :: "'v value_api"
  ev_exp :: "f64 \<Rightarrow> f64"
  ev_powf2 :: "f64 \<Rightarrow> f64"
  ev_epoch :: u64

record ('c, 'w) pool =
  pl_stats :: pool_stats
  pl_bans :: ban_list
  pl_node :: "'c rpc_state \<times> 'w"
  pl_template :: "job_template option"
  pl_job_counter :: u64
  pl_resubmits :: "found_block list"

text \<open>
  \<open>mo_ts\<close> are the wall-clock seconds the statistics read, in the order of the calls; \<open>mo_wall\<close> is the
  system time of the validator.
\<close>

record moment =
  mo_bucket1 :: instant
  mo_bucket2 :: instant
  mo_ban :: instant
  mo_inst :: instant
  mo_meter :: instant
  mo_wall :: "nat option"
  mo_ts :: "nat \<Rightarrow> u64"
  mo_retarget :: instant
  mo_retarget_ts :: u64

record session =
  se_ip :: ip_addr
  se_worker :: "string option"
  se_identity :: "miner_identity option"
  se_user_agent :: "string option"
  se_session_id :: string
  se_subscribed :: bool
  se_authorized :: bool
  se_version_rolling_enabled :: bool
  se_version_rolling_mask :: u32
  se_version_rolling_min_bit_count :: "u32 option"
  se_extranonce1 :: bytes
  se_extranonce2_size :: nat
  se_current_template :: "job_template option"
  se_issued_jobs :: issued_jobs
  se_coinbase_tag :: string
  se_network :: network
  se_difficulty :: u64
  se_vardiff :: vardiff
  se_vardiff_cfg :: vardiff_config
  se_credit :: share_credit
  se_share_set :: share_set
  se_guard :: session_guard
  se_shares_accepted :: u64
  se_shares_rejected :: u64
  se_connect_time :: instant

definition stats_worker :: "session \<Rightarrow> string option" where
  "stats_worker s = map_option mi_canonical_name (se_identity s)"

text \<open>The session identifier is random; the four readings are those of the controllers and the connect time.\<close>

definition session_new ::
  "ip_addr \<Rightarrow> config \<Rightarrow> bytes \<Rightarrow> network \<Rightarrow> u64 \<Rightarrow> instant \<Rightarrow> instant \<Rightarrow> instant \<Rightarrow> instant \<Rightarrow> session" where
  "session_new peer cfg extranonce1 network random_u64 now1 now2 now3 now4 =
     (let initial_diff = pc_initial_difficulty (c_pool cfg) in
      \<lparr> se_ip = peer, se_worker = None, se_identity = None, se_user_agent = None,
        se_session_id = show_hex 16 (unat random_u64), se_subscribed = False, se_authorized = False,
        se_version_rolling_enabled = False, se_version_rolling_mask = VERSION_ROLLING_MASK,
        se_version_rolling_min_bit_count = None, se_extranonce1 = extranonce1,
        se_extranonce2_size = pc_extranonce2_size (c_pool cfg), se_current_template = None,
        se_issued_jobs = issued_new, se_coinbase_tag = pc_coinbase_tag (c_pool cfg), se_network = network,
        se_difficulty = initial_diff, se_vardiff = vardiff_new (c_vardiff cfg) initial_diff now1,
        se_vardiff_cfg = c_vardiff cfg, se_credit = share_credit_new (vc_min_difficulty (c_vardiff cfg)) now2,
        se_share_set = share_set_new, se_guard = session_guard_new (c_security cfg) now3,
        se_shares_accepted = 0, se_shares_rejected = 0, se_connect_time = now4 \<rparr>)"

definition network_difficulty :: "('a, 'c, 'v, 'w) env \<Rightarrow> session \<Rightarrow> u64 option" where
  "network_difficulty env s =
     Option.bind (se_current_template s) (\<lambda>template.
       case bits_to_difficulty (ev_powf2 env) (jt_bits template) of
         Inl _ \<Rightarrow> None
       | Inr difficulty \<Rightarrow> if is_finite difficulty \<and> f_le (Fin 1) difficulty then Some (f_to_u64 difficulty) else None)"

text \<open>The first part of the extranonce is a counter, the last \<open>width\<close> bytes of it in big-endian order.\<close>

definition generate_extranonce1 :: "nat \<Rightarrow> u64 \<Rightarrow> bytes \<times> u64" where
  "generate_extranonce1 width counter =
     (let be = to_be 8 (unat counter) in
      (if width \<le> length be then drop (length be - width) be else replicate (width - length be) 0 @ be, counter + 1))"

section \<open>Jobs\<close>

definition materialize_job ::
  "('a, 'c, 'v, 'w) env \<Rightarrow> session \<Rightarrow> job_template \<Rightarrow> u64 \<Rightarrow> stratum_job result \<times> u64" where
  "materialize_job env s template counter =
     (case se_identity s of
        None \<Rightarrow> (Inl NotAuthorized, counter)
      | Some identity \<Rightarrow>
          build_job_for_payout (ev_crates env) (ev_epoch env) counter template (mi_payout identity) (se_coinbase_tag s)
            (length (se_extranonce1 s)) (se_extranonce2_size s))"

definition build_notify :: "('a, 'c, 'v, 'w) env \<Rightarrow> stratum_job \<Rightarrow> bool \<Rightarrow> string" where
  "build_notify env job clean =
     v_print (ev_json env) (notify_value (ev_json env) (sj_job_id job) (sj_prev_hash job)
       (hex_encode (ev_crates env) (sj_coinbase1 job)) (hex_encode (ev_crates env) (sj_coinbase2 job))
       (sj_merkle_branch job) (sj_version job) (sj_bits job) (sj_cur_time job) clean)"

section \<open>Share bookkeeping\<close>

definition accept_share ::
  "('a, 'c, 'v, 'w) env \<Rightarrow> moment \<Rightarrow> string \<Rightarrow> u64 \<Rightarrow> u64 \<Rightarrow> session \<times> ('c, 'w) pool \<Rightarrow> session \<times> ('c, 'w) pool" where
  "accept_share env mo worker hash_difficulty job_difficulty st =
     (let (s, p) = st;
          (worth, cr) = credit (se_credit s) (se_difficulty s) job_difficulty hash_difficulty (mo_inst mo)
      in (s\<lparr>se_shares_accepted := se_shares_accepted s + 1, se_credit := cr,
            se_vardiff := record_share (ev_exp env) (se_vardiff s) worth (mo_inst mo)\<rparr>,
          p\<lparr>pl_stats := record_accepted (se_session_id s) worker worth hash_difficulty (mo_meter mo) (mo_ts mo 0) (mo_ts mo 1)
                         (pl_stats p)\<rparr>))"

definition reject_share ::
  "moment \<Rightarrow> reject_reason \<Rightarrow> session \<times> ('c, 'w) pool \<Rightarrow> bool \<times> session \<times> ('c, 'w) pool" where
  "reject_share mo reason st =
     (let (s, p) = st;
          worker = (case stats_worker s of Some w \<Rightarrow> w | None \<Rightarrow> ''?'');
          (over, guard, ps) = record_rejected worker reason (mo_ts mo 0) (se_guard s) (pl_stats p)
      in (over, s\<lparr>se_shares_rejected := se_shares_rejected s + 1, se_guard := guard\<rparr>, p\<lparr>pl_stats := ps\<rparr>))"

section \<open>Handlers\<close>

datatype handle_result = Messages "string list" | Disconnect string

definition err_msg :: "('a, 'c, 'v, 'w) env \<Rightarrow> 'v request \<Rightarrow> pool_error \<Rightarrow> handle_result" where
  "err_msg env req e = Messages [resp_err (ev_json env) (rq_id req) (error_value (ev_json env) e)]"

definition ok_true :: "('a, 'c, 'v, 'w) env \<Rightarrow> 'v request \<Rightarrow> string" where
  "ok_true env req = resp_ok (ev_json env) (rq_id req) (v_bool (ev_json env) True)"

text \<open>\<open>u32::count_ones\<close>.\<close>

definition count_ones :: "u32 \<Rightarrow> nat" where
  "count_ones x = length (filter (bit x) [0..<32])"

definition handle_configure ::
  "('a, 'c, 'v, 'w) env \<Rightarrow> 'v request \<Rightarrow> configure_params \<Rightarrow> session \<Rightarrow> handle_result \<times> session" where
  "handle_configure env req params s =
     (let s = (if cf_version_rolling params then
                 let negotiated = (case cf_version_rolling_mask params of
                                     Some m \<Rightarrow> and m (se_version_rolling_mask s) | None \<Rightarrow> se_version_rolling_mask s);
                     min_bits_ok = (case cf_version_rolling_min_bit_count params of
                                      Some min_bits \<Rightarrow> unat min_bits \<le> count_ones negotiated | None \<Rightarrow> True)
                 in s\<lparr>se_version_rolling_enabled := min_bits_ok \<and> negotiated \<noteq> 0, se_version_rolling_mask := negotiated,
                      se_version_rolling_min_bit_count := cf_version_rolling_min_bit_count params\<rparr>
               else s)
      in (Messages [resp_configure (ev_json env) (rq_id req) (se_version_rolling_enabled s) (se_version_rolling_mask s)
            (Some (se_difficulty s)) (cf_subscribe_extranonce params)], s))"

definition handle_suggest_difficulty ::
  "('a, 'c, 'v, 'w) env \<Rightarrow> moment \<Rightarrow> 'v request \<Rightarrow> suggest_difficulty_params \<Rightarrow> session \<Rightarrow> (handle_result \<times> session) option" where
  "handle_suggest_difficulty env mo req params s =
     map_option (\<lambda>(applied, vd).
         (Messages (ok_true env req # (if se_subscribed s then [resp_set_difficulty (ev_json env) applied] else [])),
          s\<lparr>se_vardiff := vd, se_difficulty := applied\<rparr>))
       (suggest (se_vardiff s) (sg_difficulty params) (mo_inst mo))"

definition handle_subscribe ::
  "('a, 'c, 'v, 'w) env \<Rightarrow> 'v request \<Rightarrow> subscribe_params \<Rightarrow> session \<Rightarrow> handle_result \<times> session" where
  "handle_subscribe env req params s =
     (Messages [resp_subscribe (ev_json env) (rq_id req) (se_session_id s) (hex_encode (ev_crates env) (se_extranonce1 s))
        (se_extranonce2_size s)],
      s\<lparr>se_subscribed := True, se_user_agent := sub_user_agent params\<rparr>)"

text \<open>A new identity: what changes before it is bound to the session, \<open>None\<close> when its budget is spent.\<close>

definition switch_identity ::
  "moment \<Rightarrow> miner_identity \<Rightarrow> session \<times> ('c, 'w) pool \<Rightarrow> (session \<times> ('c, 'w) pool) option \<times> session" where
  "switch_identity mo identity st =
     (let (s, p) = st; (allowed, guard) = record_new_authorization (se_guard s); s = s\<lparr>se_guard := guard\<rparr> in
      if \<not> allowed then (None, s)
      else
        let ps = (case se_identity s of Some prev \<Rightarrow> mark_worker_offline (mi_canonical_name prev) (pl_stats p) | None \<Rightarrow> pl_stats p);
            ps = mark_worker_online (mi_canonical_name identity) (se_difficulty s) (mo_ts mo 0) ps;
            ps = set_worker_protocol (mi_canonical_name identity) ''sv1'' ps
        in (Some (s\<lparr>se_worker := None, se_identity := None, se_issued_jobs := issued_clear (se_issued_jobs s),
                    se_share_set := share_clear (se_share_set s)\<rparr>, p\<lparr>pl_stats := ps\<rparr>), s))"

text \<open>The reply to an accepted authorization, with the first job when there is a template.\<close>

definition first_job ::
  "('a, 'c, 'v, 'w) env \<Rightarrow> moment \<Rightarrow> 'v request \<Rightarrow> session \<times> ('c, 'w) pool \<Rightarrow> handle_result \<times> session \<times> ('c, 'w) pool" where
  "first_job env mo req st =
     (let (s, p) = st; msgs = [ok_true env req, resp_set_difficulty (ev_json env) (se_difficulty s)] in
      case (case se_current_template s of Some t \<Rightarrow> Some t | None \<Rightarrow> pl_template p) of
        None \<Rightarrow> (Messages msgs, s, p)
      | Some template \<Rightarrow>
          (case materialize_job env s template (pl_job_counter p) of
             (Inl _, counter) \<Rightarrow> (Disconnect ''internal payout job error'', s, p\<lparr>pl_job_counter := counter\<rparr>)
           | (Inr job, counter) \<Rightarrow>
               (Messages (msgs @ [build_notify env job True]),
                s\<lparr>se_current_template := Some template,
                  se_issued_jobs := issue (se_issued_jobs s) job True (se_difficulty s) (mo_inst mo)\<rparr>,
                p\<lparr>pl_job_counter := counter\<rparr>)))"

definition handle_authorize ::
  "('a, 'c, 'v, 'w) env \<Rightarrow> moment \<Rightarrow> 'v request \<Rightarrow> authorize_params \<Rightarrow> session \<times> ('c, 'w) pool
     \<Rightarrow> handle_result \<times> session \<times> ('c, 'w) pool" where
  "handle_authorize env mo req params st =
     (let (s, p) = st in
      if \<not> se_subscribed s then (err_msg env req NotSubscribed, s, p)
      else case check_worker_name (se_guard s) (au_worker params) of
        Inl e \<Rightarrow> (err_msg env req e, s, p)
      | Inr _ \<Rightarrow>
          (case identity_parse (ev_address env) (au_worker params) (se_network s) (sg_max_worker_name_len (se_guard s)) of
             Inl _ \<Rightarrow> (Messages [resp_ok (ev_json env) (rq_id req) (v_bool (ev_json env) False)], s, p)
           | Inr identity \<Rightarrow>
               (case (if stats_worker s \<noteq> Some (mi_canonical_name identity) then switch_identity mo identity (s, p)
                      else (Some (s, p), s)) of
                  (None, s') \<Rightarrow> (Disconnect ''too many worker identities'', s', p)
                | (Some (s', p'), _) \<Rightarrow>
                    first_job env mo req
                      (s'\<lparr>se_authorized := True, se_worker := Some (au_worker params), se_identity := Some identity\<rparr>, p'))))"

definition share_params_of :: "session \<Rightarrow> submit_params \<Rightarrow> share_params" where
  "share_params_of s params =
     \<lparr> sp_job_id = su_job_id params, sp_extranonce2 = su_extranonce2 params, sp_ntime = su_ntime params,
       sp_nonce = su_nonce params,
       sp_version_bits = (if se_version_rolling_enabled s then su_version_bits params else None),
       sp_version_rolling_mask = (if se_version_rolling_enabled s then Some (se_version_rolling_mask s) else None) \<rparr>"

definition share_key_of :: "submit_params \<Rightarrow> share_key" where
  "share_key_of params =
     \<lparr> sk_job_id = su_job_id params, sk_extranonce2 = su_extranonce2 params, sk_ntime = su_ntime params,
       sk_nonce = su_nonce params, sk_version_bits = (case su_version_bits params of Some b \<Rightarrow> b | None \<Rightarrow> 0) \<rparr>"

definition reject_with ::
  "('a, 'c, 'v, 'w) env \<Rightarrow> moment \<Rightarrow> 'v request \<Rightarrow> reject_reason \<Rightarrow> pool_error \<Rightarrow> session \<times> ('c, 'w) pool
     \<Rightarrow> handle_result \<times> session \<times> ('c, 'w) pool" where
  "reject_with env mo req reason e st =
     (let (over, s, p) = reject_share mo reason st
      in (if over then Disconnect ''too many invalid shares'' else err_msg env req e, s, p))"

text \<open>A share that is also a block: submitted, credited, and only then its outcome recorded.\<close>

definition submit_block_share ::
  "('a, 'c, 'v, 'w) env \<Rightarrow> moment \<Rightarrow> string \<Rightarrow> job_entry \<Rightarrow> u64 \<Rightarrow> string \<Rightarrow> bytes \<Rightarrow> session \<times> ('c, 'w) pool
     \<Rightarrow> session \<times> ('c, 'w) pool" where
  "submit_block_share env mo worker entry hash_difficulty block_hex hash st =
     (let (s, p) = st;
          hash_hex = block_hash_display (ev_crates env) hash;
          height = sj_height (je_job entry); payout = sj_payout_address (je_job entry);
          (r, retried, node) = submit_found_block (ev_node env) block_hex (pl_node p);
          p = p\<lparr>pl_node := node,
                pl_resubmits := pl_resubmits p @ (if retried then [\<lparr> fb_height = height, fb_hash_hex = hash_hex,
                  fb_block_hex = block_hex, fb_worker = worker, fb_payout = payout \<rparr>] else [])\<rparr>;
          (s, p) = accept_share env mo worker hash_difficulty (je_difficulty entry) (s, p)
      in (s, case r of
               Inr outcome \<Rightarrow> p\<lparr>pl_stats := record_block_outcome outcome height worker payout hash_hex (mo_ts mo 2) (mo_ts mo 3)
                                 (pl_stats p)\<rparr>
             | Inl _ \<Rightarrow> p))"

definition handle_submit ::
  "('a, 'c, 'v, 'w) env \<Rightarrow> moment \<Rightarrow> 'v request \<Rightarrow> submit_params \<Rightarrow> session \<times> ('c, 'w) pool
     \<Rightarrow> handle_result \<times> session \<times> ('c, 'w) pool" where
  "handle_submit env mo req params st =
     (let (s, p) = st in
      if \<not> se_authorized s \<or> se_worker s \<noteq> Some (su_worker params)
      then (err_msg env req NotAuthorized, snd (reject_share mo RUnauthorized (s, p)))
      else
        let worker = (case stats_worker s of Some w \<Rightarrow> w | None \<Rightarrow> su_worker params) in
        case find_job (se_issued_jobs s) (su_job_id params) of
          None \<Rightarrow> reject_with env mo req RJobNotFound (StaleJob (su_job_id params)) (s, p)
        | Some entry \<Rightarrow>
            let key = share_key_of params in
            if share_contains (se_share_set s) key then reject_with env mo req RDuplicate DuplicateShare (s, p)
            else
              case validate_share_no_dedup (ev_crates env) (mo_wall mo) (share_params_of s params) (je_job entry) entry
                     (se_extranonce1 s) (vc_min_difficulty (se_vardiff_cfg s)) of
                None \<Rightarrow> (Disconnect ''internal error'', s, p)
              | Some (Inl e) \<Rightarrow> reject_with env mo req (reason_from_error e) e (s, p)
              | Some (Inr (Valid assigned hash_difficulty hash)) \<Rightarrow>
                  (Messages [ok_true env req],
                   accept_share env mo worker hash_difficulty (je_difficulty entry)
                     (s\<lparr>se_share_set := share_insert (se_share_set s) key\<rparr>, p))
              | Some (Inr (Block hash_difficulty block_hex hash)) \<Rightarrow>
                  (Messages [ok_true env req],
                   submit_block_share env mo worker entry hash_difficulty block_hex hash
                     (s\<lparr>se_share_set := share_insert (se_share_set s) key\<rparr>, p)))"

section \<open>Dispatch\<close>

definition handle_message ::
  "('a, 'c, 'v, 'w) env \<Rightarrow> moment \<Rightarrow> 'v request \<Rightarrow> client_message \<Rightarrow> session \<times> ('c, 'w) pool
     \<Rightarrow> (handle_result \<times> session \<times> ('c, 'w) pool) option" where
  "handle_message env mo req msg st =
     (let (s, p) = st in
      case msg of
        Configure params \<Rightarrow> (let (r, s) = handle_configure env req params s in Some (r, s, p))
      | Subscribe params \<Rightarrow> (let (r, s) = handle_subscribe env req params s in Some (r, s, p))
      | Authorize params \<Rightarrow> Some (handle_authorize env mo req params (s, p))
      | Submit params \<Rightarrow> Some (handle_submit env mo req params (s, p))
      | SuggestDifficulty params \<Rightarrow> map_option (\<lambda>(r, s). (r, s, p)) (handle_suggest_difficulty env mo req params s)
      | ExtranonceSubscribe \<Rightarrow> Some (Messages [resp_extranonce_subscribe (ev_json env) (rq_id req)], s, p)
      | UnknownRequest method \<Rightarrow> Some (err_msg env req (UnknownMethod method), s, p))"

definition handle_line ::
  "('a, 'c, 'v, 'w) env \<Rightarrow> moment \<Rightarrow> string \<Rightarrow> session \<times> ('c, 'w) pool
     \<Rightarrow> (handle_result \<times> session \<times> ('c, 'w) pool) option" where
  "handle_line env mo line st =
     (let (s, p) = st;
          (allowed, bucket) = try_consume (sg_share_rate (se_guard s)) (mo_bucket1 mo) (mo_bucket2 mo);
          s = s\<lparr>se_guard := (se_guard s)\<lparr>sg_share_rate := bucket\<rparr>\<rparr>
      in if \<not> allowed
         then Some (Disconnect ''rate limited'', s, p\<lparr>pl_stats := record_rate_limited (pl_stats p),
                pl_bans := ban (pl_bans p) (se_ip s) ''message rate exceeded'' (mo_ban mo)\<rparr>)
         else if trim line = [] then Some (Messages [], s, p)
         else case request_parse (ev_json env) line of
             Inl _ \<Rightarrow> Some (Disconnect ''parse error'', s, p)
           | Inr req \<Rightarrow>
               (case from_request (ev_crates env) (ev_json env) req of
                  Inl e \<Rightarrow> Some (err_msg env req e, s, p)
                | Inr msg \<Rightarrow> handle_message env mo req msg (s, p)))"

section \<open>The session loop\<close>

text \<open>The messages pushed by a vardiff check.\<close>

definition apply_retarget ::
  "('a, 'c, 'v, 'w) env \<Rightarrow> moment \<Rightarrow> session \<times> ('c, 'w) pool \<Rightarrow> (string list \<times> session \<times> ('c, 'w) pool) option" where
  "apply_retarget env mo st =
     (let (s, p) = st in
      case check_retarget (ev_exp env) (se_vardiff s) (mo_retarget mo) (network_difficulty env s) of
        None \<Rightarrow> None
      | Some (None, vd) \<Rightarrow> Some ([], s\<lparr>se_vardiff := vd\<rparr>, p)
      | Some (Some new_diff, vd) \<Rightarrow>
          Some ([resp_set_difficulty (ev_json env) new_diff], s\<lparr>se_vardiff := vd, se_difficulty := new_diff\<rparr>,
                case stats_worker s of
                  Some worker \<Rightarrow> p\<lparr>pl_stats := update_worker_vardiff worker new_diff (mo_retarget_ts mo) (pl_stats p)\<rparr>
                | None \<Rightarrow> p))"

text \<open>A job pushed by the engine: the messages, or \<open>None\<close> when the payout job does not build.\<close>

definition push_job ::
  "('a, 'c, 'v, 'w) env \<Rightarrow> moment \<Rightarrow> job_template \<Rightarrow> bool \<Rightarrow> session \<times> ('c, 'w) pool
     \<Rightarrow> string list option \<times> session \<times> ('c, 'w) pool" where
  "push_job env mo template clean st =
     (let (s, p) = st; s = (if clean then s\<lparr>se_share_set := share_clear (se_share_set s)\<rparr> else s) in
      if se_subscribed s \<and> se_authorized s
      then (case materialize_job env s template (pl_job_counter p) of
              (Inl _, counter) \<Rightarrow> (None, s, p\<lparr>pl_job_counter := counter\<rparr>)
            | (Inr job, counter) \<Rightarrow>
                (Some [resp_set_difficulty (ev_json env) (se_difficulty s), build_notify env job clean],
                 s\<lparr>se_issued_jobs := issue (se_issued_jobs s) job clean (se_difficulty s) (mo_inst mo),
                   se_current_template := Some template\<rparr>, p\<lparr>pl_job_counter := counter\<rparr>))
      else (Some [], s\<lparr>se_current_template := Some template\<rparr>, p))"

text \<open>
  What the \<open>select!\<close> delivers: a complete line, a line over the size limit, any other end of the
  input (time-out, end of file, read error, text that is not UTF-8), a job, a note that jobs were
  missed, or the end of the job channel.
\<close>

datatype session_event =
    LineIn string
  | LineTooLong
  | InputEnds
  | JobIn job_template bool
  | JobsMissed
  | JobsEnd

text \<open>
  One round of the loop.  \<open>sent1\<close> and \<open>sent2\<close> say whether the socket took the reply and the vardiff
  update; the result is what was written, whether the loop goes on, and the state.
\<close>

definition finish_round ::
  "('a, 'c, 'v, 'w) env \<Rightarrow> moment \<Rightarrow> bool \<Rightarrow> bool \<Rightarrow> string list \<Rightarrow> session \<times> ('c, 'w) pool
     \<Rightarrow> (string list \<times> bool \<times> session \<times> ('c, 'w) pool) option" where
  "finish_round env mo sent1 sent2 msgs st =
     (if \<not> sent1 then Some (msgs, False, st)
      else case apply_retarget env mo st of
          None \<Rightarrow> None
        | Some ([], st') \<Rightarrow> Some (msgs, True, st')
        | Some (msgs', st') \<Rightarrow> Some (msgs @ msgs', sent2, st'))"

definition session_step ::
  "('a, 'c, 'v, 'w) env \<Rightarrow> moment \<Rightarrow> bool \<Rightarrow> bool \<Rightarrow> session_event \<Rightarrow> session \<times> ('c, 'w) pool
     \<Rightarrow> (string list \<times> bool \<times> session \<times> ('c, 'w) pool) option" where
  "session_step env mo sent1 sent2 event st =
     (case event of
        LineIn line \<Rightarrow>
          (case handle_line env mo line st of
             None \<Rightarrow> None
           | Some (Disconnect reason, st') \<Rightarrow> Some ([], False, st')
           | Some (Messages msgs, st') \<Rightarrow> finish_round env mo sent1 sent2 msgs st')
      | LineTooLong \<Rightarrow>
          Some ([], False, fst st, (snd st)\<lparr>pl_bans := ban (pl_bans (snd st)) (se_ip (fst st)) ''message too large'' (mo_ban mo)\<rparr>)
      | InputEnds \<Rightarrow> Some ([], False, st)
      | JobIn template clean \<Rightarrow>
          (case push_job env mo template clean st of
             (None, st') \<Rightarrow> Some ([], False, st')
           | (Some msgs, st') \<Rightarrow> finish_round env mo sent1 sent2 msgs st')
      | JobsMissed \<Rightarrow> finish_round env mo True sent2 [] st
      | JobsEnd \<Rightarrow> Some ([], False, st))"

definition session_start ::
  "ip_addr \<Rightarrow> config \<Rightarrow> network \<Rightarrow> u64 \<Rightarrow> u64 \<Rightarrow> (nat \<Rightarrow> instant) \<Rightarrow> ('c, 'w) pool \<Rightarrow> (session \<times> ('c, 'w) pool) option \<times> u64" where
  "session_start peer cfg network random_u64 counter t p =
     (case is_banned (pl_bans p) peer (t 0) (t 1) of
        (True, bans) \<Rightarrow> (None, counter)
      | (False, bans) \<Rightarrow>
          let (extranonce1, counter) = generate_extranonce1 (pc_extranonce1_size (c_pool cfg)) counter;
              s = session_new peer cfg extranonce1 network random_u64 (t 2) (t 3) (t 4) (t 5)
          in (Some (case pl_template p of Some template \<Rightarrow> s\<lparr>se_current_template := Some template\<rparr> | None \<Rightarrow> s,
                    p\<lparr>pl_bans := bans, pl_stats := miner_connected (pl_stats p)\<rparr>), counter))"

definition session_end :: "session \<times> ('c, 'w) pool \<Rightarrow> ('c, 'w) pool" where
  "session_end st =
     (let (s, p) = st; ps = miner_disconnected (pl_stats p)
      in p\<lparr>pl_stats := (case stats_worker s of Some worker \<Rightarrow> mark_worker_offline worker ps | None \<Rightarrow> ps)\<rparr>)"

end
