(* ===== verification/Utf8.thy ===== *)
theory Utf8
  imports Prelude
begin

text \<open>
  UTF-8 as the standard library reads it: \<open>std::str::from_utf8\<close> and \<open>String::from_utf8_lossy\<close>.  A
  string of the model is the list of its UTF-8 bytes.
\<close>

section \<open>One character\<close>

definition continuation :: "u8 \<Rightarrow> bool" where
  "continuation b \<longleftrightarrow> 0x80 \<le> b \<and> b \<le> 0xBF"

text \<open>
  The second byte after a first byte of three and of four bytes: overlong forms, surrogates and code
  points over \<open>0x10FFFF\<close> are refused here.
\<close>

definition second_of_three :: "u8 \<Rightarrow> u8 \<Rightarrow> bool" where
  "second_of_three a b \<longleftrightarrow>
     (if a = 0xE0 then 0xA0 \<le> b \<and> b \<le> 0xBF else if a = 0xED then 0x80 \<le> b \<and> b \<le> 0x9F else continuation b)"

definition second_of_four :: "u8 \<Rightarrow> u8 \<Rightarrow> bool" where
  "second_of_four a b \<longleftrightarrow>
     (if a = 0xF0 then 0x90 \<le> b \<and> b \<le> 0xBF else if a = 0xF4 then 0x80 \<le> b \<and> b \<le> 0x8F else continuation b)"

text \<open>What the bytes after a first byte must be, if it is one.\<close>

definition utf8_tests :: "u8 \<Rightarrow> (u8 \<Rightarrow> bool) list option" where
  "utf8_tests a =
     (if a < 0x80 then Some []
      else if 0xC2 \<le> a \<and> a \<le> 0xDF then Some [continuation]
      else if 0xE0 \<le> a \<and> a \<le> 0xEF then Some [second_of_three a, continuation]
      else if 0xF0 \<le> a \<and> a \<le> 0xF4 then Some [second_of_four a, continuation, continuation]
      else None)"

text \<open>
  How many bytes the first character takes and whether they are well formed.  An ill-formed sequence
  takes the longest prefix of a well-formed one, at least one byte.
\<close>

definition matching :: "(u8 \<Rightarrow> bool) list \<Rightarrow> bytes \<Rightarrow> nat" where
  "matching ps r = length (takeWhile (\<lambda>(p, b). p b) (zip ps r))"

definition utf8_first :: "u8 \<Rightarrow> bytes \<Rightarrow> nat \<times> bool" where
  "utf8_first a r =
     (case utf8_tests a of
        None \<Rightarrow> (1, False)
      | Some ps \<Rightarrow> (1 + matching ps r, matching ps r = length ps))"

lemma matching_le: "matching ps r \<le> length r" "matching ps r \<le> length ps"
  unfolding matching_def using length_takeWhile_le [of _ "zip ps r"] by (metis length_zip min.bounded_iff)+

lemma matching_take: "matching ps r = length ps \<Longrightarrow> matching ps (take (length ps) r @ s) = length ps"
proof (induction ps arbitrary: r)
  case (Cons p ps)
  then show ?case by (cases r) (auto simp: matching_def split: if_splits)
qed (simp add: matching_def)

lemma utf8_first_le: "fst (utf8_first a r) \<le> length (a # r)"
  using matching_le(1) by (auto simp: utf8_first_def split: option.splits)

lemma utf8_first_take: "utf8_first a r = (k, True) \<Longrightarrow> utf8_first a (take (k - 1) r @ s) = (k, True)"
  using matching_take by (auto simp: utf8_first_def split: option.splits)

section \<open>Whole strings\<close>

function utf8_valid :: "bytes \<Rightarrow> bool" where
  "utf8_valid [] \<longleftrightarrow> True"
| "utf8_valid (a # r) \<longleftrightarrow> snd (utf8_first a r) \<and> utf8_valid (drop (fst (utf8_first a r) - 1) r)"
  by pat_completeness auto
termination
  by (relation "measure length") (auto simp: less_Suc_eq_le)

definition replacement :: bytes where
  "replacement = [0xEF, 0xBF, 0xBD]"

function utf8_lossy :: "bytes \<Rightarrow> bytes" where
  "utf8_lossy [] = []"
| "utf8_lossy (a # r) =
     (let (n, ok) = utf8_first a r in
      (if ok then a # take (n - 1) r else replacement) @ utf8_lossy (drop (n - 1) r))"
  by pat_completeness auto
termination
  by (relation "measure length") (auto simp: less_Suc_eq_le)

definition string_of :: "bytes \<Rightarrow> string" where
  "string_of = map (\<lambda>b. char_of (unat b))"

lemma utf8_valid_replacement: "utf8_valid (replacement @ s) = utf8_valid s"
proof -
  have "utf8_first 0xEF ([0xBF, 0xBD] @ s) = (3, True)"
    by (simp add: utf8_first_def utf8_tests_def matching_def second_of_three_def continuation_def)
  then show ?thesis by (simp add: replacement_def)
qed

lemma utf8_valid_first:
  assumes "utf8_first a r = (n, True)"
  shows "utf8_valid (a # take (n - 1) r @ s) = utf8_valid s"
proof -
  have "n - 1 \<le> length r" using utf8_first_le [of a r] assms by simp
  then show ?thesis using utf8_first_take [OF assms, of s] by simp
qed

text \<open>The lossy conversion yields a valid string, and changes nothing of one that is valid already.\<close>

lemma utf8_lossy_valid: "utf8_valid (utf8_lossy xs)"
proof (induction xs rule: utf8_lossy.induct)
  case (2 a r)
  obtain n ok where f: "utf8_first a r = (n, ok)" by (cases "utf8_first a r")
  then show ?case using 2 [OF f [symmetric] refl] utf8_valid_first [of a r n]
    by (cases ok) (simp_all add: utf8_valid_replacement)
qed simp

lemma utf8_lossy_id: "utf8_valid xs \<Longrightarrow> utf8_lossy xs = xs"
proof (induction xs rule: utf8_valid.induct)
  case (2 a r)
  then show ?case by (auto simp: case_prod_unfold)
qed simp

lemma utf8_valid_ascii: "list_all (\<lambda>b. b < 0x80) xs \<Longrightarrow> utf8_valid xs"
proof (induction xs)
  case (Cons a r)
  then have "utf8_first a r = (1, True)" by (simp add: utf8_first_def utf8_tests_def matching_def)
  then show ?case using Cons by simp
qed simp

end
