(* ===== verification/Sv2.thy ===== *)
theory Sv2
  imports Validator Utf8
begin

text \<open>
  Stratum V2 messages (\<open>src/protocol/sv2/messages.rs\<close>) and the translation of a job into them
  (\<open>src/protocol/sv2/job.rs\<close>).  The message structures are those of the \<open>common_messages_sv2\<close> and
  \<open>mining_sv2\<close> crates; their binary encoding, the length checks of the field types of \<open>binary_sv2\<close>
  and the message type numbers are library code and come in through \<open>sv2_api\<close>.  An \<open>anyhow::Error\<close> is
  its text.
\<close>

declare of_nat_unat [simp del]

section \<open>Messages\<close>

datatype sv2_protocol = MiningProtocol | OtherProtocol string

record setup_conn =
  sc_protocol :: sv2_protocol
  sc_min_version :: u16
  sc_max_version :: u16
  sc_flags :: u32

text \<open>The identity is still raw bytes in the library's structure; the hash rate, which nothing reads, is left out.\<close>

record open_channel_raw =
  or_request_id :: u32
  or_user_identity :: bytes
  or_max_target :: bytes
  or_min_extranonce_size :: u16

record open_extended =
  oe_request_id :: u32
  oe_user_identity :: string
  oe_max_target :: bytes
  oe_min_extranonce_size :: u16

record submit_extended =
  sx_channel_id :: u32
  sx_sequence_number :: u32
  sx_job_id :: u32
  sx_nonce :: u32
  sx_ntime :: u32
  sx_version :: u32
  sx_extranonce :: bytes

record new_extended_job =
  nj_channel_id :: u32
  nj_job_id :: u32
  nj_min_ntime :: "u32 option"
  nj_version :: u32
  nj_version_rolling_allowed :: bool
  nj_merkle_path :: "bytes list"
  nj_coinbase_tx_prefix :: bytes
  nj_coinbase_tx_suffix :: bytes

record new_prev_hash =
  np_channel_id :: u32
  np_job_id :: u32
  np_prev_hash :: bytes
  np_min_ntime :: u32
  np_nbits :: u32

record open_success =
  os_request_id :: u32
  os_channel_id :: u32
  os_target :: bytes
  os_extranonce_size :: u16
  os_extranonce_prefix :: bytes
  os_group_channel_id :: u32

datatype sv2_message =
    SetupSuccess u16 u32
  | SetupError u32 string
  | OpenSuccess open_success
  | OpenError u32 string
  | OpenErrorExtranonce u32
  | SetTarget u32 bytes
  | SharesSuccess u32 u32 u32 u64
  | SharesError u32 u32 string
  | NewExtendedJob new_extended_job
  | NewPrevHash new_prev_hash

datatype message_kind =
    SetupConnectionT | SetupConnectionSuccessT | SetupConnectionErrorT | OpenExtendedT | OpenExtendedSuccessT
  | OpenChannelErrorT | SubmitSharesT | SubmitSharesSuccessT | SubmitSharesErrorT | NewExtendedJobT | NewPrevHashT | SetTargetT

text \<open>A length check of \<open>binary_sv2\<close> gives the text of its error, if any.\<close>

record sv2_api =
  x_setup :: "bytes \<Rightarrow> string + setup_conn"
  x_open :: "bytes \<Rightarrow> string + open_channel_raw"
  x_submit :: "bytes \<Rightarrow> string + submit_extended"
  x_encode :: "sv2_message \<Rightarrow> string + bytes"
  x_type :: "message_kind \<Rightarrow> u8"
  x_str0255 :: "string \<Rightarrow> string option"
  x_b032 :: "bytes \<Rightarrow> string option"
  x_b064k :: "bytes \<Rightarrow> string option"
  x_seq0255 :: "bytes list \<Rightarrow> string option"

definition map_err :: "string \<Rightarrow> string + 'a \<Rightarrow> string + 'a" where
  "map_err context r = (case r of Inl e \<Rightarrow> Inl (context @ e) | Inr x \<Rightarrow> Inr x)"

definition fitting :: "string \<Rightarrow> ('a \<Rightarrow> string option) \<Rightarrow> 'a \<Rightarrow> string + 'a" where
  "fitting context check x = (case check x of Some e \<Rightarrow> Inl (context @ e) | None \<Rightarrow> Inr x)"

definition bind_str :: "string + 'a \<Rightarrow> ('a \<Rightarrow> string + 'b) \<Rightarrow> string + 'b" where
  "bind_str r f = (case r of Inl e \<Rightarrow> Inl e | Inr x \<Rightarrow> f x)"

lemma bind_str_Inr: "bind_str r f = Inr y \<longleftrightarrow> (\<exists>x. r = Inr x \<and> f x = Inr y)"
  by (cases r) (simp_all add: bind_str_def)

lemma fitting_Inr: "fitting context check x = Inr y \<longleftrightarrow> check x = None \<and> y = x"
  by (auto simp: fitting_def split: option.splits)

lemma map_err_Inr: "map_err context r = Inr x \<longleftrightarrow> r = Inr x"
  by (cases r) (simp_all add: map_err_def)

section \<open>Framing\<close>

definition EXT_TYPE :: u16 where
  "EXT_TYPE = 0x0000"

definition CHANNEL_MSG_BIT :: u16 where
  "CHANNEL_MSG_BIT = 0x8000"

definition frame_bytes :: "u8 \<Rightarrow> bool \<Rightarrow> bytes \<Rightarrow> bytes" where
  "frame_bytes msg_type channel_msg payload =
     (let ext = or EXT_TYPE (if channel_msg then CHANNEL_MSG_BIT else 0);
          len = to_le 4 (unat (of_nat (length payload) :: u32))
      in to_le 2 (unat ext) @ [msg_type] @ take 3 len @ payload)"

section \<open>Decoding\<close>

definition FLAG_REQUIRES_STANDARD_JOBS :: u32 where
  "FLAG_REQUIRES_STANDARD_JOBS = push_bit 0 1"

definition FLAG_REQUIRES_WORK_SELECTION :: u32 where
  "FLAG_REQUIRES_WORK_SELECTION = push_bit 1 1"

definition UNSUPPORTED_SETUP_FLAGS :: u32 where
  "UNSUPPORTED_SETUP_FLAGS = or FLAG_REQUIRES_STANDARD_JOBS FLAG_REQUIRES_WORK_SELECTION"

definition decode_setup_connection :: "sv2_api \<Rightarrow> bytes \<Rightarrow> string + setup_conn" where
  "decode_setup_connection api payload = map_err ''decode SetupConnection: '' (x_setup api payload)"

definition decode_open_extended :: "sv2_api \<Rightarrow> bytes \<Rightarrow> string + open_extended" where
  "decode_open_extended api payload =
     (case map_err ''decode OpenExtendedMiningChannel: '' (x_open api payload) of
        Inl e \<Rightarrow> Inl e
      | Inr m \<Rightarrow> Inr \<lparr> oe_request_id = or_request_id m, oe_user_identity = string_of (utf8_lossy (or_user_identity m)),
                       oe_max_target = or_max_target m, oe_min_extranonce_size = or_min_extranonce_size m \<rparr>)"

definition decode_submit_extended :: "sv2_api \<Rightarrow> bytes \<Rightarrow> string + submit_extended" where
  "decode_submit_extended api payload = map_err ''decode SubmitSharesExtended: '' (x_submit api payload)"

section \<open>Encoding\<close>

definition encode :: "sv2_api \<Rightarrow> sv2_message \<Rightarrow> string + bytes" where
  "encode api msg = map_err ''SV2 encode: '' (x_encode api msg)"

definition setup_connection_success :: "sv2_api \<Rightarrow> u16 \<Rightarrow> string + bytes" where
  "setup_connection_success api used_version = encode api (SetupSuccess used_version 0)"

definition setup_connection_error :: "sv2_api \<Rightarrow> string \<Rightarrow> u32 \<Rightarrow> string + bytes" where
  "setup_connection_error api code flags =
     bind_str (fitting ''error_code: '' (x_str0255 api) code) (\<lambda>code. encode api (SetupError flags code))"

definition open_extended_success :: "sv2_api \<Rightarrow> u32 \<Rightarrow> u32 \<Rightarrow> bytes \<Rightarrow> u16 \<Rightarrow> bytes \<Rightarrow> string + bytes" where
  "open_extended_success api request_id channel_id target_le extranonce_size extranonce_prefix =
     bind_str (fitting ''extranonce_prefix: '' (x_b032 api) extranonce_prefix) (\<lambda>prefix.
       encode api (OpenSuccess \<lparr> os_request_id = request_id, os_channel_id = channel_id, os_target = target_le,
         os_extranonce_size = extranonce_size, os_extranonce_prefix = prefix, os_group_channel_id = 0 \<rparr>))"

definition open_channel_error_extranonce :: "sv2_api \<Rightarrow> u32 \<Rightarrow> string + bytes" where
  "open_channel_error_extranonce api request_id = encode api (OpenErrorExtranonce request_id)"

definition open_channel_error :: "sv2_api \<Rightarrow> u32 \<Rightarrow> string \<Rightarrow> string + bytes" where
  "open_channel_error api request_id code =
     bind_str (fitting ''error_code: '' (x_str0255 api) code) (\<lambda>code. encode api (OpenError request_id code))"

definition set_target :: "sv2_api \<Rightarrow> u32 \<Rightarrow> bytes \<Rightarrow> string + bytes" where
  "set_target api channel_id target_le = encode api (SetTarget channel_id target_le)"

definition submit_shares_success :: "sv2_api \<Rightarrow> u32 \<Rightarrow> u32 \<Rightarrow> u64 \<Rightarrow> string + bytes" where
  "submit_shares_success api channel_id last_sequence_number shares_sum =
     encode api (SharesSuccess channel_id last_sequence_number 1 shares_sum)"

definition submit_shares_error :: "sv2_api \<Rightarrow> u32 \<Rightarrow> u32 \<Rightarrow> string \<Rightarrow> string + bytes" where
  "submit_shares_error api channel_id sequence_number code =
     bind_str (fitting ''error_code: '' (x_str0255 api) code) (\<lambda>code. encode api (SharesError channel_id sequence_number code))"

section \<open>Jobs\<close>

definition difficulty_to_sv2_target :: "u64 \<Rightarrow> bytes" where
  "difficulty_to_sv2_target difficulty = rev (difficulty_to_target difficulty)"

definition sv2_target_le :: "bytes \<Rightarrow> bytes \<Rightarrow> bool" where
  "sv2_target_le a b \<longleftrightarrow> bytes_le (rev a) (rev b)"

text \<open>The text of a hex error, which is only logged, is left out.\<close>

definition stratum_prevhash_to_internal :: "crates \<Rightarrow> string \<Rightarrow> string + bytes" where
  "stratum_prevhash_to_internal cr stratum_hex =
     (case hex_decode cr stratum_hex of
        None \<Rightarrow> Inl ''prev_hash hex: ''
      | Some bytes \<Rightarrow>
          if length bytes \<noteq> 32 then Inl (''prev_hash must be 32 bytes, got '' @ show_nat (length bytes))
          else Inr (rev_words bytes))"

definition build_new_extended_job :: "sv2_api \<Rightarrow> stratum_job \<Rightarrow> u32 \<Rightarrow> u32 \<Rightarrow> bool \<Rightarrow> string + new_extended_job" where
  "build_new_extended_job api job channel_id job_id future =
     bind_str (fitting ''merkle_path: '' (x_seq0255 api) (sj_merkle_branch_raw job)) (\<lambda>merkle.
     bind_str (fitting ''coinbase_tx_prefix: '' (x_b064k api) (sj_coinbase1 job)) (\<lambda>prefix.
     bind_str (fitting ''coinbase_tx_suffix: '' (x_b064k api) (sj_coinbase2 job)) (\<lambda>suffix.
     Inr \<lparr> nj_channel_id = channel_id, nj_job_id = job_id,
           nj_min_ntime = (if future then None else Some (sj_cur_time job)), nj_version = sj_version job,
           nj_version_rolling_allowed = True, nj_merkle_path = merkle,
           nj_coinbase_tx_prefix = prefix, nj_coinbase_tx_suffix = suffix \<rparr>)))"

definition build_set_new_prev_hash :: "crates \<Rightarrow> stratum_job \<Rightarrow> u32 \<Rightarrow> u32 \<Rightarrow> string + new_prev_hash" where
  "build_set_new_prev_hash cr job channel_id job_id =
     bind_str (stratum_prevhash_to_internal cr (sj_prev_hash job)) (\<lambda>prev.
     case u32_from_hex (sj_bits job) of
       None \<Rightarrow> Inl ''nbits: ''
     | Some nbits \<Rightarrow>
         Inr \<lparr> np_channel_id = channel_id, np_job_id = job_id, np_prev_hash = prev,
               np_min_ntime = sj_cur_time job, np_nbits = nbits \<rparr>)"

section \<open>Targets and frames\<close>

lemma sv2_target_value: "le_nat (difficulty_to_sv2_target d) = DIFF1 div max 1 (unat d)"
  using be_nat_difficulty_to_target [of d] by (simp add: difficulty_to_sv2_target_def be_nat_def)

lemma sv2_target_le_value:
  "length a = length b \<Longrightarrow> sv2_target_le a b \<longleftrightarrow> le_nat a \<le> le_nat b"
  by (simp add: sv2_target_le_def bytes_le_iff_be_nat be_nat_def)

text \<open>The six bytes before the payload: extension and channel bit, message type, length.\<close>

lemma frame_bytes_header:
  assumes "length payload < 2 ^ 24"
  shows "drop 6 (frame_bytes ty channel payload) = payload" "frame_bytes ty channel payload ! 2 = ty"
    "le_nat (take 3 (drop 3 (frame_bytes ty channel payload))) = length payload"
    "bit (frame_bytes ty channel payload ! 1) 7 = channel"
proof -
  have len: "unat (of_nat (length payload) :: u32) = length payload" using assms by (subst unat_of_nat) simp
  have three: "take 3 (to_le 4 n) = to_le 3 n" for n by (simp add: to_le_numeral)
  have ext: "to_le 2 (unat (or EXT_TYPE (if channel then CHANNEL_MSG_BIT else 0))) = [0, if channel then 0x80 else 0]"
    by (simp add: EXT_TYPE_def CHANNEL_MSG_BIT_def to_le_numeral)
  have f: "frame_bytes ty channel payload = [0, if channel then 0x80 else 0, ty] @ to_le 3 (length payload) @ payload"
    by (simp add: frame_bytes_def Let_def len three ext)
  show "drop 6 (frame_bytes ty channel payload) = payload" "frame_bytes ty channel payload ! 2 = ty"
    "le_nat (take 3 (drop 3 (frame_bytes ty channel payload))) = length payload"
    "bit (frame_bytes ty channel payload ! 1) 7 = channel"
    using assms by (simp_all add: f le_nat_to_le)
qed

section \<open>The header a device hashes\<close>

text \<open>
  What the protocol tells a device to hash: the coinbase is the prefix and the suffix of the job around
  the assigned extranonce prefix and its own extranonce, its hash is folded along the merkle path,
  and the header has the announced previous hash and nbits.
\<close>

definition device_header ::
  "crates \<Rightarrow> new_extended_job \<Rightarrow> new_prev_hash \<Rightarrow> bytes \<Rightarrow> submit_extended \<Rightarrow> bytes" where
  "device_header cr nj np prefix share =
     to_le 4 (unat (sx_version share)) @ np_prev_hash np
     @ merkle_root_of cr (nj_merkle_path nj)
         (nj_coinbase_tx_prefix nj @ prefix @ sx_extranonce share @ nj_coinbase_tx_suffix nj)
     @ to_le 4 (unat (sx_ntime share)) @ to_le 4 (unat (np_nbits np)) @ to_le 4 (unat (sx_nonce share))"

definition sv2_share_params :: "string \<Rightarrow> submit_extended \<Rightarrow> share_params" where
  "sv2_share_params job_id submit =
     \<lparr> sp_job_id = job_id, sp_extranonce2 = sx_extranonce submit, sp_ntime = sx_ntime submit, sp_nonce = sx_nonce submit,
       sp_version_bits = Some (and (sx_version submit) VERSION_ROLLING_MASK), sp_version_rolling_mask = Some VERSION_ROLLING_MASK \<rparr>"

lemma resolve_full_version:
  assumes "and v (not m) = and base (not m)"
  shows "resolve_version base (Some (and v m)) (Some m) = Inr v"
proof -
  have "and (and v m) (not m) = 0" by (simp add: bit_eq_iff bit_simps)
  moreover have "or (and v (not m)) (and (and v m) m) = v" by (auto simp: bit_eq_iff bit_simps)
  ultimately show ?thesis by (simp add: resolve_version_def assms [symmetric])
qed

lemma sv2_header_agrees:
  assumes "hex_ok cr" "build_new_extended_job api job ch i future = Inr nj" "build_set_new_prev_hash cr job ch' i' = Inr np"
  shows "build_header cr (sx_version share) (sj_prev_hash job)
      (job_merkle_root cr job (sj_coinbase1 job @ prefix @ sx_extranonce share @ sj_coinbase2 job)) (sx_ntime share) (sj_bits job) (sx_nonce share)
    = Inr (device_header cr nj np prefix share)"
proof -
  obtain raw nb where p: "hex_decode cr (sj_prev_hash job) = Some raw" "length raw = 32" "np_prev_hash np = rev_words raw"
    "u32_from_hex (sj_bits job) = Some nb" "np_nbits np = nb"
    using assms(3) by (auto simp: build_set_new_prev_hash_def bind_str_Inr stratum_prevhash_to_internal_def split: option.splits if_splits)
  then have "hex_decode_to_slice cr 32 (sj_prev_hash job) = Some raw" using assms(1) by (simp add: hex_ok_def)
  moreover have "nj_merkle_path nj = sj_merkle_branch_raw job" "nj_coinbase_tx_prefix nj = sj_coinbase1 job" "nj_coinbase_tx_suffix nj = sj_coinbase2 job"
    using assms(2) by (auto simp: build_new_extended_job_def bind_str_Inr fitting_Inr)
  ultimately show ?thesis using p by (simp add: build_header_def device_header_def job_merkle_root_def)
qed

text \<open>
  C16: Stratum V2 and the validator hash the same header.  A device that follows the messages it was
  sent for a job, and keeps the version bits outside the general mask, has its share accepted exactly
  when the hash of its own header meets the accepted difficulty, and it is submitted as a block
  exactly when that hash meets the network target.
\<close>

theorem sv2_share_decided_by_device_header:
  assumes "hex_ok cr" "fst (build_job_for_payout cr epoch counter template payout tag (length prefix) size2) = Inr job"
    and "build_new_extended_job api job ch i future = Inr nj" "build_set_new_prev_hash cr job ch' i' = Inr np"
    and "length (sx_extranonce share) = size2"
    and "and (sx_version share) (not VERSION_ROLLING_MASK) = and (nj_version nj) (not VERSION_ROLLING_MASK)"
    and "np_min_ntime np \<le> sx_ntime share" "sx_ntime share \<le> ntime_ceiling (np_min_ntime np) (now_unix_secs clock)"
    and "\<not> je_superseded_by_clean entry"
  shows "let hash = double_sha256 cr (device_header cr nj np prefix share);
             result = validate_share_no_dedup cr clock (sv2_share_params job_id share) job entry prefix d in
      (result = Some (Inl LowDifficulty) \<or> (\<exists>x h. result = Some (Inr (Valid d x h))) \<or> (\<exists>x bh h. result = Some (Inr (Block x bh h))))
    \<and> ((\<exists>r. result = Some (Inr r)) \<longleftrightarrow> meets_target hash (difficulty_to_target d))
    \<and> ((\<exists>x bh h. result = Some (Inr (Block x bh h))) \<longleftrightarrow>
        meets_target hash (difficulty_to_target d) \<and> meets_target hash (sj_network_target job))"
proof -
  note wf = build_job_wf [OF assms(2)]
  have cb: "assemble_coinbase_into job prefix (sx_extranonce share) = Some (sj_coinbase1 job @ prefix @ sx_extranonce share @ sj_coinbase2 job)"
    by (rule assemble_coinbase_wf [OF wf(1)]) (simp add: wf assms(5))
  have v: "nj_version nj = sj_version job" using assms(3) by (auto simp: build_new_extended_job_def bind_str_Inr)
  have t: "np_min_ntime np = sj_cur_time job"
    using assms(4) by (auto simp: build_set_new_prev_hash_def bind_str_Inr split: option.splits)
  have "resolve_version (sj_version job) (Some (and (sx_version share) VERSION_ROLLING_MASK)) (Some VERSION_ROLLING_MASK) = Inr (sx_version share)"
    by (rule resolve_full_version) (use assms(6) v in simp)
  then show ?thesis using assms(7-9) t sv2_header_agrees [OF assms(1,3,4), of share prefix] cb
    by (simp add: validate_share_no_dedup_def sv2_share_params_def Let_def not_less bind_res_def)
qed

text \<open>Message types that are all different, encoders and checks that accept everything.\<close>

definition sample_type :: "message_kind \<Rightarrow> u8" where
  "sample_type k = (case k of
     SetupConnectionT \<Rightarrow> 0 | SetupConnectionSuccessT \<Rightarrow> 1 | SetupConnectionErrorT \<Rightarrow> 2 | OpenExtendedT \<Rightarrow> 3 | OpenExtendedSuccessT \<Rightarrow> 4
   | OpenChannelErrorT \<Rightarrow> 5 | SubmitSharesT \<Rightarrow> 6 | SubmitSharesSuccessT \<Rightarrow> 7 | SubmitSharesErrorT \<Rightarrow> 8 | NewExtendedJobT \<Rightarrow> 9
   | NewPrevHashT \<Rightarrow> 10 | SetTargetT \<Rightarrow> 11)"

definition sample_share :: submit_extended where
  "sample_share = \<lparr> sx_channel_id = 1, sx_sequence_number = 1, sx_job_id = 1, sx_nonce = 9, sx_ntime = 1700000001,
     sx_version = 0x20000000, sx_extranonce = [5, 6, 7, 8] \<rparr>"

definition sample_sv2 :: sv2_api where
  "sample_sv2 = \<lparr>
     x_setup = \<lambda>b. Inr \<lparr> sc_protocol = MiningProtocol, sc_min_version = 2, sc_max_version = 2, sc_flags = 0 \<rparr>,
     x_open = \<lambda>b. Inr \<lparr> or_request_id = 1, or_user_identity = [98, 99, 49, 113], or_max_target = replicate 32 0xFF, or_min_extranonce_size = 4 \<rparr>,
     x_submit = \<lambda>b. Inr sample_share,
     x_encode = \<lambda>m. Inr (case m of NewPrevHash n \<Rightarrow> np_prev_hash n | _ \<Rightarrow> []),
     x_type = sample_type, x_str0255 = \<lambda>s. None, x_b032 = \<lambda>b. None, x_b064k = \<lambda>b. None, x_seq0255 = \<lambda>b. None \<rparr>"

lemma sample_sv2_job:
  assumes "sample_job = Inr job"
  obtains nj np where "build_new_extended_job sample_sv2 job ch i future = Inr nj" "build_set_new_prev_hash sample_crates job ch' i' = Inr np"
    "nj_version nj = 0x20000000" "np_min_ntime np = 1700000000" "np_prev_hash np = replicate 32 0"
proof -
  note f = sample_job_fields [OF assms]
  have "hex_decode sample_crates (concat (replicate 32 ''00'')) = Some (replicate 32 0)"
    using sample_zero_prev sample_crates_ok(1) by (simp add: hex_ok_def split: option.splits if_splits)
  moreover have "rev_words (replicate 32 0) = replicate 32 0" by (simp add: replicate_numeral)
  moreover have "u32_from_hex ''207fffff'' = Some 0x207fffff" by (simp add: u32_from_hex_def hex_digit_def)
  ultimately have np: "build_set_new_prev_hash sample_crates job ch' i' =
      Inr \<lparr> np_channel_id = ch', np_job_id = i', np_prev_hash = replicate 32 0, np_min_ntime = 1700000000, np_nbits = 0x207fffff \<rparr>"
    using f by (simp add: build_set_new_prev_hash_def stratum_prevhash_to_internal_def bind_str_def)
  have "build_new_extended_job sample_sv2 job ch i future =
      Inr \<lparr> nj_channel_id = ch, nj_job_id = i, nj_min_ntime = (if future then None else Some (sj_cur_time job)), nj_version = 0x20000000,
        nj_version_rolling_allowed = True, nj_merkle_path = [], nj_coinbase_tx_prefix = sj_coinbase1 job,
        nj_coinbase_tx_suffix = sj_coinbase2 job \<rparr>"
    using f by (simp add: build_new_extended_job_def fitting_def bind_str_def sample_sv2_def)
  from that [OF this np] show thesis by simp
qed

lemma sample_sv2_accepted:
  assumes job: "sample_job = Inr job"
  shows "\<exists>r. validate_share_no_dedup sample_crates (Some 1700000000) (sv2_share_params (show_hex 16 1) sample_share) job
      (sample_entry job) [1, 2, 3, 4] 1 = Some (Inr r)"
proof -
  have p: "sp_job_id (sv2_share_params (show_hex 16 1) sample_share) = show_hex 16 1" "sp_job_id sample_params = show_hex 16 1"
    "sp_extranonce2 (sv2_share_params (show_hex 16 1) sample_share) = [5, 6, 7, 8]" "sp_extranonce2 sample_params = [5, 6, 7, 8]"
    "sp_ntime (sv2_share_params (show_hex 16 1) sample_share) = 1700000001" "sp_ntime sample_params = 1700000001"
    "sp_nonce (sv2_share_params (show_hex 16 1) sample_share) = 9" "sp_nonce sample_params = 9"
    "sp_version_bits (sv2_share_params (show_hex 16 1) sample_share) = Some 0" "sp_version_bits sample_params = None"
    "sp_version_rolling_mask (sv2_share_params (show_hex 16 1) sample_share) = Some VERSION_ROLLING_MASK"
    "sp_version_rolling_mask sample_params = None"
    by (simp_all add: sv2_share_params_def sample_params_def sample_share_def VERSION_ROLLING_MASK_def)
  have "resolve_version (sj_version job) (Some 0) (Some VERSION_ROLLING_MASK) = resolve_version (sj_version job) None None"
    by (simp add: sample_job_fields(2) [OF job] resolve_version_def VERSION_ROLLING_MASK_def)
  then have "validate_share_no_dedup sample_crates (Some 1700000000) (sv2_share_params (show_hex 16 1) sample_share) job
      (sample_entry job) [1, 2, 3, 4] 1 = validate_share_no_dedup sample_crates (Some 1700000000) sample_params job
      (sample_entry job) [1, 2, 3, 4] 1"
    unfolding validate_share_no_dedup_def p by (simp only:)
  then show ?thesis using sample_share_accepted [OF job] by simp
qed

theorem sv2_share_decided_by_device_header_witness:
  "\<exists>job nj np. sample_job = Inr job \<and> build_new_extended_job sample_sv2 job 1 1 True = Inr nj
     \<and> build_set_new_prev_hash sample_crates job 1 1 = Inr np
     \<and> meets_target (double_sha256 sample_crates (device_header sample_crates nj np [1, 2, 3, 4] sample_share)) (difficulty_to_target 1)"
proof -
  obtain job where job: "sample_job = Inr job" using sample_job_Inr by blast
  obtain nj np where m: "build_new_extended_job sample_sv2 job 1 1 True = Inr nj" "build_set_new_prev_hash sample_crates job 1 1 = Inr np"
    "nj_version nj = 0x20000000" "np_min_ntime np = 1700000000" by (rule sample_sv2_job [OF job])
  have four: "length [1, 2, 3, 4 :: u8] = 4" by simp
  have built: "fst (build_job_for_payout sample_crates 0 1 sample_template sample_payout ''/p/'' (length [1, 2, 3, 4 :: u8]) 4) = Inr job"
    unfolding four using job by (simp only: sample_job_def)
  note v = sample_sv2_accepted [OF job]
  have c: "np_min_ntime np \<le> sx_ntime sample_share" "sx_ntime sample_share \<le> ntime_ceiling (np_min_ntime np) (now_unix_secs (Some 1700000000))"
    "and (sx_version sample_share) (not VERSION_ROLLING_MASK) = and (nj_version nj) (not VERSION_ROLLING_MASK)"
    "length (sx_extranonce sample_share) = 4" "\<not> je_superseded_by_clean (sample_entry job)"
    by (simp_all add: m sample_share_def sample_entry_def ntime_ceiling_def now_unix_secs_def MAX_NTIME_DRIFT_SECS_def sat_add_def
        word_le_nat_alt min_def)
  show ?thesis
    using sv2_share_decided_by_device_header [OF sample_crates_ok(1) built m(1,2) c(4,3,1,2,5), of "show_hex 16 1" 1] job m v
    unfolding Let_def by blast
qed

end
