(* ===== verification/Channel.thy ===== *)
theory Channel
  imports Session Sv2
begin

text \<open>
  One Stratum V2 connection (\<open>src/protocol/sv2/mod.rs\<close>) after its Noise handshake.  As for Stratum V1,
  the session is a record and the handlers return it with what it shares with the pool; the
  encrypted socket is a writer that takes plaintext frames and may refuse any of them.  \<open>None\<close> is a
  panic.
\<close>

declare of_nat_unat [simp del]

section \<open>State\<close>

definition SV2_PROTOCOL_VERSION :: u16 where
  "SV2_PROTOCOL_VERSION = 2"

record sv2_session =
  x2_ip :: ip_addr
  x2_session_id :: string
  x2_worker :: "string option"
  x2_identity :: "miner_identity option"
  x2_setup_done :: bool
  x2_channel_open :: bool
  x2_channel_id :: u32
  x2_extranonce_prefix :: bytes
  x2_extranonce_size :: nat
  x2_extranonce_total :: nat
  x2_difficulty :: u64
  x2_vardiff :: vardiff
  x2_vardiff_cfg :: vardiff_config
  x2_credit :: share_credit
  x2_share_set :: share_set
  x2_guard :: session_guard
  x2_job_ids :: "(u32 \<times> string) list"
  x2_next_job_id :: u32
  x2_issued_jobs :: issued_jobs
  x2_pending_template :: "job_template option"
  x2_coinbase_tag :: string
  x2_network :: network
  x2_shares_accepted :: u64
  x2_shares_rejected :: u64
  x2_connect_time :: instant

text \<open>The pool with the two process-wide counters a channel draws from.\<close>

record ('c, 'w) shared =
  sh_pool :: "('c, 'w) pool"
  sh_extranonce1_counter :: u64
  sh_channel_id :: u32

text \<open>
  The writer: the messages it sent, as type, channel bit and payload, and whether it will take the
  next ones; with no more answers recorded it takes everything.
\<close>

record writer =
  wr_out :: "(u8 \<times> bool \<times> bytes) list"
  wr_answers :: "bool list"

definition wr_send :: "u8 \<Rightarrow> bool \<Rightarrow> bytes \<Rightarrow> writer \<Rightarrow> bool \<times> writer" where
  "wr_send msg_type channel_msg payload w =
     (case wr_answers w of
        False # rest \<Rightarrow> (False, w\<lparr>wr_answers := rest\<rparr>)
      | answers \<Rightarrow> (True, w\<lparr>wr_out := wr_out w @ [(msg_type, channel_msg, payload)], wr_answers := tl answers\<rparr>))"

definition sv2_stats_worker :: "sv2_session \<Rightarrow> string option" where
  "sv2_stats_worker s = map_option mi_canonical_name (x2_identity s)"

definition sv2_session_new ::
  "ip_addr \<Rightarrow> config \<Rightarrow> bytes \<Rightarrow> network \<Rightarrow> u64 \<Rightarrow> instant \<Rightarrow> instant \<Rightarrow> instant \<Rightarrow> instant \<Rightarrow> sv2_session" where
  "sv2_session_new peer cfg extranonce_prefix network random_u64 now1 now2 now3 now4 =
     (let initial_diff = pc_initial_difficulty (c_pool cfg) in
      \<lparr> x2_ip = peer, x2_session_id = show_hex 16 (unat random_u64), x2_worker = None, x2_identity = None,
        x2_setup_done = False, x2_channel_open = False, x2_channel_id = 0, x2_extranonce_prefix = extranonce_prefix,
        x2_extranonce_size = pc_extranonce2_size (c_pool cfg),
        x2_extranonce_total = pc_extranonce1_size (c_pool cfg) + pc_extranonce2_size (c_pool cfg),
        x2_difficulty = initial_diff, x2_vardiff = vardiff_new (c_vardiff cfg) initial_diff now1,
        x2_vardiff_cfg = c_vardiff cfg, x2_credit = share_credit_new (vc_min_difficulty (c_vardiff cfg)) now2,
        x2_share_set = share_set_new, x2_guard = session_guard_new (c_security cfg) now3, x2_job_ids = [],
        x2_next_job_id = 1, x2_issued_jobs = issued_new, x2_pending_template = None,
        x2_coinbase_tag = pc_coinbase_tag (c_pool cfg), x2_network = network, x2_shares_accepted = 0,
        x2_shares_rejected = 0, x2_connect_time = now4 \<rparr>)"

definition sv2_network_difficulty :: "('a, 'c, 'v, 'w) env \<Rightarrow> sv2_session \<Rightarrow> u64 option" where
  "sv2_network_difficulty env s =
     Option.bind (x2_pending_template s) (\<lambda>template.
       case bits_to_difficulty (ev_powf2 env) (jt_bits template) of
         Inl _ \<Rightarrow> None
       | Inr difficulty \<Rightarrow> if is_finite difficulty \<and> f_le (Fin 1) difficulty then Some (f_to_u64 difficulty) else None)"

definition assign_job_id :: "string \<Rightarrow> sv2_session \<Rightarrow> u32 \<times> sv2_session" where
  "assign_job_id engine_job_id s =
     (let i = x2_next_job_id s; next_id = i + 1; ids = x2_job_ids s @ [(i, engine_job_id)] in
      (i, s\<lparr>x2_next_job_id := (if next_id = 0 then 1 else next_id), x2_job_ids := drop (length ids - 16) ids\<rparr>))"

definition engine_job_id :: "sv2_session \<Rightarrow> u32 \<Rightarrow> string option" where
  "engine_job_id s sv2_job_id = map_option snd (find (\<lambda>(j, _). j = sv2_job_id) (x2_job_ids s))"

section \<open>Share bookkeeping and replies\<close>

datatype flow = Continue | Stop string

type_synonym ('c, 'w) sv2_state = "sv2_session \<times> ('c, 'w) shared \<times> writer"

definition sv2_accept_share ::
  "('a, 'c, 'v, 'w) env \<Rightarrow> moment \<Rightarrow> string \<Rightarrow> u64 \<Rightarrow> u64 \<Rightarrow> sv2_session \<times> ('c, 'w) pool \<Rightarrow> sv2_session \<times> ('c, 'w) pool" where
  "sv2_accept_share env mo worker hash_difficulty job_difficulty st =
     (let (s, p) = st;
          (worth, cr) = credit (x2_credit s) (x2_difficulty s) job_difficulty hash_difficulty (mo_inst mo)
      in (s\<lparr>x2_shares_accepted := x2_shares_accepted s + 1, x2_credit := cr,
            x2_vardiff := record_share (ev_exp env) (x2_vardiff s) worth (mo_inst mo)\<rparr>,
          p\<lparr>pl_stats := record_accepted (x2_session_id s) worker worth hash_difficulty (mo_meter mo) (mo_ts mo 0) (mo_ts mo 1)
                         (pl_stats p)\<rparr>))"

definition sv2_reject_share ::
  "moment \<Rightarrow> reject_reason \<Rightarrow> sv2_session \<times> ('c, 'w) pool \<Rightarrow> bool \<times> sv2_session \<times> ('c, 'w) pool" where
  "sv2_reject_share mo reason st =
     (let (s, p) = st;
          worker = (case sv2_stats_worker s of Some w \<Rightarrow> w | None \<Rightarrow> ''?'');
          (over, guard, ps) = record_rejected worker reason (mo_ts mo 0) (x2_guard s) (pl_stats p)
      in (over, s\<lparr>x2_shares_rejected := x2_shares_rejected s + 1, x2_guard := guard\<rparr>, p\<lparr>pl_stats := ps\<rparr>))"

text \<open>A payload to send, or the text of the error that kept it from being encoded.\<close>

definition reply :: "string \<Rightarrow> u8 \<Rightarrow> bool \<Rightarrow> string + bytes \<Rightarrow> writer \<Rightarrow> flow \<times> writer" where
  "reply context msg_type channel_msg payload w =
     (case payload of
        Inl e \<Rightarrow> (Stop (context @ e), w)
      | Inr p \<Rightarrow> (let (ok, w) = wr_send msg_type channel_msg p w in (if ok then Continue else Stop ''write'', w)))"

definition sv2_accept :: "sv2_api \<Rightarrow> u32 \<Rightarrow> sv2_session \<Rightarrow> writer \<Rightarrow> flow \<times> writer" where
  "sv2_accept api seq s w =
     reply ''encode SubmitSharesSuccess: '' (x_type api SubmitSharesSuccessT) True
       (submit_shares_success api (x2_channel_id s) seq (x2_difficulty s)) w"

definition sv2_reject :: "sv2_api \<Rightarrow> u32 \<Rightarrow> string \<Rightarrow> sv2_session \<Rightarrow> writer \<Rightarrow> flow \<times> writer" where
  "sv2_reject api seq code s w =
     reply ''encode SubmitSharesError: '' (x_type api SubmitSharesErrorT) True
       (submit_shares_error api (x2_channel_id s) seq code) w"

definition open_error :: "sv2_api \<Rightarrow> u32 \<Rightarrow> string \<Rightarrow> writer \<Rightarrow> flow \<times> writer" where
  "open_error api request_id code w =
     reply ''encode OpenMiningChannelError: '' (x_type api OpenChannelErrorT) False (open_channel_error api request_id code) w"

text \<open>Best effort: whether or not the error could be sent, the connection ends.\<close>

definition setup_error :: "sv2_api \<Rightarrow> string \<Rightarrow> u32 \<Rightarrow> string \<Rightarrow> writer \<Rightarrow> flow \<times> writer" where
  "setup_error api code flags reason w =
     (Stop reason,
      case setup_connection_error api code flags of
        Inr p \<Rightarrow> snd (wr_send (x_type api SetupConnectionErrorT) False p w)
      | Inl _ \<Rightarrow> w)"

text \<open>A share that does not count: booked, and answered unless the budget is spent.\<close>

definition sv2_reject_with ::
  "sv2_api \<Rightarrow> moment \<Rightarrow> u32 \<Rightarrow> reject_reason \<Rightarrow> string \<Rightarrow> ('c, 'w) sv2_state \<Rightarrow> flow \<times> ('c, 'w) sv2_state" where
  "sv2_reject_with api mo seq reason code st =
     (let (s, sh, w) = st; (over, s, p) = sv2_reject_share mo reason (s, sh_pool sh); sh = sh\<lparr>sh_pool := p\<rparr> in
      if over then (Stop ''too many invalid shares'', s, sh, w)
      else let (f, w) = sv2_reject api seq code s w in (f, s, sh, w))"

section \<open>Sending a job\<close>

definition send_job ::
  "('a, 'c, 'v, 'w) env \<Rightarrow> sv2_api \<Rightarrow> moment \<Rightarrow> job_template \<Rightarrow> bool \<Rightarrow> ('c, 'w) sv2_state \<Rightarrow> bool \<times> ('c, 'w) sv2_state" where
  "send_job env api mo template future st =
     (let (s, sh, w) = st in
      case x2_identity s of
        None \<Rightarrow> (False, s, sh, w)
      | Some identity \<Rightarrow>
          let (r, counter) = build_job_for_payout (ev_crates env) (ev_epoch env) (pl_job_counter (sh_pool sh)) template
                (mi_payout identity) (x2_coinbase_tag s) (length (x2_extranonce_prefix s)) (x2_extranonce_size s);
              sh = sh\<lparr>sh_pool := (sh_pool sh)\<lparr>pl_job_counter := counter\<rparr>\<rparr>
          in case r of
               Inl _ \<Rightarrow> (False, s, sh, w)
             | Inr job \<Rightarrow>
                 let (sv2_job_id, s) = assign_job_id (sj_job_id job) s in
                 (case bind_str (build_new_extended_job api job (x2_channel_id s) sv2_job_id future) (\<lambda>j. encode api (NewExtendedJob j)) of
                    Inl _ \<Rightarrow> (False, s, sh, w)
                  | Inr payload \<Rightarrow>
                      let (ok, w) = wr_send (x_type api NewExtendedJobT) True payload w in
                      if \<not> ok then (False, s, sh, w)
                      else if \<not> future
                      then (True, s\<lparr>x2_issued_jobs := issue (x2_issued_jobs s) job False (x2_difficulty s) (mo_inst mo)\<rparr>, sh, w)
                      else case bind_str (build_set_new_prev_hash (ev_crates env) job (x2_channel_id s) sv2_job_id)
                                  (\<lambda>n. encode api (NewPrevHash n)) of
                             Inl _ \<Rightarrow> (False, s, sh, w)
                           | Inr payload \<Rightarrow>
                               let (ok, w) = wr_send (x_type api NewPrevHashT) True payload w in
                               if \<not> ok then (False, s, sh, w)
                               else (True, s\<lparr>x2_issued_jobs := issue (x2_issued_jobs s) job True (x2_difficulty s) (mo_inst mo)\<rparr>, sh, w)))"

section \<open>Handlers\<close>

text \<open>\<open>{:#x}\<close>.\<close>

fun show_lower_hex :: "nat \<Rightarrow> string" where
  "show_lower_hex n = (if n < 16 then [hex_char n] else show_lower_hex (n div 16) @ [hex_char (n mod 16)])"

definition handle_setup_connection :: "sv2_api \<Rightarrow> bytes \<Rightarrow> ('c, 'w) sv2_state \<Rightarrow> flow \<times> ('c, 'w) sv2_state" where
  "handle_setup_connection api payload st =
     (let (s, sh, w) = st in
      case decode_setup_connection api payload of
        Inl e \<Rightarrow> (Stop (''bad SetupConnection: '' @ e), s, sh, w)
      | Inr setup \<Rightarrow>
          (case sc_protocol setup of
             OtherProtocol name \<Rightarrow>
               let (f, w) = setup_error api ''unsupported-protocol'' 0 (''unsupported sub-protocol: '' @ name) w in (f, s, sh, w)
           | MiningProtocol \<Rightarrow>
               if sc_min_version setup > SV2_PROTOCOL_VERSION
               then let (f, w) = setup_error api ''protocol-version-mismatch'' 0
                          (''unsupported SV2 version range '' @ show_nat (unat (sc_min_version setup)) @ ''..''
                           @ show_nat (unat (sc_max_version setup))) w in (f, s, sh, w)
               else if and (sc_flags setup) UNSUPPORTED_SETUP_FLAGS \<noteq> 0
               then let (f, w) = setup_error api ''unsupported-feature-flags'' UNSUPPORTED_SETUP_FLAGS
                          (''unsupported feature flags 0x'' @ show_lower_hex (unat (sc_flags setup))) w in (f, s, sh, w)
               else
                 let used_version = min SV2_PROTOCOL_VERSION (sc_max_version setup);
                     (f, w) = reply ''encode SetupConnectionSuccess: '' (x_type api SetupConnectionSuccessT) False
                                (setup_connection_success api used_version) w
                 in (f, s\<lparr>x2_setup_done := True\<rparr>, sh, w)))"

text \<open>
  Opening a channel, in the parts the code has: the identity and its budget, the extranonce split, and
  the channel itself with its target and first job.
\<close>

definition claim_identity ::
  "miner_identity \<Rightarrow> sv2_session \<times> ('c, 'w) pool \<Rightarrow> bool \<times> bool \<times> sv2_session \<times> ('c, 'w) pool" where
  "claim_identity identity st =
     (let (s, p) = st; is_new = (sv2_stats_worker s \<noteq> Some (mi_canonical_name identity)) in
      if \<not> is_new then (True, is_new, s, p)
      else
        let (allowed, guard) = record_new_authorization (x2_guard s); s = s\<lparr>x2_guard := guard\<rparr> in
        if \<not> allowed then (False, is_new, s, p)
        else (True, is_new, s\<lparr>x2_worker := None, x2_identity := None\<rparr>,
              case x2_identity s of
                Some prev \<Rightarrow> p\<lparr>pl_stats := mark_worker_offline (mi_canonical_name prev) (pl_stats p)\<rparr>
              | None \<Rightarrow> p))"

definition assigned_target :: "u64 \<Rightarrow> bytes \<Rightarrow> bytes" where
  "assigned_target difficulty max_target =
     (let target = difficulty_to_sv2_target difficulty in if sv2_target_le target max_target then target else max_target)"

definition open_channel ::
  "('a, 'c, 'v, 'w) env \<Rightarrow> sv2_api \<Rightarrow> moment \<Rightarrow> open_extended \<Rightarrow> miner_identity \<Rightarrow> bool \<Rightarrow> nat \<Rightarrow> ('c, 'w) sv2_state
     \<Rightarrow> flow \<times> ('c, 'w) sv2_state" where
  "open_channel env api mo opn identity is_new granted st =
     (let (s, sh, w) = st;
          prefix_len = x2_extranonce_total s - granted;
          (prefix, counter) = generate_extranonce1 prefix_len (sh_extranonce1_counter sh);
          channel_id = sh_channel_id sh;
          s = s\<lparr>x2_extranonce_size := granted, x2_extranonce_prefix := prefix, x2_channel_id := channel_id,
                x2_worker := Some (oe_user_identity opn), x2_identity := Some identity\<rparr>;
          target = assigned_target (x2_difficulty s) (oe_max_target opn);
          p = sh_pool sh;
          p = (if is_new
               then p\<lparr>pl_stats := set_worker_protocol (mi_canonical_name identity) ''sv2''
                        (mark_worker_online (mi_canonical_name identity) (x2_difficulty s) (mo_ts mo 0) (pl_stats p))\<rparr>
               else p);
          sh = sh\<lparr>sh_pool := p, sh_extranonce1_counter := counter, sh_channel_id := channel_id + 1\<rparr>;
          (f, w) = reply ''encode OpenExtendedMiningChannelSuccess: '' (x_type api OpenExtendedSuccessT) False
                     (open_extended_success api (oe_request_id opn) channel_id target (of_nat (x2_extranonce_size s)) (x2_extranonce_prefix s)) w
      in case f of
           Stop reason \<Rightarrow> (Stop reason, s, sh, w)
         | Continue \<Rightarrow>
             let s = s\<lparr>x2_channel_open := True\<rparr> in
             (case x2_pending_template s of
                None \<Rightarrow> (Continue, s, sh, w)
              | Some template \<Rightarrow>
                  let (ok, st) = send_job env api mo template True (s, sh, w) in (if ok then Continue else Stop ''write'', st)))"

definition handle_open_extended ::
  "('a, 'c, 'v, 'w) env \<Rightarrow> sv2_api \<Rightarrow> moment \<Rightarrow> bytes \<Rightarrow> ('c, 'w) sv2_state \<Rightarrow> (flow \<times> ('c, 'w) sv2_state) option" where
  "handle_open_extended env api mo payload st =
     (let (s, sh, w) = st in
      if \<not> x2_setup_done s then Some (Stop ''OpenExtendedMiningChannel before SetupConnection'', s, sh, w)
      else case decode_open_extended api payload of
        Inl e \<Rightarrow> Some (Stop (''bad OpenExtendedMiningChannel: '' @ e), s, sh, w)
      | Inr opn \<Rightarrow>
          let refuse = (\<lambda>code. let (f, w) = open_error api (oe_request_id opn) code w in Some (f, s, sh, w)) in
          (case check_worker_name (x2_guard s) (oe_user_identity opn) of
             Inl _ \<Rightarrow> refuse ''invalid-user-identity''
           | Inr _ \<Rightarrow>
               (case identity_parse (ev_address env) (oe_user_identity opn) (x2_network s) (sg_max_worker_name_len (x2_guard s)) of
                  Inl _ \<Rightarrow> refuse ''invalid-user-identity''
                | Inr identity \<Rightarrow>
                    if x2_channel_open s then refuse ''multiple-channels-unsupported''
                    else
                      let (allowed, is_new, s, p) = claim_identity identity (s, sh_pool sh); sh = sh\<lparr>sh_pool := p\<rparr> in
                      if \<not> allowed then Some (Stop ''too many worker identities'', s, sh, w)
                      else
                        let requested = unat (oe_min_extranonce_size opn) in
                        if requested > x2_extranonce_total s
                        then Some (Continue, s, sh,
                               case open_channel_error_extranonce api (oe_request_id opn) of
                                 Inr p \<Rightarrow> snd (wr_send (x_type api OpenChannelErrorT) False p w)
                               | Inl _ \<Rightarrow> w)
                        else
                          let granted = max requested 1 in
                          if x2_extranonce_total s < granted then None
                          else Some (open_channel env api mo opn identity is_new granted (s, sh, w)))))"

text \<open>The block branch of a submission, as in a Stratum V1 session.\<close>

definition sv2_block_share ::
  "('a, 'c, 'v, 'w) env \<Rightarrow> moment \<Rightarrow> string \<Rightarrow> job_entry \<Rightarrow> u64 \<Rightarrow> string \<Rightarrow> bytes \<Rightarrow> sv2_session \<times> ('c, 'w) pool
     \<Rightarrow> sv2_session \<times> ('c, 'w) pool" where
  "sv2_block_share env mo worker entry hash_difficulty block_hex hash st =
     (let (s, p) = st;
          hash_hex = block_hash_display (ev_crates env) hash;
          height = sj_height (je_job entry); payout = sj_payout_address (je_job entry);
          (r, retried, node) = submit_found_block (ev_node env) block_hex (pl_node p);
          p = p\<lparr>pl_node := node,
                pl_resubmits := pl_resubmits p @ (if retried then [\<lparr> fb_height = height, fb_hash_hex = hash_hex,
                  fb_block_hex = block_hex, fb_worker = worker, fb_payout = payout \<rparr>] else [])\<rparr>;
          (s, p) = sv2_accept_share env mo worker hash_difficulty (je_difficulty entry) (s, p)
      in (s, case r of
               Inr outcome \<Rightarrow> p\<lparr>pl_stats := record_block_outcome outcome height worker payout hash_hex (mo_ts mo 2) (mo_ts mo 3)
                                 (pl_stats p)\<rparr>
             | Inl _ \<Rightarrow> p))"

definition sv2_share_key :: "string \<Rightarrow> submit_extended \<Rightarrow> share_key" where
  "sv2_share_key job_id submit =
     \<lparr> sk_job_id = job_id, sk_extranonce2 = sx_extranonce submit, sk_ntime = sx_ntime submit, sk_nonce = sx_nonce submit,
       sk_version_bits = and (sx_version submit) VERSION_ROLLING_MASK \<rparr>"

definition sv2_handle_submit ::
  "('a, 'c, 'v, 'w) env \<Rightarrow> sv2_api \<Rightarrow> moment \<Rightarrow> bytes \<Rightarrow> ('c, 'w) sv2_state \<Rightarrow> flow \<times> ('c, 'w) sv2_state" where
  "sv2_handle_submit env api mo payload st =
     (let (s, sh, w) = st in
      if \<not> x2_channel_open s then (Stop ''SubmitShares before channel open'', s, sh, w)
      else case decode_submit_extended api payload of
        Inl e \<Rightarrow> (Stop (''bad SubmitSharesExtended: '' @ e), s, sh, w)
      | Inr submit \<Rightarrow>
          let worker = (case sv2_stats_worker s of Some wk \<Rightarrow> wk | None \<Rightarrow> ''?''); seq = sx_sequence_number submit in
          if length (sx_extranonce submit) \<noteq> x2_extranonce_size s
          then sv2_reject_with api mo seq RBadExtranonce ''bad-extranonce-size'' (s, sh, w)
          else case Option.bind (engine_job_id s (sx_job_id submit)) (find_job (x2_issued_jobs s)) of
            None \<Rightarrow> sv2_reject_with api mo seq RJobNotFound ''stale-job'' (s, sh, w)
          | Some entry \<Rightarrow>
              let params = sv2_share_params (sj_job_id (je_job entry)) submit; key = sv2_share_key (sj_job_id (je_job entry)) submit in
              if share_contains (x2_share_set s) key then sv2_reject_with api mo seq RDuplicate ''duplicate-share'' (s, sh, w)
              else
                case validate_share_no_dedup (ev_crates env) (mo_wall mo) params (je_job entry) entry
                       (x2_extranonce_prefix s) (vc_min_difficulty (x2_vardiff_cfg s)) of
                  None \<Rightarrow> (Stop ''internal error'', s, sh, w)
                | Some (Inl e) \<Rightarrow> sv2_reject_with api mo seq (reason_from_error e) (reject_label (reason_from_error e)) (s, sh, w)
                | Some (Inr res) \<Rightarrow>
                    let s = s\<lparr>x2_share_set := share_insert (x2_share_set s) key\<rparr>;
                        (s, p) = (case res of
                           Valid assigned hash_difficulty hash \<Rightarrow>
                             sv2_accept_share env mo worker hash_difficulty (je_difficulty entry) (s, sh_pool sh)
                         | Block hash_difficulty block_hex hash \<Rightarrow>
                             sv2_block_share env mo worker entry hash_difficulty block_hex hash (s, sh_pool sh));
                        (f, w) = sv2_accept api seq s w
                    in (f, s, sh\<lparr>sh_pool := p\<rparr>, w))"

section \<open>Dispatch and the session loop\<close>

definition sv2_handle_message ::
  "('a, 'c, 'v, 'w) env \<Rightarrow> sv2_api \<Rightarrow> moment \<Rightarrow> u8 \<Rightarrow> bytes \<Rightarrow> ('c, 'w) sv2_state \<Rightarrow> (flow \<times> ('c, 'w) sv2_state) option" where
  "sv2_handle_message env api mo msg_type payload st =
     (let (s, sh, w) = st;
          (allowed, bucket) = try_consume (sg_share_rate (x2_guard s)) (mo_bucket1 mo) (mo_bucket2 mo);
          s = s\<lparr>x2_guard := (x2_guard s)\<lparr>sg_share_rate := bucket\<rparr>\<rparr>; p = sh_pool sh
      in if \<not> allowed
         then Some (Stop ''rate limited'', s, sh\<lparr>sh_pool := p\<lparr>pl_stats := record_rate_limited (pl_stats p),
                pl_bans := ban (pl_bans p) (x2_ip s) ''message rate exceeded'' (mo_ban mo)\<rparr>\<rparr>, w)
         else if msg_type = x_type api SetupConnectionT then Some (handle_setup_connection api payload (s, sh, w))
         else if msg_type = x_type api OpenExtendedT then handle_open_extended env api mo payload (s, sh, w)
         else if msg_type = x_type api SubmitSharesT then Some (sv2_handle_submit env api mo payload (s, sh, w))
         else Some (Continue, s, sh, w))"

text \<open>Whether the loop goes on.\<close>

definition sv2_apply_retarget ::
  "('a, 'c, 'v, 'w) env \<Rightarrow> sv2_api \<Rightarrow> moment \<Rightarrow> ('c, 'w) sv2_state \<Rightarrow> (bool \<times> ('c, 'w) sv2_state) option" where
  "sv2_apply_retarget env api mo st =
     (let (s, sh, w) = st in
      if \<not> x2_channel_open s then Some (True, s, sh, w)
      else case check_retarget (ev_exp env) (x2_vardiff s) (mo_retarget mo) (sv2_network_difficulty env s) of
        None \<Rightarrow> None
      | Some (None, vd) \<Rightarrow> Some (True, s\<lparr>x2_vardiff := vd\<rparr>, sh, w)
      | Some (Some new_diff, vd) \<Rightarrow>
          let s = s\<lparr>x2_vardiff := vd, x2_difficulty := new_diff\<rparr>; p = sh_pool sh;
              p = (case sv2_stats_worker s of
                     Some worker \<Rightarrow> p\<lparr>pl_stats := update_worker_vardiff worker new_diff (mo_retarget_ts mo) (pl_stats p)\<rparr>
                   | None \<Rightarrow> p);
              sh = sh\<lparr>sh_pool := p\<rparr>
          in (case set_target api (x2_channel_id s) (difficulty_to_sv2_target new_diff) of
                Inl _ \<Rightarrow> Some (False, s, sh, w)
              | Inr payload \<Rightarrow> let (ok, w) = wr_send (x_type api SetTargetT) True payload w in Some (ok, s, sh, w)))"

text \<open>What the select delivers: a decrypted frame, the end of the reader or the idle deadline, or the job channel.\<close>

datatype sv2_event =
    FrameIn u8 bytes
  | ReaderEnds
  | TemplateIn job_template bool
  | TemplatesMissed
  | TemplatesEnd

definition sv2_push_job ::
  "('a, 'c, 'v, 'w) env \<Rightarrow> sv2_api \<Rightarrow> moment \<Rightarrow> job_template \<Rightarrow> bool \<Rightarrow> ('c, 'w) sv2_state \<Rightarrow> bool \<times> ('c, 'w) sv2_state" where
  "sv2_push_job env api mo template clean st =
     (let (s, sh, w) = st; s = (if clean then s\<lparr>x2_share_set := share_clear (x2_share_set s)\<rparr> else s);
          (ok, s, sh, w) = (if x2_channel_open s then send_job env api mo template clean (s, sh, w) else (True, s, sh, w))
      in (ok, if ok then s\<lparr>x2_pending_template := Some template\<rparr> else s, sh, w))"

definition sv2_step ::
  "('a, 'c, 'v, 'w) env \<Rightarrow> sv2_api \<Rightarrow> moment \<Rightarrow> sv2_event \<Rightarrow> ('c, 'w) sv2_state \<Rightarrow> (bool \<times> ('c, 'w) sv2_state) option" where
  "sv2_step env api mo event st =
     (let (s, sh, w) = st in
      case event of
        FrameIn msg_type payload \<Rightarrow>
          (case check_message_size (x2_guard s) (length payload) of
             Inl _ \<Rightarrow> Some (False, s, sh\<lparr>sh_pool := (sh_pool sh)\<lparr>pl_bans := ban (pl_bans (sh_pool sh)) (x2_ip s) ''message too large'' (mo_ban mo)\<rparr>\<rparr>, w)
           | Inr _ \<Rightarrow>
               (case sv2_handle_message env api mo msg_type payload (s, sh, w) of
                  None \<Rightarrow> None
                | Some (Stop reason, st) \<Rightarrow> Some (False, st)
                | Some (Continue, st) \<Rightarrow> sv2_apply_retarget env api mo st))
      | ReaderEnds \<Rightarrow> Some (False, s, sh, w)
      | TemplateIn template clean \<Rightarrow>
          (let (ok, st) = sv2_push_job env api mo template clean (s, sh, w) in
           if ok then sv2_apply_retarget env api mo st else Some (False, st))
      | TemplatesMissed \<Rightarrow> sv2_apply_retarget env api mo (s, sh, w)
      | TemplatesEnd \<Rightarrow> Some (False, s, sh, w))"

text \<open>The start of a session, given whether the Noise handshake succeeded within its deadline, and its end.\<close>

definition sv2_start ::
  "ip_addr \<Rightarrow> config \<Rightarrow> network \<Rightarrow> u64 \<Rightarrow> bool \<Rightarrow> (nat \<Rightarrow> instant) \<Rightarrow> ('c, 'w) shared
     \<Rightarrow> (sv2_session option) \<times> ('c, 'w) shared" where
  "sv2_start peer cfg network random_u64 handshake t sh =
     (let p = sh_pool sh in
      case is_banned (pl_bans p) peer (t 0) (t 1) of
        (True, bans) \<Rightarrow> (None, sh)
      | (False, bans) \<Rightarrow>
          if \<not> handshake then (None, sh\<lparr>sh_pool := p\<lparr>pl_bans := bans\<rparr>\<rparr>)
          else
            let (prefix, counter) = generate_extranonce1 (pc_extranonce1_size (c_pool cfg)) (sh_extranonce1_counter sh);
                s = sv2_session_new peer cfg prefix network random_u64 (t 2) (t 3) (t 4) (t 5)
            in (Some (case pl_template p of Some template \<Rightarrow> s\<lparr>x2_pending_template := Some template\<rparr> | None \<Rightarrow> s),
                sh\<lparr>sh_pool := p\<lparr>pl_bans := bans, pl_stats := miner_connected (pl_stats p)\<rparr>, sh_extranonce1_counter := counter\<rparr>))"

definition sv2_end :: "sv2_session \<times> ('c, 'w) pool \<Rightarrow> ('c, 'w) pool" where
  "sv2_end st =
     (let (s, p) = st; ps = miner_disconnected (pl_stats p)
      in p\<lparr>pl_stats := (case sv2_stats_worker s of Some worker \<Rightarrow> mark_worker_offline worker ps | None \<Rightarrow> ps)\<rparr>)"

end
