(* ===== verification/Payouts.thy ===== *)
theory Payouts
  imports Session
begin

text \<open>
  What holds of a Stratum V1 session after any sequence of events, whatever the rest of the
  pool does in between: its jobs pay the identity it is bound to, its controllers stay in range,
  and no share is counted twice.
\<close>

declare of_nat_unat [simp del]

section \<open>The invariant\<close>

definition job_pays :: "('a, 'c, 'v, 'w) env \<Rightarrow> payout_descriptor \<Rightarrow> stratum_job \<Rightarrow> bool" where
  "job_pays env payout job \<longleftrightarrow> (\<exists>counter template tag e1 e2.
     fst (build_job_for_payout (ev_crates env) (ev_epoch env) counter template payout tag e1 e2) = Inr job)"

text \<open>The protocol state: who is bound to the session and what its jobs pay.\<close>

definition bound_ok :: "('a, 'c, 'v, 'w) env \<Rightarrow> session \<Rightarrow> bool" where
  "bound_ok env s \<longleftrightarrow> (se_authorized s \<longleftrightarrow> se_identity s \<noteq> None) \<and> (se_authorized s \<longleftrightarrow> se_worker s \<noteq> None)
     \<and> (se_authorized s \<longrightarrow> se_subscribed s)
     \<and> (\<forall>i. se_identity s = Some i \<longrightarrow>
          (\<exists>raw. identity_parse (ev_address env) raw (se_network s) (sg_max_worker_name_len (se_guard s)) = Inr i))
     \<and> (\<forall>e \<in> set (ij_entries (se_issued_jobs s)). \<exists>i. se_identity s = Some i \<and> job_pays env (mi_payout i) (je_job e))
     \<and> length (ij_entries (se_issued_jobs s)) \<le> JOB_HISTORY_DEPTH"

text \<open>The controllers.\<close>

definition control_ok :: "config \<Rightarrow> session \<Rightarrow> bool" where
  "control_ok cfg s \<longleftrightarrow> se_vardiff_cfg s = c_vardiff cfg \<and> vd_inv (c_vardiff cfg) (se_vardiff s)
     \<and> vd_current (se_vardiff s) = se_difficulty s
     \<and> (se_difficulty s = pc_initial_difficulty (c_pool cfg)
        \<or> vc_min_difficulty (c_vardiff cfg) \<le> se_difficulty s \<and> se_difficulty s \<le> vc_max_difficulty (c_vardiff cfg))
     \<and> and (se_version_rolling_mask s) (not VERSION_ROLLING_MASK) = 0
     \<and> (se_version_rolling_enabled s \<longrightarrow> se_version_rolling_mask s \<noteq> 0)
     \<and> share_set_inv (se_share_set s)"

definition session_ok :: "('a, 'c, 'v, 'w) env \<Rightarrow> config \<Rightarrow> session \<Rightarrow> bool" where
  "session_ok env cfg s \<longleftrightarrow> bound_ok env s \<and> control_ok cfg s"

text \<open>The fields the two halves read.\<close>

definition bound_view :: "session \<Rightarrow> bool \<times> bool \<times> string option \<times> miner_identity option \<times> network \<times> nat \<times> issued_jobs" where
  "bound_view s = (se_subscribed s, se_authorized s, se_worker s, se_identity s, se_network s,
     sg_max_worker_name_len (se_guard s), se_issued_jobs s)"

definition control_view :: "session \<Rightarrow> vardiff_config \<times> vardiff \<times> u64 \<times> u32 \<times> bool \<times> share_set" where
  "control_view s = (se_vardiff_cfg s, se_vardiff s, se_difficulty s, se_version_rolling_mask s,
     se_version_rolling_enabled s, se_share_set s)"

lemma bound_ok_view: "bound_view s' = bound_view s \<Longrightarrow> bound_ok env s \<Longrightarrow> bound_ok env s'"
  by (auto simp: bound_view_def bound_ok_def)

lemma control_ok_view: "control_view s' = control_view s \<Longrightarrow> control_ok cfg s \<Longrightarrow> control_ok cfg s'"
  by (auto simp: control_view_def control_ok_def)

lemma share_set_inv_clear: "share_set_inv s \<Longrightarrow> share_set_inv (share_clear s)"
  by (simp add: share_set_inv_def share_clear_def)

lemma length_issue: "length (ij_entries ij) \<le> JOB_HISTORY_DEPTH \<Longrightarrow> length (ij_entries (issue ij j clean d now)) \<le> JOB_HISTORY_DEPTH"
  by (auto simp: issue_entries Let_def JOB_HISTORY_DEPTH_def)

lemma issue_jobs: "je_job ` set (ij_entries (issue ij j clean d now)) \<subseteq> insert j (je_job ` set (ij_entries ij))"
proof -
  have "je_job ` set (kept ij clean) \<subseteq> je_job ` set (ij_entries ij)"
    by (cases "ij_entries ij") (auto simp: Let_def)
  then show ?thesis by (auto simp: issue_entries)
qed

lemma guard_frames:
  "record_rejected w r now g ps = (over, g', ps') \<Longrightarrow> sg_max_worker_name_len g' = sg_max_worker_name_len g"
  "record_new_authorization g = (b, g') \<Longrightarrow> sg_max_worker_name_len g' = sg_max_worker_name_len g"
  by (auto simp: record_rejected_def record_new_authorization_def Let_def split: if_splits prod.splits)

text \<open>Two spellings of one canonical name have one payout.\<close>

lemma canonical_payout:
  assumes "address_ok api" "identity_parse api raw net k = Inr i" "identity_parse api raw' net k' = Inr i'"
    and "mi_canonical_name i = mi_canonical_name i'"
  shows "mi_payout i = mi_payout i'"
proof -
  from assms(2) obtain addr p a where a: "a_parse api addr = Some p" "a_require_network api p net = Some a"
    "mi_payout i = \<lparr> pd_address = a_to_string api a, pd_script_pubkey = a_script_pubkey api a \<rparr>"
    "mi_canonical_name i = a_to_string api a @ (case mi_worker_label i of None \<Rightarrow> [] | Some l \<Rightarrow> ''.'' @ l)"
    by (rule identity_parse_Inr)
  from assms(3) obtain addr' p' a' where a': "a_parse api addr' = Some p'" "a_require_network api p' net = Some a'"
    "mi_payout i' = \<lparr> pd_address = a_to_string api a', pd_script_pubkey = a_script_pubkey api a' \<rparr>"
    "mi_canonical_name i' = a_to_string api a' @ (case mi_worker_label i' of None \<Rightarrow> [] | Some l \<Rightarrow> ''.'' @ l)"
    by (rule identity_parse_Inr)
  have n: "a_parse api (a_to_string api a) = Some a" "CHR ''.'' \<notin> set (a_to_string api a)"
    "a_parse api (a_to_string api a') = Some a'" "CHR ''.'' \<notin> set (a_to_string api a')"
    using assms(1) a(1,2) a'(1,2) unfolding address_ok_def by blast+
  have t: "takeWhile (\<lambda>c. c \<noteq> CHR ''.'') (x @ (case l of None \<Rightarrow> [] | Some l \<Rightarrow> ''.'' @ l)) = x"
    if "CHR ''.'' \<notin> set x" for x l
    using that by (induction x) (auto split: option.splits)
  have "a_to_string api a = takeWhile (\<lambda>c. c \<noteq> CHR ''.'') (mi_canonical_name i)"
    "a_to_string api a' = takeWhile (\<lambda>c. c \<noteq> CHR ''.'') (mi_canonical_name i')"
    unfolding a(4) a'(4) using t [OF n(2)] t [OF n(4)] by simp_all
  then have "a_to_string api a = a_to_string api a'" by (simp only: assms(4))
  then have "a = a'" using n(1,3) by (metis option.inject)
  then show ?thesis using a(3) a'(3) by simp
qed

section \<open>Every event keeps it\<close>

lemma check_retarget_None:
  assumes "check_retarget ex vd now net = Some (None, vd')"
  shows "vd_current vd' = vd_current vd"
proof -
  have "vd_current (vd_decay ex vd a now) = vd_current vd" for a by (simp add: vd_decay_def Let_def)
  then show ?thesis using assms unfolding check_retarget_def Let_def
    by (auto simp: open_window_def split: option.splits if_splits)
qed

lemma credit_view: "bound_view (fst (accept_share env mo worker dif jd (s, p))) = bound_view s"
  by (simp add: accept_share_def bound_view_def Let_def case_prod_unfold)

lemma accept_ok:
  assumes "exp_ok (ev_exp env)" "session_ok env cfg s"
  shows "session_ok env cfg (fst (accept_share env mo worker dif jd (s, p)))"
proof -
  have "vd_current (record_share ex vd c now) = vd_current vd" for ex vd c now
    by (simp add: record_share_def vd_decay_def Let_def)
  then have "control_ok cfg (fst (accept_share env mo worker dif jd (s, p)))"
    using assms record_share_inv [OF assms(1)]
    by (simp add: accept_share_def control_ok_def session_ok_def Let_def case_prod_unfold)
  moreover have "bound_ok env (fst (accept_share env mo worker dif jd (s, p)))"
    by (rule bound_ok_view [OF credit_view]) (use assms(2) in \<open>simp add: session_ok_def\<close>)
  ultimately show ?thesis by (simp add: session_ok_def)
qed

lemma reject_ok:
  assumes "session_ok env cfg s"
  shows "session_ok env cfg (fst (snd (reject_share mo reason (s, p))))"
proof -
  obtain over g ps where r: "record_rejected (case stats_worker s of Some w \<Rightarrow> w | None \<Rightarrow> ''?'') reason (mo_ts mo 0) (se_guard s) (pl_stats p)
      = (over, g, ps)" by (metis prod_cases3)
  show ?thesis using assms guard_frames(1) [OF r]
    by (auto simp: reject_share_def r session_ok_def bound_ok_def control_ok_def)
qed

text \<open>The ways a submission can go.\<close>

definition noted :: "submit_params \<Rightarrow> session \<Rightarrow> session" where
  "noted params s = s\<lparr>se_share_set := share_insert (se_share_set s) (share_key_of params)\<rparr>"

lemma submit_cases:
  obtains (unauthorized) "\<not> (se_authorized s \<and> se_worker s = Some (su_worker params))"
      "handle_submit env mo req params (s, p) = (err_msg env req NotAuthorized, snd (reject_share mo RUnauthorized (s, p)))"
  | (rejected) reason e where "se_authorized s" "se_worker s = Some (su_worker params)"
      "handle_submit env mo req params (s, p) = reject_with env mo req reason e (s, p)"
  | (panic) entry where "find_job (se_issued_jobs s) (su_job_id params) = Some entry"
      "validate_share_no_dedup (ev_crates env) (mo_wall mo) (share_params_of s params) (je_job entry) entry
         (se_extranonce1 s) (vc_min_difficulty (se_vardiff_cfg s)) = None"
  | (accepted) worker entry dif where "se_authorized s" "se_worker s = Some (su_worker params)"
      "find_job (se_issued_jobs s) (su_job_id params) = Some entry" "\<not> share_contains (se_share_set s) (share_key_of params)"
      "worker = (case stats_worker s of Some w \<Rightarrow> w | None \<Rightarrow> su_worker params)"
      "handle_submit env mo req params (s, p) = (Messages [ok_true env req], accept_share env mo worker dif (je_difficulty entry) (noted params s, p))"
  | (block) worker entry dif block_hex hash where "se_authorized s" "se_worker s = Some (su_worker params)"
      "find_job (se_issued_jobs s) (su_job_id params) = Some entry" "\<not> share_contains (se_share_set s) (share_key_of params)"
      "worker = (case stats_worker s of Some w \<Rightarrow> w | None \<Rightarrow> su_worker params)"
      "handle_submit env mo req params (s, p) =
         (Messages [ok_true env req], submit_block_share env mo worker entry dif block_hex hash (noted params s, p))"
proof (cases "se_authorized s \<and> se_worker s = Some (su_worker params)")
  case False
  show thesis by (rule unauthorized [OF False]) (use False in \<open>simp add: handle_submit_def\<close>)
next
  case a: True
  note e = handle_submit_def [of env mo req params "(s, p)", unfolded Let_def prod.case, simplified a, simplified]
  show thesis
  proof (cases "find_job (se_issued_jobs s) (su_job_id params)")
    case None
    show thesis by (rule rejected) (use a None e in simp_all)
  next
    case f: (Some entry)
    show thesis
    proof (cases "share_contains (se_share_set s) (share_key_of params)")
      case True
      show thesis by (rule rejected) (use a f True e in simp_all)
    next
      case d: False
      note e = e [unfolded f option.case if_not_P [OF d]]
      let ?v = "validate_share_no_dedup (ev_crates env) (mo_wall mo) (share_params_of s params) (je_job entry) entry
         (se_extranonce1 s) (vc_min_difficulty (se_vardiff_cfg s))"
      consider "?v = None" | err where "?v = Some (Inl err)" | x dif h where "?v = Some (Inr (Valid x dif h))"
        | dif bh h where "?v = Some (Inr (Block dif bh h))"
        by (metis option.exhaust old.sum.exhaust share_result.exhaust)
      then show thesis
      proof cases
        case 1
        then show thesis by (rule panic [OF f])
      next
        case 2
        show thesis by (rule rejected) (use a e 2 in simp_all)
      next
        case 3
        show thesis by (rule accepted [OF _ _ f d refl]) (use a e 3 in \<open>simp_all add: noted_def\<close>)
      next
        case 4
        show thesis by (rule block [OF _ _ f d refl]) (use a e 4 in \<open>simp_all add: noted_def\<close>)
      qed
    qed
  qed
qed

lemma block_share_view:
  "fst (submit_block_share env mo worker entry dif bh h (s, p)) = fst (accept_share env mo worker dif (je_difficulty entry) (s, q))"
  by (simp add: submit_block_share_def accept_share_def Let_def case_prod_unfold)

lemma found_pays: "session_ok env cfg s \<Longrightarrow> find_job (se_issued_jobs s) i = Some e \<Longrightarrow> \<exists>payout. job_pays env payout (je_job e)"
  by (fastforce simp: session_ok_def bound_ok_def find_job_def find_Some_iff)

lemma validate_total:
  assumes "session_ok env cfg s" "find_job (se_issued_jobs s) i = Some e"
  shows "validate_share_no_dedup (ev_crates env) clock params (je_job e) e en1 d \<noteq> None"
  using found_pays [OF assms] validate_share_total [of "ev_crates env" "ev_epoch env"] by (fastforce simp: job_pays_def)

lemma submit_ok:
  assumes "exp_ok (ev_exp env)" "session_ok env cfg s" "handle_submit env mo req params (s, p) = (r, s', p')"
  shows "session_ok env cfg s'"
proof -
  have ins: "session_ok env cfg (noted params s)"
    using assms(2) bound_ok_view [of "noted params s" s env]
      share_set_inv_insert [of "se_share_set s"] by (simp add: session_ok_def control_ok_def bound_view_def noted_def)
  note acc = accept_ok [OF assms(1) ins]
  have s': "s' = fst (snd (handle_submit env mo req params (s, p)))" by (simp add: assms(3))
  show ?thesis
  proof (cases rule: submit_cases [of s params env mo req p])
    case unauthorized
    then show ?thesis using s' reject_ok [OF assms(2)] by simp
  next
    case rejected
    then show ?thesis using s' reject_ok [OF assms(2)] by (simp add: reject_with_def Let_def case_prod_unfold)
  next
    case panic
    then show ?thesis using validate_total [OF assms(2)] by blast
  next
    case accepted
    then show ?thesis using s' acc by simp
  next
    case block
    then show ?thesis using s' acc block_share_view by (metis snd_conv)
  qed
qed

lemma issue_ok:
  assumes "session_ok env cfg s" "materialize_job env s template counter = (Inr job, counter')"
  shows "session_ok env cfg (s\<lparr>se_current_template := Some template,
    se_issued_jobs := issue (se_issued_jobs s) job clean (se_difficulty s) now\<rparr>)"
proof -
  let ?s = "s\<lparr>se_current_template := Some template, se_issued_jobs := issue (se_issued_jobs s) job clean (se_difficulty s) now\<rparr>"
  obtain i where i: "se_identity s = Some i" "job_pays env (mi_payout i) job"
    using assms(2) by (auto simp: materialize_job_def job_pays_def split: option.splits) (metis fst_conv)
  have "job_pays env (mi_payout i) (je_job e)" if "e \<in> set (ij_entries (se_issued_jobs ?s))" for e
  proof -
    have "je_job e \<in> insert job (je_job ` set (ij_entries (se_issued_jobs s)))"
      using that issue_jobs [of "se_issued_jobs s" job clean "se_difficulty s" now] by auto
    then show ?thesis using assms(1) i by (auto simp: session_ok_def bound_ok_def)
  qed
  moreover have "length (ij_entries (se_issued_jobs ?s)) \<le> JOB_HISTORY_DEPTH"
    using assms(1) by (simp add: session_ok_def bound_ok_def length_issue)
  ultimately have "bound_ok env ?s" using assms(1) i by (auto simp: session_ok_def bound_ok_def)
  moreover have "control_ok cfg ?s" using assms(1) by (simp add: session_ok_def control_ok_def)
  ultimately show ?thesis by (simp add: session_ok_def)
qed

lemma first_job_ok:
  assumes "session_ok env cfg s"
  shows "session_ok env cfg (fst (snd (first_job env mo req (s, p))))"
proof (cases "case se_current_template s of Some t \<Rightarrow> Some t | None \<Rightarrow> pl_template p")
  case None
  then show ?thesis using assms by (simp add: first_job_def)
next
  case (Some template)
  then show ?thesis
    using assms issue_ok [OF assms, of template "pl_job_counter p"]
    by (cases "materialize_job env s template (pl_job_counter p)") (auto simp: first_job_def split: sum.splits)
qed

lemma switch_view:
  assumes "switch_identity mo identity (s, p) = (r, s1)"
  shows "bound_view s1 = bound_view s" "control_view s1 = control_view s"
    "r = Some (s2, p2) \<Longrightarrow> control_view s2 = (case control_view s of (a, b, c, d, e, f) \<Rightarrow> (a, b, c, d, e, share_clear f))
      \<and> se_subscribed s2 = se_subscribed s \<and> se_network s2 = se_network s
      \<and> sg_max_worker_name_len (se_guard s2) = sg_max_worker_name_len (se_guard s) \<and> ij_entries (se_issued_jobs s2) = []"
proof -
  obtain b g where g: "record_new_authorization (se_guard s) = (b, g)" by (metis surj_pair)
  note f = guard_frames(2) [OF g]
  show "bound_view s1 = bound_view s" "control_view s1 = control_view s"
    using assms f by (auto simp: switch_identity_def g bound_view_def control_view_def Let_def split: if_splits)
  show "r = Some (s2, p2) \<Longrightarrow> control_view s2 = (case control_view s of (a, b, c, d, e, f) \<Rightarrow> (a, b, c, d, e, share_clear f))
      \<and> se_subscribed s2 = se_subscribed s \<and> se_network s2 = se_network s
      \<and> sg_max_worker_name_len (se_guard s2) = sg_max_worker_name_len (se_guard s) \<and> ij_entries (se_issued_jobs s2) = []"
    using assms f by (auto simp: switch_identity_def g control_view_def Let_def issued_clear_def split: if_splits)
qed

lemma authorize_ok:
  assumes "address_ok (ev_address env)" "session_ok env cfg s"
  shows "session_ok env cfg (fst (snd (handle_authorize env mo req params (s, p))))"
proof (cases "se_subscribed s \<and> check_worker_name (se_guard s) (au_worker params) = Inr ()")
  case False
  then show ?thesis using assms(2) by (auto simp: handle_authorize_def split: sum.splits)
next
  case sub: True
  show ?thesis
  proof (cases "identity_parse (ev_address env) (au_worker params) (se_network s) (sg_max_worker_name_len (se_guard s))")
    case (Inl e)
    then show ?thesis using assms(2) sub by (simp add: handle_authorize_def)
  next
    case (Inr identity)
    define bind where "bind = (\<lambda>s :: session. s\<lparr>se_authorized := True, se_worker := Some (au_worker params), se_identity := Some identity\<rparr>)"
    show ?thesis
    proof (cases "stats_worker s = Some (mi_canonical_name identity)")
      case True
      then obtain i raw where i: "se_identity s = Some i" "mi_canonical_name i = mi_canonical_name identity"
        "identity_parse (ev_address env) raw (se_network s) (sg_max_worker_name_len (se_guard s)) = Inr i"
        using assms(2) by (auto simp: stats_worker_def session_ok_def bound_ok_def)
      then have "mi_payout i = mi_payout identity" using canonical_payout [OF assms(1) i(3) Inr] by simp
      then have "session_ok env cfg (bind s)"
        using assms(2) sub Inr i(1) by (auto simp: session_ok_def bound_ok_def control_ok_def bind_def)
      from first_job_ok [OF this] show ?thesis
        using sub Inr True by (simp add: handle_authorize_def bind_def)
    next
      case False
      obtain r s1 where w: "switch_identity mo identity (s, p) = (r, s1)" by (metis surj_pair)
      note v = switch_view [OF w]
      show ?thesis
      proof (cases r)
        case None
        then show ?thesis using assms(2) sub Inr False w bound_ok_view [OF v(1), of env] control_ok_view [OF v(2)]
          by (simp add: handle_authorize_def session_ok_def)
      next
        case (Some st)
        obtain s2 p2 where st: "st = (s2, p2)" by (metis surj_pair)
        note f = v(3) [OF Some [unfolded st]]
        have "session_ok env cfg (bind s2)"
          using assms(2) sub Inr f share_set_inv_clear [of "se_share_set s"]
          by (auto simp: session_ok_def bound_ok_def control_ok_def control_view_def bind_def)
        from first_job_ok [OF this] show ?thesis
          using sub Inr False w Some st by (simp add: handle_authorize_def bind_def)
      qed
    qed
  qed
qed

lemma configure_ok:
  assumes "session_ok env cfg s"
  shows "session_ok env cfg (snd (handle_configure env req params s))"
proof -
  have "and (and m (se_version_rolling_mask s)) (not VERSION_ROLLING_MASK) = 0" for m
    using assms by (simp add: session_ok_def control_ok_def and.assoc)
  moreover have "bound_ok env (snd (handle_configure env req params s))"
    by (rule bound_ok_view [of _ s]) (use assms in \<open>simp_all add: session_ok_def handle_configure_def bound_view_def Let_def\<close>)
  ultimately show ?thesis using assms
    by (auto simp: session_ok_def control_ok_def handle_configure_def Let_def split: option.splits)
qed

lemma suggest_ok:
  assumes "vd_cfg_ok (c_vardiff cfg)" "session_ok env cfg s"
  shows "\<exists>r s'. handle_suggest_difficulty env mo req params s = Some (r, s') \<and> session_ok env cfg s'"
proof -
  obtain c vd where c: "suggest (se_vardiff s) (sg_difficulty params) (mo_inst mo) = Some (c, vd)" "vd_inv (c_vardiff cfg) vd"
    "vc_min_difficulty (c_vardiff cfg) \<le> c" "c \<le> vc_max_difficulty (c_vardiff cfg)" "vd_current vd = c"
    using suggest_bounds [OF _ assms(1)] assms(2) unfolding session_ok_def control_ok_def by metis
  have "bound_ok env (s\<lparr>se_vardiff := vd, se_difficulty := c\<rparr>)"
    by (rule bound_ok_view [of _ s]) (use assms(2) in \<open>simp_all add: session_ok_def bound_view_def\<close>)
  then show ?thesis using assms(2) c by (auto simp: handle_suggest_difficulty_def session_ok_def control_ok_def)
qed

lemma retarget_ok:
  assumes "exp_ok (ev_exp env)" "vd_cfg_ok (c_vardiff cfg)" "session_ok env cfg s"
  shows "\<exists>msgs s' p'. apply_retarget env mo (s, p) = Some (msgs, s', p') \<and> session_ok env cfg s'"
proof -
  let ?c = "c_vardiff cfg"
  have inv: "vd_inv ?c (se_vardiff s)" using assms(3) by (simp add: session_ok_def control_ok_def)
  obtain sent vd where c: "check_retarget (ev_exp env) (se_vardiff s) (mo_retarget mo) (network_difficulty env s) = Some (sent, vd)"
    "vd_inv ?c vd" "\<forall>d. sent = Some d \<longrightarrow> vc_min_difficulty ?c \<le> d \<and> d \<le> retarget_ceiling ?c (network_difficulty env s) \<and> vd_current vd = d"
    using check_retarget_bounds [OF assms(1) inv assms(2)] by blast
  have b: "bound_ok env (s\<lparr>se_vardiff := vd, se_difficulty := d\<rparr>)" "bound_ok env (s\<lparr>se_vardiff := vd\<rparr>)" for d
    by (rule bound_ok_view [of _ s]; use assms(3) in \<open>simp add: session_ok_def bound_view_def\<close>)+
  show ?thesis
  proof (cases sent)
    case None
    then show ?thesis using c b assms(3) check_retarget_None [of "ev_exp env" "se_vardiff s"]
      by (auto simp: apply_retarget_def session_ok_def control_ok_def)
  next
    case (Some d)
    then have "d \<le> vc_max_difficulty ?c" using c(3) retarget_ceiling_bounds(2) [OF assms(2), of "network_difficulty env s"] by (auto intro: order_trans)
    then show ?thesis using c b assms(3) Some by (auto simp: apply_retarget_def session_ok_def control_ok_def)
  qed
qed

section \<open>Reachable sessions\<close>

text \<open>What is assumed of the library code and of the configuration.\<close>

definition sound_env :: "('a, 'c, 'v, 'w) env \<Rightarrow> config \<Rightarrow> bool" where
  "sound_env env cfg \<longleftrightarrow> exp_ok (ev_exp env) \<and> address_ok (ev_address env) \<and> vd_cfg_ok (c_vardiff cfg)"

lemma sound_envD:
  assumes "sound_env env cfg"
  shows "exp_ok (ev_exp env)" "address_ok (ev_address env)" "vd_cfg_ok (c_vardiff cfg)"
  using assms by (simp_all add: sound_env_def)

lemma message_ok:
  assumes sound: "sound_env env cfg" and ok: "session_ok env cfg s"
  shows "\<exists>r s' p'. handle_message env mo req msg (s, p) = Some (r, s', p') \<and> session_ok env cfg s'"
proof (cases msg)
  case (Subscribe x)
  have "bound_ok env (s\<lparr>se_subscribed := True, se_user_agent := u\<rparr>)" for u
    using ok by (auto simp: session_ok_def bound_ok_def)
  then show ?thesis using ok Subscribe by (simp add: handle_message_def handle_subscribe_def session_ok_def control_ok_def)
next
  case (Authorize x)
  then show ?thesis using authorize_ok [OF sound_envD(2) [OF sound] ok, of mo req x p]
    by (cases "handle_authorize env mo req x (s, p)") (simp add: handle_message_def)
next
  case (Submit x)
  then show ?thesis using submit_ok [OF sound_envD(1) [OF sound] ok, of mo req x p]
    by (cases "handle_submit env mo req x (s, p)") (simp add: handle_message_def)
next
  case (Configure x)
  then show ?thesis using configure_ok [OF ok, of req x]
    by (cases "handle_configure env req x s") (simp add: handle_message_def)
next
  case (SuggestDifficulty x)
  then show ?thesis using suggest_ok [OF sound_envD(3) [OF sound] ok, of mo req x] by (auto simp: handle_message_def)
qed (use ok in \<open>simp_all add: handle_message_def\<close>)

lemma line_ok:
  assumes sound: "sound_env env cfg" and ok: "session_ok env cfg s"
  shows "\<exists>r s' p'. handle_line env mo line (s, p) = Some (r, s', p') \<and> session_ok env cfg s'"
proof -
  obtain b bucket where t: "try_consume (sg_share_rate (se_guard s)) (mo_bucket1 mo) (mo_bucket2 mo) = (b, bucket)" by (metis surj_pair)
  let ?s = "s\<lparr>se_guard := (se_guard s)\<lparr>sg_share_rate := bucket\<rparr>\<rparr>"
  have "bound_ok env ?s" by (rule bound_ok_view [of _ s]) (use ok in \<open>simp_all add: session_ok_def bound_view_def\<close>)
  then have s: "session_ok env cfg ?s" using ok by (simp add: session_ok_def control_ok_def)
  show ?thesis
    using s message_ok [OF sound s] unfolding handle_line_def prod.case t Let_def by (simp split: sum.splits)
qed

lemma round_ok:
  assumes sound: "sound_env env cfg" and ok: "session_ok env cfg s"
  shows "\<exists>msgs' go s' p'. finish_round env mo sent1 sent2 msgs (s, p) = Some (msgs', go, s', p') \<and> session_ok env cfg s'"
proof -
  obtain m s' p' where r: "apply_retarget env mo (s, p) = Some (m, s', p')" "session_ok env cfg s'"
    using retarget_ok [OF sound_envD(1,3) [OF sound] ok] by blast
  show ?thesis using ok r by (cases m) (auto simp: finish_round_def)
qed

lemma push_ok:
  assumes sound: "sound_env env cfg" and ok: "session_ok env cfg s"
  shows "\<exists>m s' p'. push_job env mo template clean (s, p) = (m, s', p') \<and> session_ok env cfg s'"
proof -
  define u where "u = (if clean then s\<lparr>se_share_set := share_clear (se_share_set s)\<rparr> else s)"
  have "bound_ok env u" unfolding u_def
    by (rule bound_ok_view [of _ s]) (use ok in \<open>simp_all add: session_ok_def bound_view_def\<close>)
  then have u: "session_ok env cfg u"
    using ok share_set_inv_clear by (simp add: u_def session_ok_def control_ok_def)
  have t: "session_ok env cfg (u\<lparr>se_current_template := Some template\<rparr>)"
    using u bound_ok_view [of "u\<lparr>se_current_template := Some template\<rparr>" u env]
    by (simp add: session_ok_def control_ok_def bound_view_def)
  obtain r counter where m: "materialize_job env u template (pl_job_counter p) = (r, counter)" by (metis surj_pair)
  have f: "u\<lparr>se_issued_jobs := x, se_current_template := y\<rparr> = u\<lparr>se_current_template := y, se_issued_jobs := x\<rparr>" for x y by simp
  show ?thesis
    using u t m issue_ok [OF u] unfolding push_job_def prod.case Let_def u_def [symmetric] f
    by (cases r) auto
qed

lemma step_ok:
  assumes sound: "sound_env env cfg" and ok: "session_ok env cfg s"
  shows "\<exists>out go s' p'. session_step env mo sent1 sent2 event (s, p) = Some (out, go, s', p') \<and> session_ok env cfg s'"
proof (cases event)
  case (LineIn line)
  obtain r s' p' where l: "handle_line env mo line (s, p) = Some (r, s', p')" "session_ok env cfg s'" using line_ok [OF sound ok] by blast
  show ?thesis using l LineIn round_ok [OF sound l(2)] by (cases r) (auto simp: session_step_def)
next
  case (JobIn template clean)
  obtain m s' p' where l: "push_job env mo template clean (s, p) = (m, s', p')" "session_ok env cfg s'" using push_ok [OF sound ok] by blast
  show ?thesis using l JobIn round_ok [OF sound l(2)] by (cases m) (auto simp: session_step_def)
next
  case JobsMissed
  then show ?thesis using round_ok [OF sound ok] by (simp add: session_step_def)
qed (use ok in \<open>auto simp: session_step_def\<close>)

text \<open>
  Between two events of a session the rest of the pool may change what they share in any way, so
  every step starts from any pool.
\<close>

inductive session_reach :: "('a, 'c, 'v, 'w) env \<Rightarrow> config \<Rightarrow> session \<Rightarrow> bool" for env cfg where
  start: "session_start peer cfg network random_u64 counter t (p :: ('c, 'w) pool) = (Some (s, p'), counter')
    \<Longrightarrow> session_reach env cfg s"
| step: "session_reach env cfg s \<Longrightarrow> session_step env mo sent1 sent2 event (s, p) = Some (out, True, s', p')
    \<Longrightarrow> session_reach env cfg s'"

lemma start_ok:
  assumes "vd_cfg_ok (c_vardiff cfg)" "session_start peer cfg network random_u64 counter t p = (Some (s, p'), counter')"
  shows "session_ok env cfg s"
proof -
  have "share_set_inv share_set_new" by (simp add: share_set_inv_def share_set_new_def)
  moreover have "vd_current (vardiff_new c d now) = d" for c d now by (simp add: vardiff_new_def Let_def)
  ultimately have n: "session_ok env cfg (session_new peer cfg e network r t1 t2 t3 t4)" for e r t1 t2 t3 t4
    using vd_inv_new [OF assms(1)]
    by (simp add: session_ok_def bound_ok_def control_ok_def session_new_def Let_def issued_new_def)
  have "session_ok env cfg (u\<lparr>se_current_template := x\<rparr>) = session_ok env cfg u" for u x
    by (simp add: session_ok_def bound_ok_def control_ok_def)
  then show ?thesis using assms(2) n
    by (auto simp: session_start_def Let_def split: prod.splits bool.splits option.splits)
qed

lemma reach_ok:
  assumes "sound_env env cfg" "session_reach env cfg s"
  shows "session_ok env cfg s"
  using assms(2)
proof induction
  case (start peer network random_u64 counter t p s p' counter')
  from start_ok [OF sound_envD(3) [OF assms(1)] start] show ?case .
next
  case (step s mo sent1 sent2 event p out s' p')
  then show ?case using step_ok [OF assms(1) step.IH, of mo sent1 sent2 event p] by auto
qed

text \<open>
  C2: A Stratum V1 session pays the identity it is bound to, whatever the miner sends and whatever
  the rest of the pool does between two events.  No event makes the session panic; every job it
  holds, up to sixteen, was built for the payout of the identity that is authorized now; its
  difficulty is the initial one or within the configured range; the version bits it lets a miner
  roll are within the general mask.
\<close>

theorem session_pays_identity:
  assumes "sound_env env cfg" "session_reach env cfg s"
  shows "session_step env mo sent1 sent2 event (s, p) \<noteq> None
    \<and> (\<forall>e \<in> set (ij_entries (se_issued_jobs s)). \<exists>i counter template tag e1 e2. se_authorized s \<and> se_identity s = Some i
         \<and> fst (build_job_for_payout (ev_crates env) (ev_epoch env) counter template (mi_payout i) tag e1 e2) = Inr (je_job e)
         \<and> sj_payout_address (je_job e) = pd_address (mi_payout i))
    \<and> length (ij_entries (se_issued_jobs s)) \<le> 16
    \<and> (se_difficulty s = pc_initial_difficulty (c_pool cfg)
       \<or> vc_min_difficulty (c_vardiff cfg) \<le> se_difficulty s \<and> se_difficulty s \<le> vc_max_difficulty (c_vardiff cfg))
    \<and> and (se_version_rolling_mask s) (not VERSION_ROLLING_MASK) = 0"
proof -
  have ok: "session_ok env cfg s" by (rule reach_ok [OF assms])
  have addr: "sj_payout_address job = pd_address payout"
    if "fst (build_job_for_payout cr ep c t payout tag e1 e2) = Inr job" for cr ep c t payout tag e1 e2 job
    using that by (auto simp: build_job_for_payout_def bind_res_Inr Let_def split: prod.splits)
  have "\<exists>i counter template tag e1 e2. se_authorized s \<and> se_identity s = Some i
      \<and> fst (build_job_for_payout (ev_crates env) (ev_epoch env) counter template (mi_payout i) tag e1 e2) = Inr (je_job e)
      \<and> sj_payout_address (je_job e) = pd_address (mi_payout i)" if "e \<in> set (ij_entries (se_issued_jobs s))" for e
  proof -
    have "\<exists>i. se_identity s = Some i \<and> job_pays env (mi_payout i) (je_job e)" "se_authorized s = (se_identity s \<noteq> None)"
      using ok that unfolding session_ok_def bound_ok_def by simp_all
    then obtain i where i: "se_identity s = Some i" "job_pays env (mi_payout i) (je_job e)" "se_authorized s" by auto
    from i(2) obtain c t tag e1 e2 where
      "fst (build_job_for_payout (ev_crates env) (ev_epoch env) c t (mi_payout i) tag e1 e2) = Inr (je_job e)"
      unfolding job_pays_def by blast
    with addr [OF this] i(1,3) show ?thesis by (intro exI conjI)
  qed
  moreover have "session_step env mo sent1 sent2 event (s, p) \<noteq> None" using step_ok [OF assms(1) ok, of mo sent1 sent2 event p] by auto
  moreover have "length (ij_entries (se_issued_jobs s)) \<le> 16" "and (se_version_rolling_mask s) (not VERSION_ROLLING_MASK) = 0"
    "se_difficulty s = pc_initial_difficulty (c_pool cfg)
       \<or> vc_min_difficulty (c_vardiff cfg) \<le> se_difficulty s \<and> se_difficulty s \<le> vc_max_difficulty (c_vardiff cfg)"
    using ok by (simp_all add: session_ok_def control_ok_def bound_ok_def JOB_HISTORY_DEPTH_def)
  ultimately show ?thesis by blast
qed

lemma reject_counts:
  "se_shares_accepted (fst (snd (reject_share mo reason (s, p)))) = se_shares_accepted s
     \<and> se_shares_rejected (fst (snd (reject_share mo reason (s, p)))) = se_shares_rejected s + 1
     \<and> se_share_set (fst (snd (reject_share mo reason (s, p)))) = se_share_set s
     \<and> pl_node (snd (snd (reject_share mo reason (s, p)))) = pl_node p
     \<and> pl_resubmits (snd (snd (reject_share mo reason (s, p)))) = pl_resubmits p"
  by (simp add: reject_share_def Let_def case_prod_unfold)

lemma accept_counts:
  assumes "session_ok env cfg s" "t = fst (accept_share env mo worker dif jd (noted params s, q))" "se_authorized s"
    and "se_worker s = Some (su_worker params)" "find_job (se_issued_jobs s) (su_job_id params) = Some entry"
    and "\<not> share_contains (se_share_set s) (share_key_of params)"
  shows "se_shares_accepted t = se_shares_accepted s + 1 \<and> se_shares_rejected t = se_shares_rejected s
    \<and> (\<forall>mo' req' p2. handle_submit env mo' req' params (t, p2) = reject_with env mo' req' RDuplicate DuplicateShare (t, p2))"
proof -
  have f: "se_authorized t = se_authorized s" "se_worker t = se_worker s" "se_issued_jobs t = se_issued_jobs s"
    "se_share_set t = share_insert (se_share_set s) (share_key_of params)"
    "se_shares_accepted t = se_shares_accepted s + 1" "se_shares_rejected t = se_shares_rejected s"
    by (simp_all add: assms(2) accept_share_def noted_def Let_def case_prod_unfold)
  have "share_contains (se_share_set t) (share_key_of params)"
    using share_insert_order(1,2) [of "se_share_set s" "share_key_of params"] assms(1,6) f(4)
    by (simp add: share_contains_def session_ok_def control_ok_def)
  then show ?thesis using assms(3-5) f by (simp add: handle_submit_def Let_def)
qed

text \<open>
  C8: A share counts once.  A submission to a reachable session either is answered with success, was
  made under the authorized name and adds one to the accepted shares and nothing to the
  rejected, or is answered with an error or a disconnect, adds one to the rejected shares and
  nothing to the accepted, and leaves the duplicate filter and the node alone.  After a success
  the same submission is refused as a duplicate, whatever happened to the rest of the pool.
\<close>

theorem submit_counts_once:
  assumes "sound_env env cfg" "session_reach env cfg s" "handle_submit env mo req params (s, p) = (r, s', p')"
  shows "(r = Messages [ok_true env req] \<and> se_authorized s \<and> se_worker s = Some (su_worker params)
       \<and> se_shares_accepted s' = se_shares_accepted s + 1 \<and> se_shares_rejected s' = se_shares_rejected s
       \<and> (\<forall>mo' req' p2. handle_submit env mo' req' params (s', p2) = reject_with env mo' req' RDuplicate DuplicateShare (s', p2)))
    \<or> ((\<exists>e. r = err_msg env req e) \<or> r = Disconnect ''too many invalid shares'')
       \<and> se_shares_accepted s' = se_shares_accepted s \<and> se_shares_rejected s' = se_shares_rejected s + 1
       \<and> se_share_set s' = se_share_set s \<and> pl_node p' = pl_node p \<and> pl_resubmits p' = pl_resubmits p"
proof -
  have ok: "session_ok env cfg s" by (rule reach_ok [OF assms(1,2)])
  have r: "(r, s', p') = handle_submit env mo req params (s, p)" using assms(3) by simp
  show ?thesis
  proof (cases rule: submit_cases [of s params env mo req p])
    case unauthorized
    then show ?thesis using r reject_counts [of mo RUnauthorized s p] by (auto simp: prod_eq_iff)
  next
    case (rejected reason e)
    then show ?thesis using r reject_counts [of mo reason s p]
      by (cases "fst (reject_share mo reason (s, p))") (auto simp: reject_with_def Let_def case_prod_unfold prod_eq_iff)
  next
    case panic
    then show ?thesis using validate_total [OF ok] by blast
  next
    case (accepted worker entry dif)
    have t: "r = Messages [ok_true env req]" "s' = fst (accept_share env mo worker dif (je_difficulty entry) (noted params s, p))"
      using r accepted(6) by (metis prod.collapse prod.inject)+
    show ?thesis by (intro disjI1 conjI t(1) accepted(1,2)) (use accept_counts [OF ok t(2) accepted(1-4)] in simp_all)
  next
    case (block worker entry dif block_hex hash)
    have t: "r = Messages [ok_true env req]" "s' = fst (accept_share env mo worker dif (je_difficulty entry) (noted params s, p))"
      using r block(6) block_share_view [of env mo worker entry dif block_hex hash "noted params s" p p]
      by (metis prod.collapse prod.inject)+
    show ?thesis by (intro disjI1 conjI t(1) block(1,2)) (use accept_counts [OF ok t(2) block(1-4)] in simp_all)
  qed
qed

end
