(* ===== verification/Duplicates.thy ===== *)
theory Duplicates
  imports Payouts
begin

text \<open>
  A concrete session that holds a job and receives a valid share, and what the duplicate filter
  does with the same share under another version-bits parameter.
\<close>

declare of_nat_unat [simp del]

section \<open>A sample session\<close>

definition sample_requests :: "string \<Rightarrow> string + sample_json request" where
  "sample_requests line =
     (if line = ''S'' then Inr \<lparr> rq_id = SNull, rq_method = ''mining.subscribe'', rq_params = SNull \<rparr>
      else if line = ''A'' then Inr \<lparr> rq_id = SNull, rq_method = ''mining.authorize'', rq_params = SArr [SStr ''bc1q''] \<rparr>
      else Inl [])"

definition sample_env :: "(string, unit, sample_json, unit) env" where
  "sample_env = \<lparr> ev_crates = sample_crates, ev_address = sample_address\<lparr>a_script_pubkey := \<lambda>a. [0x51]\<rparr>,
     ev_node = \<lparr> n_call = \<lambda>c f xs w. (Inr SNull, w), n_best_block_hash = \<lambda>c w. (Inr [], w),
       n_header_confirmations = \<lambda>c h w. (Inr 100, w), n_block_count = \<lambda>c w. (Inr 900, w),
       n_block_hash = \<lambda>c n w. (Inr [], w), n_header_time = \<lambda>c h w. (Inr 0, w), n_parse_block_hash = \<lambda>s. Some [],
       n_read_cookie = \<lambda>w. None, n_build_client = \<lambda>k. Inr (), j_get = \<lambda>v k. None, j_as_str = \<lambda>v. None,
       j_as_u64 = \<lambda>v. None, j_as_array = \<lambda>v. None, j_is_null = \<lambda>v. True, j_string = SStr, j_gbt_request = SNull \<rparr>,
     ev_json = sample_values\<lparr>v_parse_request := sample_requests\<rparr>, ev_exp = exp_sample, ev_powf2 = (\<lambda>x. x), ev_epoch = 0 \<rparr>"

definition sample_pool :: "(unit, unit) pool" where
  "sample_pool = \<lparr> pl_stats = from_persisted (\<lambda>x. x) (\<lambda>x y. x) persisted_default 100 0, pl_bans = ban_list_new 600,
     pl_node = (\<lparr> r_client = (), r_cookie = None \<rparr>, ()), pl_template = Some sample_template, pl_job_counter = 1,
     pl_resubmits = [] \<rparr>"

definition sample_moment :: moment where
  "sample_moment = \<lparr> mo_bucket1 = 0, mo_bucket2 = 0, mo_ban = 0, mo_inst = 0, mo_meter = 0, mo_wall = Some 1700000000,
     mo_ts = (\<lambda>_. 100), mo_retarget = 0, mo_retarget_ts = 100 \<rparr>"

definition small_config :: config where
  "small_config = sample_config\<lparr>c_pool := (c_pool sample_config)\<lparr>pc_coinbase_tag := ''/p/''\<rparr>,
     c_vardiff := (c_vardiff sample_config)\<lparr>vc_min_difficulty := 1\<rparr>\<rparr>"

lemma sample_env_sound: "sound_env sample_env small_config"
proof -
  have "address_ok (sample_address\<lparr>a_script_pubkey := f\<rparr>)" for f using sample_address_ok by (simp add: address_ok_def)
  moreover have "vd_cfg_ok (c_vardiff small_config)"
    by (simp add: vd_cfg_ok_def small_config_def sample_config_def validate_vardiff_def f_ge_def word_less_nat_alt)
  ultimately show ?thesis using exp_sample_ok by (simp add: sound_env_def sample_env_def)
qed

text \<open>A handled line of a session that has submitted nothing yet goes on to the next round.\<close>

lemma quiet_step:
  assumes "try_consume (sg_share_rate (se_guard s)) (mo_bucket1 mo) (mo_bucket2 mo) = (True, bucket)" "trim line \<noteq> []"
    and "request_parse (ev_json env) line = Inr req" "from_request (ev_crates env) (ev_json env) req = Inr msg"
    and "handle_message env mo req msg (s\<lparr>se_guard := (se_guard s)\<lparr>sg_share_rate := bucket\<rparr>\<rparr>, p) = Some (Messages ms, s1, p1)"
    and "vd_first_share (se_vardiff s1) = None"
  shows "session_step env mo True True (LineIn line) (s, p) =
    Some (ms, True, s1\<lparr>se_vardiff := vd_decay (ev_exp env) (se_vardiff s1) (Fin 0) (mo_retarget mo)\<rparr>, p1)"
proof -
  have "check_retarget ex vd now net = Some (None, vd_decay ex vd (Fin 0) now)" if "vd_first_share vd = None" for ex vd now net
    using that by (simp add: check_retarget_def vd_decay_def Let_def)
  then show ?thesis using assms
    by (simp add: session_step_def handle_line_def finish_round_def apply_retarget_def Let_def)
qed

lemma f64_small: "f64_of 0 = Fin 0" "f64_of 8 = Fin 8" "f64_of 9 = Fin 9" "f64_of 10 = Fin 10"
  using f64_of_nat_exact [of 0] f64_of_nat_exact [of 8] f64_of_nat_exact [of 9] f64_of_nat_exact [of 10]
  by (simp_all add: f64_of_nat_def)

lemma sample_tokens:
  "try_consume \<lparr> tb_tokens = Fin 10, tb_max_per_sec = Fin 10, tb_last_refill = 0 \<rparr> 0 0 =
     (True, \<lparr> tb_tokens = Fin 9, tb_max_per_sec = Fin 10, tb_last_refill = 0 \<rparr>)"
  "try_consume \<lparr> tb_tokens = Fin 9, tb_max_per_sec = Fin 10, tb_last_refill = 0 \<rparr> 0 0 =
     (True, \<lparr> tb_tokens = Fin 8, tb_max_per_sec = Fin 10, tb_last_refill = 0 \<rparr>)"
  by (simp_all add: try_consume_def Let_def as_secs_f64_def f64_of_nat_def f64_small f_min_def f_le_def f_sub_def)

definition sample_identity :: miner_identity where
  "sample_identity = \<lparr> mi_full_name = ''bc1q'', mi_canonical_name = ''bc1q'',
     mi_payout = sample_payout, mi_worker_label = None \<rparr>"

lemma sample_name_ok: "validate_worker_name ''bc1q'' 128 = Inr ()"
  by (simp add: worker_name_ok chars_def utf8_tail_def is_control_def is_whitespace_def)

lemma sample_identity_parse: "identity_parse (ev_address sample_env) ''bc1q'' Bitcoin 128 = Inr sample_identity"
proof -
  have low: "map ascii_lower ''bc1q'' = ''bc1q''" by code_simp
  show ?thesis using sample_name_ok
    by (simp add: sample_env_def sample_address_def sample_identity_def sample_payout_def identity_parse_def
        validate_identity_text_def low Let_def del: list.map)
qed

lemma sample_lines:
  "trim ''S'' \<noteq> []" "trim ''A'' \<noteq> []"
  "request_parse (ev_json sample_env) ''S'' = Inr \<lparr> rq_id = SNull, rq_method = ''mining.subscribe'', rq_params = SNull \<rparr>"
  "request_parse (ev_json sample_env) ''A'' = Inr \<lparr> rq_id = SNull, rq_method = ''mining.authorize'', rq_params = SArr [SStr ''bc1q''] \<rparr>"
  by (simp_all add: trim_def utf8_tail_def is_whitespace_def request_parse_def sample_env_def sample_requests_def)

lemma sample_messages:
  "from_request (ev_crates sample_env) (ev_json sample_env) \<lparr> rq_id = SNull, rq_method = ''mining.subscribe'', rq_params = SNull \<rparr>
     = Inr (Subscribe \<lparr> sub_user_agent = None, sub_session_id = None \<rparr>)"
  "from_request (ev_crates sample_env) (ev_json sample_env) \<lparr> rq_id = SNull, rq_method = ''mining.authorize'', rq_params = SArr [SStr ''bc1q''] \<rparr>
     = Inr (Authorize \<lparr> au_worker = ''bc1q'', au_password = None \<rparr>)"
  by (simp_all add: sample_env_def from_request_def subscribe_parse_def opt_str_def sample_values_def authorize_parse_def
      get_at_def ok_or_def)

text \<open>The fields the two steps read.\<close>

definition fresh_session :: "rat \<Rightarrow> session \<Rightarrow> bool" where
  "fresh_session tokens s \<longleftrightarrow> session_reach sample_env small_config s
     \<and> sg_share_rate (se_guard s) = \<lparr> tb_tokens = Fin tokens, tb_max_per_sec = Fin 10, tb_last_refill = 0 \<rparr>
     \<and> sg_max_worker_name_len (se_guard s) = 128 \<and> sg_max_authorizations (se_guard s) = 8 \<and> sg_authorizations (se_guard s) = 0
     \<and> se_network s = Bitcoin \<and> se_current_template s = Some sample_template \<and> se_coinbase_tag s = ''/p/''
     \<and> se_extranonce1 s = [1, 2, 3, 4] \<and> se_extranonce2_size s = 4 \<and> \<not> se_version_rolling_enabled s
     \<and> vd_first_share (se_vardiff s) = None \<and> se_difficulty s = 1024 \<and> vc_min_difficulty (se_vardiff_cfg s) = 1
     \<and> se_identity s = None \<and> ij_entries (se_issued_jobs s) = [] \<and> ss_seen (se_share_set s) = {}"

lemma sample_start:
  obtains s where "fresh_session 10 s"
proof -
  define s0 where "s0 = (session_new (V4 1) small_config [1, 2, 3, 4] Bitcoin 7 0 0 0 0)\<lparr>se_current_template := Some sample_template\<rparr>"
  define p0 where "p0 = sample_pool\<lparr>pl_stats := miner_connected (pl_stats sample_pool)\<rparr>"
  have "generate_extranonce1 4 0x01020304 = ([1, 2, 3, 4], 0x01020305)"
    by (simp add: generate_extranonce1_def Let_def to_be_def to_le_numeral)
  then have "session_start (V4 1) small_config Bitcoin 7 0x01020304 (\<lambda>_. 0) sample_pool = (Some (s0, p0), 0x01020305)"
    by (simp add: session_start_def sample_pool_def is_banned_def ban_list_new_def s0_def p0_def small_config_def sample_config_def Let_def)
  from session_reach.start [OF this] have r0: "session_reach sample_env small_config s0" .
  have "sg_share_rate (se_guard s0) = \<lparr> tb_tokens = Fin 10, tb_max_per_sec = Fin 10, tb_last_refill = 0 \<rparr>"
    using f64_of_nat_exact [of 10]
    by (simp add: s0_def session_new_def session_guard_new_def share_rate_new_def small_config_def sample_config_def Let_def f64_of_word_def)
  then have "fresh_session 10 s0"
    using r0 unfolding fresh_session_def
    by (simp add: s0_def session_new_def session_guard_new_def small_config_def sample_config_def Let_def vardiff_new_def
        issued_new_def share_set_new_def)
  then show thesis by (rule that)
qed

lemma sample_moment_fields [simp]: "mo_bucket1 sample_moment = 0" "mo_bucket2 sample_moment = 0" "mo_inst sample_moment = 0"
  "mo_wall sample_moment = Some 1700000000"
  by (simp_all add: sample_moment_def)

lemma vd_decay_first [simp]: "vd_first_share (vd_decay ex vd a now) = vd_first_share vd"
  by (simp add: vd_decay_def Let_def)

lemma sample_subscribed:
  obtains s where "fresh_session 9 s" "se_subscribed s"
proof -
  obtain s where s: "fresh_session 10 s" by (rule sample_start)
  let ?u = "s\<lparr>se_guard := (se_guard s)\<lparr>sg_share_rate := \<lparr> tb_tokens = Fin 9, tb_max_per_sec = Fin 10, tb_last_refill = 0 \<rparr>\<rparr>\<rparr>"
  let ?v = "?u\<lparr>se_subscribed := True, se_user_agent := None\<rparr>"
  obtain ms where h: "handle_message sample_env sample_moment \<lparr> rq_id = SNull, rq_method = ''mining.subscribe'', rq_params = SNull \<rparr>
      (Subscribe \<lparr> sub_user_agent = None, sub_session_id = None \<rparr>) (?u, sample_pool) = Some (Messages ms, ?v, sample_pool)"
    by (simp add: handle_message_def handle_subscribe_def)
  let ?w = "?v\<lparr>se_vardiff := vd_decay (ev_exp sample_env) (se_vardiff ?v) (Fin 0) (mo_retarget sample_moment)\<rparr>"
  have "session_step sample_env sample_moment True True (LineIn ''S'') (s, sample_pool) = Some (ms, True, ?w, sample_pool)"
    by (rule quiet_step [OF _ sample_lines(1,3) sample_messages(1) h])
      (use s sample_tokens(1) in \<open>simp_all add: fresh_session_def\<close>)
  then have "session_reach sample_env small_config ?w" using s session_reach.step by (auto simp: fresh_session_def)
  then have "fresh_session 9 ?w" using s by (simp add: fresh_session_def)
  then show thesis by (rule that) simp
qed

lemma sample_session:
  obtains s job where "session_reach sample_env small_config s" "sample_job = Inr job" "se_authorized s" "se_worker s = Some ''bc1q''"
    "\<not> se_version_rolling_enabled s"
    "find_job (se_issued_jobs s) (show_hex 16 1) =
       Some \<lparr> je_job = job, je_created_at = 0, je_superseded_by_clean = False, je_difficulty = 1024 \<rparr>"
    "se_extranonce1 s = [1, 2, 3, 4]" "ss_seen (se_share_set s) = {}" "vc_min_difficulty (se_vardiff_cfg s) = 1"
proof -
  obtain s where s: "fresh_session 9 s" "se_subscribed s" by (rule sample_subscribed)
  obtain job where job: "sample_job = Inr job" using sample_job_Inr by blast
  let ?u = "s\<lparr>se_guard := (se_guard s)\<lparr>sg_share_rate := \<lparr> tb_tokens = Fin 8, tb_max_per_sec = Fin 10, tb_last_refill = 0 \<rparr>\<rparr>\<rparr>"
  let ?req = "\<lparr> rq_id = SNull, rq_method = ''mining.authorize'', rq_params = SArr [SStr ''bc1q''] \<rparr>"
  have "fst (build_job_for_payout sample_crates 0 1 sample_template sample_payout ''/p/'' 4 4) = Inr job" using job by (simp add: sample_job_def)
  then obtain c where b: "build_job_for_payout sample_crates 0 1 sample_template sample_payout ''/p/'' 4 4 = (Inr job, c)" by (metis prod.collapse)
  obtain ms v p1 where h: "handle_message sample_env sample_moment ?req (Authorize \<lparr> au_worker = ''bc1q'', au_password = None \<rparr>) (?u, sample_pool)
      = Some (Messages ms, v, p1)" "se_authorized v" "se_worker v = Some ''bc1q''" "\<not> se_version_rolling_enabled v"
      "ij_entries (se_issued_jobs v) = [\<lparr> je_job = job, je_created_at = 0, je_superseded_by_clean = False, je_difficulty = 1024 \<rparr>]"
      "se_extranonce1 v = [1, 2, 3, 4]" "ss_seen (se_share_set v) = {}" "vc_min_difficulty (se_vardiff_cfg v) = 1"
      "vd_first_share (se_vardiff v) = None"
  proof (rule that)
    let ?n = "?u\<lparr>se_guard := (se_guard ?u)\<lparr>sg_authorizations := 1\<rparr>, se_worker := Some ''bc1q'', se_identity := Some sample_identity,
      se_issued_jobs := issue (issued_clear (se_issued_jobs s)) job True 1024 0, se_share_set := share_clear (se_share_set s),
      se_authorized := True, se_current_template := Some sample_template\<rparr>"
    let ?q = "sample_pool\<lparr>pl_stats := set_worker_protocol ''bc1q'' ''sv1'' (mark_worker_online ''bc1q'' 1024 (mo_ts sample_moment 0)
      (pl_stats sample_pool)), pl_job_counter := c\<rparr>"
    let ?m = "[ok_true sample_env ?req, resp_set_difficulty (ev_json sample_env) 1024, build_notify sample_env job True]"
    have four: "Suc (Suc (Suc (Suc 0))) = 4" by simp
    have env: "ev_crates sample_env = sample_crates" "ev_epoch sample_env = 0" by (simp_all add: sample_env_def)
    show "handle_message sample_env sample_moment ?req (Authorize \<lparr> au_worker = ''bc1q'', au_password = None \<rparr>) (?u, sample_pool)
        = Some (Messages ?m, ?n, ?q)"
      using s sample_name_ok b
      by (simp add: handle_message_def handle_authorize_def check_worker_name_def fresh_session_def sample_identity_parse switch_identity_def
          stats_worker_def sample_identity_def record_new_authorization_def first_job_def materialize_job_def env four Let_def
          sample_pool_def)
    show "se_authorized ?n" "se_worker ?n = Some ''bc1q''" "\<not> se_version_rolling_enabled ?n"
      "ij_entries (se_issued_jobs ?n) = [\<lparr> je_job = job, je_created_at = 0, je_superseded_by_clean = False, je_difficulty = 1024 \<rparr>]"
      "se_extranonce1 ?n = [1, 2, 3, 4]" "ss_seen (se_share_set ?n) = {}" "vc_min_difficulty (se_vardiff_cfg ?n) = 1"
      "vd_first_share (se_vardiff ?n) = None"
      using s by (simp_all add: fresh_session_def issue_def issued_clear_def JOB_HISTORY_DEPTH_def share_clear_def)
  qed
  let ?w = "v\<lparr>se_vardiff := vd_decay (ev_exp sample_env) (se_vardiff v) (Fin 0) (mo_retarget sample_moment)\<rparr>"
  have "session_step sample_env sample_moment True True (LineIn ''A'') (s, sample_pool) = Some (ms, True, ?w, p1)"
    by (rule quiet_step [OF _ sample_lines(2,4) sample_messages(2) h(1,9)])
      (use s sample_tokens(2) in \<open>simp add: fresh_session_def\<close>)
  then have "session_reach sample_env small_config ?w" using s session_reach.step by (auto simp: fresh_session_def)
  then show thesis by (rule that [OF _ job]) (use h sample_job_fields(10) [OF job] in \<open>simp_all add: find_job_def\<close>)
qed

section \<open>The sample share\<close>

definition sample_submit :: submit_params where
  "sample_submit = \<lparr> su_worker = ''bc1q'', su_job_id = show_hex 16 1, su_extranonce2 = [5, 6, 7, 8], su_ntime = 1700000001,
     su_nonce = 9, su_version_bits = None \<rparr>"

lemma accepted_fields:
  fixes s :: session
  assumes "t = fst (accept_share env mo worker dif jd (noted params s, q))"
  shows "se_authorized t = se_authorized s" "se_worker t = se_worker s" "se_issued_jobs t = se_issued_jobs s"
    "se_share_set t = share_insert (se_share_set s) (share_key_of params)" "se_shares_accepted t = se_shares_accepted s + 1"
    "se_extranonce1 t = se_extranonce1 s" "se_vardiff_cfg t = se_vardiff_cfg s"
    "se_version_rolling_enabled t = se_version_rolling_enabled s"
  by (simp_all add: assms accept_share_def noted_def Let_def case_prod_unfold)

text \<open>A submission that passes every check is accepted.\<close>

lemma submit_passes:
  assumes "se_authorized s" "se_worker s = Some (su_worker params)" "find_job (se_issued_jobs s) (su_job_id params) = Some entry"
    and "\<not> share_contains (se_share_set s) (share_key_of params)"
    and v: "validate_share_no_dedup (ev_crates env) (mo_wall mo) (share_params_of s params) (je_job entry) entry
         (se_extranonce1 s) (vc_min_difficulty (se_vardiff_cfg s)) = Some (Inr res)"
  obtains t p1 where "handle_submit env mo req params (s, p) = (Messages [ok_true env req], t, p1)"
    "se_shares_accepted t = se_shares_accepted s + 1"
proof (cases res)
  case (Valid x dif h)
  let ?r = "accept_share env mo (case stats_worker s of Some w \<Rightarrow> w | None \<Rightarrow> su_worker params) dif (je_difficulty entry) (noted params s, p)"
  have "handle_submit env mo req params (s, p) = (Messages [ok_true env req], ?r)"
    using assms Valid by (simp add: handle_submit_def noted_def Let_def)
  then show thesis by (intro that [of "fst ?r" "snd ?r"]) (simp_all add: accepted_fields [OF refl])
next
  case (Block dif bh h)
  let ?r = "submit_block_share env mo (case stats_worker s of Some w \<Rightarrow> w | None \<Rightarrow> su_worker params) entry dif bh h (noted params s, p)"
  have "handle_submit env mo req params (s, p) = (Messages [ok_true env req], ?r)"
    using assms Block by (simp add: handle_submit_def noted_def Let_def)
  then have "handle_submit env mo req params (s, p) = (Messages [ok_true env req], fst ?r, snd ?r)" by simp
  then show thesis by (rule that) (simp add: accepted_fields [OF refl] block_share_view [where q = p])
qed

text \<open>Conversely, one that is counted passed every check.\<close>

lemma submit_accepted:
  assumes ok: "session_ok env cfg s"
    and h: "handle_submit env mo req params (s, p) = (r, s', p')" "se_shares_accepted s' = se_shares_accepted s + 1"
  obtains entry res worker dif q where "se_authorized s" "se_worker s = Some (su_worker params)"
    "find_job (se_issued_jobs s) (su_job_id params) = Some entry"
    "validate_share_no_dedup (ev_crates env) (mo_wall mo) (share_params_of s params) (je_job entry) entry
         (se_extranonce1 s) (vc_min_difficulty (se_vardiff_cfg s)) = Some (Inr res)"
    "s' = fst (accept_share env mo worker dif (je_difficulty entry) (noted params s, q))"
proof -
  have rejected: "handle_submit env mo req params (s, p) \<noteq> reject_with env mo req reason e (s, p)" for reason e
    using h reject_counts [of mo reason s p] by (auto simp: reject_with_def Let_def case_prod_unfold prod_eq_iff)
  have v: "\<exists>res. validate_share_no_dedup (ev_crates env) (mo_wall mo) (share_params_of s params) (je_job entry) entry
         (se_extranonce1 s) (vc_min_difficulty (se_vardiff_cfg s)) = Some (Inr res)"
    if a: "se_authorized s" "se_worker s = Some (su_worker params)" "find_job (se_issued_jobs s) (su_job_id params) = Some entry"
      "\<not> share_contains (se_share_set s) (share_key_of params)" for entry
  proof (rule ccontr)
    assume "\<not> ?thesis"
    then obtain e where "validate_share_no_dedup (ev_crates env) (mo_wall mo) (share_params_of s params) (je_job entry) entry
         (se_extranonce1 s) (vc_min_difficulty (se_vardiff_cfg s)) = Some (Inl e)"
      using validate_total [OF ok a(3)] by (metis option.exhaust old.sum.exhaust)
    then show False using a rejected [of "reason_from_error e" e] by (simp add: handle_submit_def Let_def)
  qed
  show thesis
  proof (cases rule: submit_cases [of s params env mo req p])
    case unauthorized
    then show thesis using h reject_counts [of mo RUnauthorized s p] by (auto simp: prod_eq_iff)
  next
    case rejected': (rejected reason e)
    then show thesis using rejected by blast
  next
    case panic
    then show thesis using validate_total [OF ok] by blast
  next
    case (accepted worker entry dif)
    then show thesis using that [OF accepted(1-3)] v [OF accepted(1-4)] h(1) by (metis fst_conv prod.inject prod.collapse)
  next
    case (block worker entry dif block_hex hash)
    then show thesis using that [OF block(1-3)] v [OF block(1-4)] h(1) block_share_view by (metis prod.inject prod.collapse)
  qed
qed

text \<open>
  C35: The duplicate filter reads the version bits of the request even in a session that did not
  negotiate version rolling, where they do not enter the header.  There, a share that was just
  accepted is accepted and credited a second time when it is sent again with any nonzero version
  bits, although it is the same header.
\<close>

theorem version_bits_replay:
  assumes "sound_env env cfg" "session_reach env cfg s" "\<not> se_version_rolling_enabled s"
    and "handle_submit env mo req params (s, p) = (r, s', p')" "se_shares_accepted s' = se_shares_accepted s + 1"
    and "su_version_bits params = None" "bits \<noteq> 0"
    and "\<not> share_contains (se_share_set s) (share_key_of (params\<lparr>su_version_bits := Some bits\<rparr>))"
  shows "\<exists>s'' p''. handle_submit env mo req (params\<lparr>su_version_bits := Some bits\<rparr>) (s', p') = (Messages [ok_true env req], s'', p'')
     \<and> se_shares_accepted s'' = se_shares_accepted s + 2"
proof -
  let ?again = "params\<lparr>su_version_bits := Some bits\<rparr>"
  obtain entry res worker dif q where a: "se_authorized s" "se_worker s = Some (su_worker params)"
    "find_job (se_issued_jobs s) (su_job_id params) = Some entry"
    "validate_share_no_dedup (ev_crates env) (mo_wall mo) (share_params_of s params) (je_job entry) entry
         (se_extranonce1 s) (vc_min_difficulty (se_vardiff_cfg s)) = Some (Inr res)"
    "s' = fst (accept_share env mo worker dif (je_difficulty entry) (noted params s, q))"
    by (rule submit_accepted [OF reach_ok [OF assms(1,2)] assms(4,5)])
  note f = accepted_fields [OF a(5)]
  have "share_params_of s' ?again = share_params_of s params" using assms(3) f(8) by (simp add: share_params_of_def)
  moreover have "share_key_of ?again \<noteq> share_key_of params" using assms(6,7) by (simp add: share_key_of_def)
  then have "\<not> share_contains (se_share_set s') (share_key_of ?again)"
    using assms(8) f(4) by (auto simp: share_contains_def share_insert_def Let_def split: list.splits if_splits)
  ultimately obtain t p1 where "handle_submit env mo req ?again (s', p') = (Messages [ok_true env req], t, p1)"
    "se_shares_accepted t = se_shares_accepted s' + 1"
    using submit_passes [of s' ?again entry env mo res req p'] a(1-4) f by auto
  then show ?thesis using assms(5) by auto
qed

section \<open>Witnesses\<close>

text \<open>The sample session accepts the sample share.\<close>

lemma sample_accepts:
  obtains s t p1 where "session_reach sample_env small_config s" "\<not> se_version_rolling_enabled s" "ss_seen (se_share_set s) = {}"
    "\<exists>e. e \<in> set (ij_entries (se_issued_jobs s))"
    "handle_submit sample_env sample_moment \<lparr> rq_id = SNull, rq_method = [], rq_params = SNull \<rparr> sample_submit (s, sample_pool)
       = (Messages [ok_true sample_env \<lparr> rq_id = SNull, rq_method = [], rq_params = SNull \<rparr>], t, p1)"
    "se_shares_accepted t = se_shares_accepted s + 1"
proof -
  obtain s job where s: "session_reach sample_env small_config s" "sample_job = Inr job" "se_authorized s" "se_worker s = Some ''bc1q''"
    "\<not> se_version_rolling_enabled s"
    "find_job (se_issued_jobs s) (show_hex 16 1) =
       Some \<lparr> je_job = job, je_created_at = 0, je_superseded_by_clean = False, je_difficulty = 1024 \<rparr>"
    "se_extranonce1 s = [1, 2, 3, 4]" "ss_seen (se_share_set s) = {}" "vc_min_difficulty (se_vardiff_cfg s) = 1"
    by (rule sample_session)
  let ?e = "\<lparr> je_job = job, je_created_at = 0, je_superseded_by_clean = False, je_difficulty = 1024 \<rparr>"
  obtain res where "validate_share_no_dedup sample_crates (Some 1700000000) sample_params job (sample_entry job) [1, 2, 3, 4] 1 = Some (Inr res)"
    using sample_share_accepted [OF s(2)] by blast
  then have v: "validate_share_no_dedup (ev_crates sample_env) (mo_wall sample_moment) (share_params_of s sample_submit) job ?e
      (se_extranonce1 s) (vc_min_difficulty (se_vardiff_cfg s)) = Some (Inr res)"
    using s(5,7,9) by (simp add: validate_share_no_dedup_def sample_entry_def share_params_of_def sample_submit_def sample_params_def
        sample_env_def)
  have f: "se_worker s = Some (su_worker sample_submit)" "find_job (se_issued_jobs s) (su_job_id sample_submit) = Some ?e"
    "\<not> share_contains (se_share_set s) (share_key_of sample_submit)"
    using s(4,6,8) by (simp_all add: sample_submit_def share_contains_def)
  have j: "\<exists>e. e \<in> set (ij_entries (se_issued_jobs s))" using s(6) by (auto simp: find_job_def find_Some_iff in_set_conv_nth)
  show thesis by (rule submit_passes [OF s(3) f, of sample_env sample_moment res]) (use v that [OF s(1,5,8) j] in \<open>simp_all, blast\<close>)
qed

theorem session_pays_identity_witness:
  "\<exists>s e. sound_env sample_env small_config \<and> session_reach sample_env small_config s
    \<and> e \<in> set (ij_entries (se_issued_jobs s)) \<and> se_authorized s"
proof -
  obtain s e where s: "session_reach sample_env small_config s" "e \<in> set (ij_entries (se_issued_jobs s))"
    by (rule sample_accepts) blast
  then show ?thesis using session_pays_identity [OF sample_env_sound s(1), of sample_moment True True InputEnds sample_pool]
      sample_env_sound by blast
qed

theorem submit_counts_once_witness:
  "\<exists>s t p1 r. sound_env sample_env small_config \<and> session_reach sample_env small_config s
    \<and> handle_submit sample_env sample_moment r sample_submit (s, sample_pool) = (Messages [ok_true sample_env r], t, p1)
    \<and> handle_submit sample_env sample_moment r sample_submit (t, p1) = reject_with sample_env sample_moment r RDuplicate DuplicateShare (t, p1)"
proof -
  let ?r = "\<lparr> rq_id = SNull, rq_method = [], rq_params = SNull \<rparr>"
  obtain s t p1 where s: "session_reach sample_env small_config s"
    "handle_submit sample_env sample_moment ?r sample_submit (s, sample_pool) = (Messages [ok_true sample_env ?r], t, p1)"
    "se_shares_accepted t = se_shares_accepted s + 1"
    by (rule sample_accepts) blast
  from submit_counts_once [OF sample_env_sound s(1,2)] s(3)
  have "handle_submit sample_env sample_moment ?r sample_submit (t, p1) =
      reject_with sample_env sample_moment ?r RDuplicate DuplicateShare (t, p1)" by auto
  then show ?thesis using sample_env_sound s(1,2) by blast
qed

theorem version_bits_replay_witness:
  "\<exists>s t u p1 p2 r. sound_env sample_env small_config \<and> session_reach sample_env small_config s
    \<and> handle_submit sample_env sample_moment r sample_submit (s, sample_pool) = (Messages [ok_true sample_env r], t, p1)
    \<and> handle_submit sample_env sample_moment r (sample_submit\<lparr>su_version_bits := Some 1\<rparr>) (t, p1) = (Messages [ok_true sample_env r], u, p2)
    \<and> se_shares_accepted u = se_shares_accepted s + 2"
proof -
  let ?r = "\<lparr> rq_id = SNull, rq_method = [], rq_params = SNull \<rparr>"
  obtain s t p1 where s: "session_reach sample_env small_config s" "\<not> se_version_rolling_enabled s" "ss_seen (se_share_set s) = {}"
    "handle_submit sample_env sample_moment ?r sample_submit (s, sample_pool) = (Messages [ok_true sample_env ?r], t, p1)"
    "se_shares_accepted t = se_shares_accepted s + 1"
    by (rule sample_accepts) blast
  have "su_version_bits sample_submit = None" by (simp add: sample_submit_def)
  from version_bits_replay [OF sample_env_sound s(1,2,4,5) this, of 1] s(3) obtain u p2 where
    "handle_submit sample_env sample_moment ?r (sample_submit\<lparr>su_version_bits := Some 1\<rparr>) (t, p1) = (Messages [ok_true sample_env ?r], u, p2)"
    "se_shares_accepted u = se_shares_accepted s + 2" by (auto simp: share_contains_def)
  then show ?thesis using sample_env_sound s(1,4) by blast
qed

end
