(* ===== verification/Device.thy ===== *)
theory Device
  imports Channel Duplicates
begin

text \<open>
  What a Stratum V2 session guarantees to the device behind it: its jobs pay the identity it opened the
  channel with, a protocol job number leads to the job announced under it, and the previous hash
  the device was told is the one its live jobs are checked with.
\<close>

declare of_nat_unat [simp del]

section \<open>Protocol job numbers\<close>

text \<open>The numbers count through all 32-bit values but zero.\<close>

definition number_of :: "nat \<Rightarrow> u32" where
  "number_of n = of_nat (n mod 4294967295) + 1"

lemma unat_number_of: "unat (number_of n) = n mod 4294967295 + 1"
proof -
  have "n mod 4294967295 < 4294967295" by simp
  then have "unat (of_nat (n mod 4294967295 + 1) :: u32) = n mod 4294967295 + 1" by (subst unat_of_nat) simp
  then show ?thesis by (simp add: number_of_def add.commute)
qed

lemma number_of_Suc: "number_of (Suc n) = (let i = number_of n + 1 in if i = 0 then 1 else i)"
proof (cases "Suc (n mod 4294967295) = 4294967295")
  case True
  then have "number_of n + 1 = 0" "number_of (Suc n) = 1" by (simp_all add: number_of_def mod_Suc)
  then show ?thesis by simp
next
  case False
  have "unat (of_nat (n mod 4294967295 + 2) :: u32) \<noteq> 0"
    by (subst unat_of_nat) (use False in simp)
  then have "number_of n + 1 \<noteq> 0" by (auto simp: number_of_def)
  then show ?thesis using False by (simp add: number_of_def mod_Suc)
qed

lemma number_of_inj:
  assumes "number_of i = number_of j" "i \<le> n" "j \<le> n" "n \<le> i + 16" "n \<le> j + 16"
  shows "i = j"
proof -
  have m: "i mod 4294967295 = j mod 4294967295" using unat_number_of [of i] unat_number_of [of j] assms(1) by simp
  have le: "a = b" if ab: "a \<le> b" "b \<le> a + 16" "a mod 4294967295 = b mod 4294967295" for a b :: nat
  proof -
    obtain q where "b = a + 4294967295 * q" using ab(1,3) by (metis mod_eq_nat1E)
    then show ?thesis using ab(2) by (cases q) auto
  qed
  show ?thesis using le [of i j] le [of j i] m assms(2-5) by (cases "i \<le> j") auto
qed

definition numbers_ok :: "sv2_session \<Rightarrow> bool" where
  "numbers_ok s \<longleftrightarrow> (\<exists>n. x2_next_job_id s = number_of n \<and> length (x2_job_ids s) \<le> n \<and> length (x2_job_ids s) \<le> 16
     \<and> map fst (x2_job_ids s) = map number_of [n - length (x2_job_ids s)..<n])"

lemma numbers_ok_assign:
  assumes "numbers_ok s"
  shows "numbers_ok (snd (assign_job_id jid s))"
proof -
  let ?k = "length (x2_job_ids s)"
  obtain n where n: "x2_next_job_id s = number_of n" "?k \<le> n" "?k \<le> 16" "map fst (x2_job_ids s) = map number_of [n - ?k..<n]"
    using assms by (auto simp: numbers_ok_def)
  let ?ids = "x2_job_ids s @ [(number_of n, jid)]"
  have m: "map fst ?ids = map number_of [n - ?k..<Suc n]" using n(2,4) by simp
  have "map fst (drop (Suc ?k - 16) ?ids) = map number_of [n - ?k + (Suc ?k - 16)..<Suc n]"
    by (simp only: drop_map [symmetric] m) (simp only: drop_map drop_upt)
  then show ?thesis using n
    by (auto simp: numbers_ok_def assign_job_id_def Let_def number_of_Suc intro!: exI [of _ "Suc n"])
qed

lemma numbers_distinct:
  assumes "numbers_ok s"
  shows "distinct (map fst (x2_job_ids s))"
proof -
  let ?k = "length (x2_job_ids s)"
  obtain n where n: "?k \<le> n" "?k \<le> 16" "map fst (x2_job_ids s) = map number_of [n - ?k..<n]"
    using assms by (auto simp: numbers_ok_def)
  have "inj_on number_of {n - ?k..<n}"
    by (rule inj_onI, rule number_of_inj [where n = n]) (use n(1,2) in auto)
  then show ?thesis using n(3) by (simp add: distinct_map)
qed

section \<open>The invariant\<close>

definition channel_ok :: "('a, 'c, 'v, 'w) env \<Rightarrow> sv2_session \<Rightarrow> bool" where
  "channel_ok env s \<longleftrightarrow> numbers_ok s
     \<and> map snd (x2_job_ids s) = map (\<lambda>e. sj_job_id (je_job e)) (ij_entries (x2_issued_jobs s))
     \<and> (x2_channel_open s \<longrightarrow> x2_setup_done s \<and> length (x2_extranonce_prefix s) + x2_extranonce_size s = x2_extranonce_total s)
     \<and> (\<not> x2_channel_open s \<longrightarrow> ij_entries (x2_issued_jobs s) = [])
     \<and> (\<forall>e \<in> set (ij_entries (x2_issued_jobs s)). \<exists>i counter template. x2_identity s = Some i
         \<and> fst (build_job_for_payout (ev_crates env) (ev_epoch env) counter template (mi_payout i) (x2_coinbase_tag s)
             (length (x2_extranonce_prefix s)) (x2_extranonce_size s)) = Inr (je_job e))"

definition driven_ok :: "config \<Rightarrow> sv2_session \<Rightarrow> bool" where
  "driven_ok cfg s \<longleftrightarrow> x2_vardiff_cfg s = c_vardiff cfg \<and> vd_inv (c_vardiff cfg) (x2_vardiff s)
     \<and> vd_current (x2_vardiff s) = x2_difficulty s
     \<and> (x2_difficulty s = pc_initial_difficulty (c_pool cfg)
        \<or> vc_min_difficulty (c_vardiff cfg) \<le> x2_difficulty s \<and> x2_difficulty s \<le> vc_max_difficulty (c_vardiff cfg))
     \<and> x2_extranonce_total s = pc_extranonce1_size (c_pool cfg) + pc_extranonce2_size (c_pool cfg)
     \<and> share_set_inv (x2_share_set s)"

definition sv2_ok :: "('a, 'c, 'v, 'w) env \<Rightarrow> config \<Rightarrow> sv2_session \<Rightarrow> bool" where
  "sv2_ok env cfg s \<longleftrightarrow> channel_ok env s \<and> driven_ok cfg s"

lemma share_set_irrelevant [simp]:
  "channel_ok env (s\<lparr>x2_share_set := x\<rparr>) = channel_ok env s" "channel_ok env (s\<lparr>x2_pending_template := y\<rparr>) = channel_ok env s"
  "driven_ok cfg (s\<lparr>x2_pending_template := y\<rparr>) = driven_ok cfg s" "channel_ok env (s\<lparr>x2_guard := g\<rparr>) = channel_ok env s"
  "driven_ok cfg (s\<lparr>x2_guard := g\<rparr>) = driven_ok cfg s" "channel_ok env (s\<lparr>x2_vardiff := vd\<rparr>) = channel_ok env s"
  "channel_ok env (s\<lparr>x2_vardiff := vd, x2_difficulty := d\<rparr>) = channel_ok env s"
  by (simp_all add: channel_ok_def driven_ok_def numbers_ok_def)

section \<open>Sending a job\<close>

text \<open>A job that went out: what was built, sent and remembered.\<close>

lemma send_job_sent:
  assumes "send_job env api mo template future (s, sh, w) = (True, s', sh', w')"
  obtains i job payload prevs where "x2_identity s = Some i"
    "fst (build_job_for_payout (ev_crates env) (ev_epoch env) (pl_job_counter (sh_pool sh)) template (mi_payout i) (x2_coinbase_tag s)
       (length (x2_extranonce_prefix s)) (x2_extranonce_size s)) = Inr job"
    "s' = (snd (assign_job_id (sj_job_id job) s))\<lparr>x2_issued_jobs := issue (x2_issued_jobs s) job future (x2_difficulty s) (mo_inst mo)\<rparr>"
    "wr_out w' = wr_out w @ (x_type api NewExtendedJobT, True, payload) # prevs"
    "if future then \<exists>ch n np p. build_set_new_prev_hash (ev_crates env) job ch n = Inr np \<and> encode api (NewPrevHash np) = Inr p
       \<and> prevs = [(x_type api NewPrevHashT, True, p)] else prevs = []"
proof -
  have sent: "wr_out (snd (wr_send ty c p v)) = wr_out v @ [(ty, c, p)]" if "fst (wr_send ty c p v)" for ty c p v
    using that by (auto simp: wr_send_def split: list.splits bool.splits)
  have keep: "x2_issued_jobs (snd (assign_job_id j s)) = x2_issued_jobs s" "x2_difficulty (snd (assign_job_id j s)) = x2_difficulty s" for j
    by (simp_all add: assign_job_id_def Let_def)
  note d = assms [unfolded send_job_def prod.case Let_def case_prod_unfold]
  obtain i job where i: "x2_identity s = Some i"
    "fst (build_job_for_payout (ev_crates env) (ev_epoch env) (pl_job_counter (sh_pool sh)) template (mi_payout i) (x2_coinbase_tag s)
       (length (x2_extranonce_prefix s)) (x2_extranonce_size s)) = Inr job"
    using d by (auto split: option.splits sum.splits)
  obtain nj payload where j: "build_new_extended_job api job (x2_channel_id (snd (assign_job_id (sj_job_id job) s)))
      (fst (assign_job_id (sj_job_id job) s)) future = Inr nj" "encode api (NewExtendedJob nj) = Inr payload"
    "fst (wr_send (x_type api NewExtendedJobT) True payload w)"
    using d i by (auto simp: bind_str_Inr split: sum.splits if_splits)
  show thesis
  proof (cases future)
    case False
    then have "s' = (snd (assign_job_id (sj_job_id job) s))\<lparr>x2_issued_jobs := issue (x2_issued_jobs s) job False (x2_difficulty s) (mo_inst mo)\<rparr>"
      "wr_out w' = wr_out w @ [(x_type api NewExtendedJobT, True, payload)]"
      using d i j by (auto simp: keep sent bind_str_def)
    then show thesis using that [OF i] False by simp
  next
    case True
    obtain np p where n: "build_set_new_prev_hash (ev_crates env) job (x2_channel_id (snd (assign_job_id (sj_job_id job) s)))
        (fst (assign_job_id (sj_job_id job) s)) = Inr np" "encode api (NewPrevHash np) = Inr p"
      "fst (wr_send (x_type api NewPrevHashT) True p (snd (wr_send (x_type api NewExtendedJobT) True payload w)))"
      using d i j True by (auto simp: bind_str_def split: sum.splits if_splits)
    have "s' = (snd (assign_job_id (sj_job_id job) s))\<lparr>x2_issued_jobs := issue (x2_issued_jobs s) job True (x2_difficulty s) (mo_inst mo)\<rparr>"
      "wr_out w' = wr_out w @ [(x_type api NewExtendedJobT, True, payload), (x_type api NewPrevHashT, True, p)]"
      using d i j n True by (auto simp: keep sent bind_str_def)
    then show thesis using that [OF i] n True by auto
  qed
qed

lemma send_job_pending:
  assumes "send_job env api mo template future (s, sh, w) = (True, s', sh', w')"
  shows "x2_pending_template s' = x2_pending_template s"
proof -
  obtain job where "s' = (snd (assign_job_id (sj_job_id job) s))\<lparr>x2_issued_jobs := issue (x2_issued_jobs s) job future (x2_difficulty s) (mo_inst mo)\<rparr>"
    using send_job_sent [OF assms] by metis
  then show ?thesis by (simp add: assign_job_id_def Let_def)
qed

lemma kept_window:
  assumes "length ids = length es" "length ids \<le> 16"
  shows "drop (Suc (length ids) - 16) (ids @ [x]) = (if 16 \<le> length es then tl ids else ids) @ [x]"
  using assms by (cases ids) (auto simp: drop_Cons')

lemma send_job_ok:
  assumes "send_job env api mo template future (s, sh, w) = (True, s', sh', w')" "sv2_ok env cfg s" "x2_channel_open s"
  shows "sv2_ok env cfg s'" "x2_channel_open s'"
proof -
  obtain i job where j: "x2_identity s = Some i"
    "fst (build_job_for_payout (ev_crates env) (ev_epoch env) (pl_job_counter (sh_pool sh)) template (mi_payout i) (x2_coinbase_tag s)
       (length (x2_extranonce_prefix s)) (x2_extranonce_size s)) = Inr job"
    "s' = (snd (assign_job_id (sj_job_id job) s))\<lparr>x2_issued_jobs := issue (x2_issued_jobs s) job future (x2_difficulty s) (mo_inst mo)\<rparr>"
    using send_job_sent [OF assms(1)] by metis
  let ?a = "snd (assign_job_id (sj_job_id job) s)" and ?es = "ij_entries (x2_issued_jobs s)"
  have f: "x2_setup_done ?a = x2_setup_done s" "x2_extranonce_prefix ?a = x2_extranonce_prefix s" "x2_extranonce_size ?a = x2_extranonce_size s"
    "x2_extranonce_total ?a = x2_extranonce_total s" "x2_coinbase_tag ?a = x2_coinbase_tag s" "x2_channel_open ?a = x2_channel_open s"
    "x2_identity ?a = x2_identity s" "driven_ok cfg (?a\<lparr>x2_issued_jobs := x\<rparr>) = driven_ok cfg s" for x
    by (simp_all add: assign_job_id_def Let_def driven_ok_def)
  have ok: "numbers_ok s" "map snd (x2_job_ids s) = map (\<lambda>e. sj_job_id (je_job e)) ?es" using assms(2) by (auto simp: sv2_ok_def channel_ok_def)
  have len: "length (map snd (x2_job_ids s)) = length ?es" "length (map snd (x2_job_ids s)) \<le> 16"
    using arg_cong [OF ok(2), of length] ok(1) by (simp, auto simp: numbers_ok_def)
  have "map snd (x2_job_ids ?a) = drop (Suc (length (map snd (x2_job_ids s))) - 16) (map snd (x2_job_ids s) @ [sj_job_id job])"
    by (simp add: assign_job_id_def Let_def drop_map)
  also have "\<dots> = map (\<lambda>e. sj_job_id (je_job e)) (ij_entries (issue (x2_issued_jobs s) job future (x2_difficulty s) (mo_inst mo)))"
    unfolding kept_window [OF len] by (simp add: ok(2) issue_entries Let_def JOB_HISTORY_DEPTH_def map_tl comp_def if_distrib cong: if_cong)
  finally have ids: "map snd (x2_job_ids ?a) = map (\<lambda>e. sj_job_id (je_job e)) (ij_entries (issue (x2_issued_jobs s) job future (x2_difficulty s) (mo_inst mo)))" .
  have "numbers_ok (?a\<lparr>x2_issued_jobs := x\<rparr>)" for x using numbers_ok_assign [OF ok(1)] by (simp add: numbers_ok_def)
  moreover have "\<exists>counter template. fst (build_job_for_payout (ev_crates env) (ev_epoch env) counter template (mi_payout i) (x2_coinbase_tag s)
      (length (x2_extranonce_prefix s)) (x2_extranonce_size s)) = Inr (je_job e)"
    if "e \<in> set (ij_entries (issue (x2_issued_jobs s) job future (x2_difficulty s) (mo_inst mo)))" for e
  proof -
    have "je_job e \<in> insert job (je_job ` set ?es)" using that issue_jobs by fast
    then show ?thesis using assms(2) j by (fastforce simp: sv2_ok_def channel_ok_def)
  qed
  ultimately show "sv2_ok env cfg s'" "x2_channel_open s'" using assms(2,3) ids f j by (auto simp: sv2_ok_def channel_ok_def)
qed

section \<open>What the device has been told\<close>

text \<open>\<open>dec\<close> reads the previous hash out of an encoded message; the last one sent counts.\<close>

definition device_prev :: "(bytes \<Rightarrow> bytes option) \<Rightarrow> sv2_api \<Rightarrow> (u8 \<times> bool \<times> bytes) list \<Rightarrow> bytes option" where
  "device_prev dec api out = fold (\<lambda>(ty, c, p) prev. if ty = x_type api NewPrevHashT then dec p else prev) out None"

definition codec_ok :: "sv2_api \<Rightarrow> (bytes \<Rightarrow> bytes option) \<Rightarrow> bool" where
  "codec_ok api dec \<longleftrightarrow> inj (x_type api) \<and> (\<forall>n p. x_encode api (NewPrevHash n) = Inr p \<longrightarrow> dec p = Some (np_prev_hash n))"

definition told :: "('a, 'c, 'v, 'w) env \<Rightarrow> sv2_api \<Rightarrow> (bytes \<Rightarrow> bytes option) \<Rightarrow> sv2_session \<Rightarrow> writer \<Rightarrow> bool" where
  "told env api dec s w \<longleftrightarrow> (x2_channel_open s \<longrightarrow>
     (case x2_pending_template s of
        None \<Rightarrow> ij_entries (x2_issued_jobs s) = []
      | Some t \<Rightarrow> (\<exists>prev. stratum_prevhash_to_internal (ev_crates env) (jt_prev_hash t) = Inr prev \<and> device_prev dec api (wr_out w) = Some prev)
          \<and> (\<forall>e \<in> set (ij_entries (x2_issued_jobs s)). je_superseded_by_clean e \<or> sj_prev_hash (je_job e) = jt_prev_hash t)))"

definition parent_kept :: "sv2_api \<Rightarrow> writer \<Rightarrow> writer \<Rightarrow> bool" where
  "parent_kept api w w' \<longleftrightarrow> (\<exists>fs. wr_out w' = wr_out w @ fs \<and> (\<forall>f \<in> set fs. fst f \<noteq> x_type api NewPrevHashT))"

lemma device_prev_append:
  "device_prev dec api (out @ fs) = fold (\<lambda>(ty, c, p) prev. if ty = x_type api NewPrevHashT then dec p else prev) fs (device_prev dec api out)"
  by (simp add: device_prev_def)

lemma quiet_prev: "parent_kept api w w' \<Longrightarrow> device_prev dec api (wr_out w') = device_prev dec api (wr_out w)"
proof -
  have "fold (\<lambda>(ty, c, p) prev. if ty = x_type api NewPrevHashT then dec p else prev) fs x = x"
    if "\<forall>f \<in> set fs. fst f \<noteq> x_type api NewPrevHashT" for fs :: "(u8 \<times> bool \<times> bytes) list" and x
    using that by (induction fs arbitrary: x) auto
  then show "parent_kept api w w' \<Longrightarrow> device_prev dec api (wr_out w') = device_prev dec api (wr_out w)"
    by (auto simp: parent_kept_def device_prev_append)
qed

lemma quiet_refl [simp]: "parent_kept api w w"
  by (auto simp: parent_kept_def)

lemma quiet_send:
  assumes "codec_ok api dec" "k \<noteq> NewPrevHashT"
  shows "parent_kept api w (snd (wr_send (x_type api k) c p w))"
proof -
  have "x_type api k \<noteq> x_type api NewPrevHashT" using assms by (auto simp: codec_ok_def inj_def)
  then show ?thesis by (auto simp: parent_kept_def wr_send_def split: list.splits bool.splits)
qed

lemma quiet_reply: "codec_ok api dec \<Longrightarrow> k \<noteq> NewPrevHashT \<Longrightarrow> parent_kept api w (snd (reply context (x_type api k) c p w))"
  using quiet_send by (auto simp: reply_def case_prod_unfold Let_def split: sum.splits)

lemma told_frame:
  assumes "told env api dec s w" "parent_kept api w w'" "x2_channel_open s' = x2_channel_open s" "x2_pending_template s' = x2_pending_template s"
    and "x2_issued_jobs s' = x2_issued_jobs s"
  shows "told env api dec s' w'"
  using assms quiet_prev [OF assms(2)] by (auto simp: told_def split: option.splits)

text \<open>
  A job sent with its previous hash tells the device the hash of its template; one sent without leaves
  the device where it is.
\<close>

lemma send_job_told:
  assumes "send_job env api mo template future (s, sh, w) = (True, s', sh', w')" "codec_ok api dec" "x2_channel_open s"
    and "future \<or> told env api dec s w \<and> (\<exists>t. x2_pending_template s = Some t \<and> jt_prev_hash t = jt_prev_hash template)"
  shows "told env api dec (s'\<lparr>x2_pending_template := Some template\<rparr>) w'"
proof -
  obtain i job payload prevs where "x2_identity s = Some i" and j:
    "fst (build_job_for_payout (ev_crates env) (ev_epoch env) (pl_job_counter (sh_pool sh)) template (mi_payout i) (x2_coinbase_tag s)
       (length (x2_extranonce_prefix s)) (x2_extranonce_size s)) = Inr job"
    "s' = (snd (assign_job_id (sj_job_id job) s))\<lparr>x2_issued_jobs := issue (x2_issued_jobs s) job future (x2_difficulty s) (mo_inst mo)\<rparr>"
    "wr_out w' = wr_out w @ (x_type api NewExtendedJobT, True, payload) # prevs"
    "if future then \<exists>ch n np p. build_set_new_prev_hash (ev_crates env) job ch n = Inr np \<and> encode api (NewPrevHash np) = Inr p
       \<and> prevs = [(x_type api NewPrevHashT, True, p)] else prevs = []"
    by (rule send_job_sent [OF assms(1)])
  have prev: "sj_prev_hash job = jt_prev_hash template"
    using j(1) by (auto simp: build_job_for_payout_def bind_res_Inr Let_def split: prod.splits)
  have ty: "x_type api NewExtendedJobT \<noteq> x_type api NewPrevHashT" using assms(2) by (auto simp: codec_ok_def inj_def)
  have mem: "je_superseded_by_clean e \<or> sj_prev_hash (je_job e) = jt_prev_hash template"
    if "e \<in> set (ij_entries (issue (x2_issued_jobs s) job future (x2_difficulty s) (mo_inst mo)))"
      "future \<or> (\<forall>e \<in> set (ij_entries (x2_issued_jobs s)). je_superseded_by_clean e \<or> sj_prev_hash (je_job e) = jt_prev_hash template)" for e
    using that prev by (cases "ij_entries (x2_issued_jobs s)") (auto simp: issue_entries Let_def split: if_splits)
  have "\<exists>prev. stratum_prevhash_to_internal (ev_crates env) (jt_prev_hash template) = Inr prev \<and> device_prev dec api (wr_out w') = Some prev"
  proof (cases future)
    case True
    then obtain ch n np p where n: "build_set_new_prev_hash (ev_crates env) job ch n = Inr np" "encode api (NewPrevHash np) = Inr p"
      "prevs = [(x_type api NewPrevHashT, True, p)]" using j(4) by auto
    have "stratum_prevhash_to_internal (ev_crates env) (jt_prev_hash template) = Inr (np_prev_hash np)"
      using n(1) prev by (auto simp: build_set_new_prev_hash_def bind_str_Inr split: option.splits)
    moreover have "dec p = Some (np_prev_hash np)" using assms(2) n(2) by (simp add: codec_ok_def encode_def map_err_Inr)
    ultimately show ?thesis using j(3) n(3) ty by (simp add: device_prev_append)
  next
    case False
    then show ?thesis using assms(3,4) j(3,4) ty by (auto simp: told_def device_prev_append)
  qed
  moreover have "\<forall>e \<in> set (ij_entries (issue (x2_issued_jobs s) job future (x2_difficulty s) (mo_inst mo))).
      je_superseded_by_clean e \<or> sj_prev_hash (je_job e) = jt_prev_hash template"
  proof -
    have "future \<or> (\<forall>e \<in> set (ij_entries (x2_issued_jobs s)). je_superseded_by_clean e \<or> sj_prev_hash (je_job e) = jt_prev_hash template)"
      using assms(3,4) by (auto simp: told_def)
    then show ?thesis using mem by blast
  qed
  moreover have "x2_channel_open s'" using assms(3) j(2) by (simp add: assign_job_id_def Let_def)
  ultimately show ?thesis using j(2) by (simp add: told_def)
qed

section \<open>Every event keeps it\<close>

text \<open>A handler that lets the session go on keeps both parts.\<close>

definition good ::
  "('a, 'c, 'v, 'w) env \<Rightarrow> sv2_api \<Rightarrow> (bytes \<Rightarrow> bytes option) \<Rightarrow> config \<Rightarrow> sv2_session \<times> writer \<Rightarrow> sv2_session \<times> writer \<Rightarrow> bool" where
  "good env api dec cfg x y \<longleftrightarrow> sv2_ok env cfg (fst y) \<and> x2_pending_template (fst y) = x2_pending_template (fst x) \<and>
     (codec_ok api dec \<and> told env api dec (fst x) (snd x) \<longrightarrow> told env api dec (fst y) (snd y))"

lemma good_frame:
  assumes "sv2_ok env cfg s'" "codec_ok api dec \<Longrightarrow> parent_kept api w w'" "x2_channel_open s' = x2_channel_open s"
    and "x2_pending_template s' = x2_pending_template s" "x2_issued_jobs s' = x2_issued_jobs s"
  shows "good env api dec cfg (s, w) (s', w')"
  using assms told_frame [of env api dec s w w' s'] by (simp add: good_def)

lemma setup_good:
  assumes "handle_setup_connection api payload (s, sh, w) = (f, s', sh', w')" "f = Continue" "sv2_ok env cfg s"
  shows "good env api dec cfg (s, w) (s', w')"
proof -
  have w: "codec_ok api dec \<Longrightarrow> parent_kept api w (snd (reply cx (x_type api SetupConnectionSuccessT) c p w))" for cx c p
    by (rule quiet_reply) simp_all
  have s: "s' = s\<lparr>x2_setup_done := True\<rparr>" "codec_ok api dec \<Longrightarrow> parent_kept api w w'"
    using assms(1,2) w
    by (auto simp: handle_setup_connection_def setup_error_def Let_def case_prod_unfold split: sum.splits sv2_protocol.splits if_splits)
  show ?thesis
    by (rule good_frame) (use s assms(3) in \<open>simp_all add: sv2_ok_def channel_ok_def driven_ok_def numbers_ok_def\<close>)
qed

lemma length_generate_extranonce1: "length (fst (generate_extranonce1 width counter)) = width"
  by (simp add: generate_extranonce1_def Let_def to_be_def)

lemma claim_frame:
  assumes "claim_identity identity (s, p) = (allowed, is_new, s', p')"
  shows "\<exists>g wk i. s' = s\<lparr>x2_guard := g, x2_worker := wk, x2_identity := i\<rparr>"
proof -
  have "\<exists>g wk i. s = s\<lparr>x2_guard := g, x2_worker := wk, x2_identity := i\<rparr>"
    by (intro exI [of _ "x2_guard s"] exI [of _ "x2_worker s"] exI [of _ "x2_identity s"]) simp
  moreover have "\<exists>h wk i. s\<lparr>x2_guard := g\<rparr> = s\<lparr>x2_guard := h, x2_worker := wk, x2_identity := i\<rparr>" for g
    by (intro exI [of _ g] exI [of _ "x2_worker s"] exI [of _ "x2_identity s"]) simp
  ultimately show ?thesis using assms
    by (auto simp: claim_identity_def Let_def case_prod_unfold split: if_splits)
qed

lemma open_channel_good:
  assumes "open_channel env api mo opn identity is_new granted (s, sh, w) = (f, s', sh', w')" "f = Continue"
    and "sv2_ok env cfg s" "\<not> x2_channel_open s" "x2_setup_done s" "granted \<le> x2_extranonce_total s"
  shows "good env api dec cfg (s, w) (s', w')"
proof -
  define prefix where "prefix = fst (generate_extranonce1 (x2_extranonce_total s - granted) (sh_extranonce1_counter sh))"
  define u where "u = s\<lparr>x2_extranonce_size := granted, x2_extranonce_prefix := prefix, x2_channel_id := sh_channel_id sh,
    x2_worker := Some (oe_user_identity opn), x2_identity := Some identity, x2_channel_open := True\<rparr>"
  define v where "v = snd (reply ''encode OpenExtendedMiningChannelSuccess: '' (x_type api OpenExtendedSuccessT) False
     (open_extended_success api (oe_request_id opn) (sh_channel_id sh) (assigned_target (x2_difficulty s) (oe_max_target opn)) (of_nat granted) prefix) w)"
  have len: "length prefix + granted = x2_extranonce_total s" using assms(6) by (simp add: prefix_def length_generate_extranonce1)
  have empty: "ij_entries (x2_issued_jobs s) = []" using assms(3,4) by (simp add: sv2_ok_def channel_ok_def)
  then have ok: "sv2_ok env cfg u"
    using assms(3-5) len by (auto simp: u_def sv2_ok_def channel_ok_def driven_ok_def numbers_ok_def)
  have parent_kept: "codec_ok api dec \<Longrightarrow> parent_kept api w v" unfolding v_def by (rule quiet_reply) simp_all
  have d: "x2_pending_template s = None \<and> s' = u \<and> w' = v
      \<or> (\<exists>t sh2. x2_pending_template s = Some t \<and> fst (send_job env api mo t True (u, sh2, v))
          \<and> snd (send_job env api mo t True (u, sh2, v)) = (s', sh', w'))"
    using assms(1,2) unfolding open_channel_def Let_def prod.case
    by (auto simp: case_prod_unfold u_def v_def prefix_def split: flow.splits option.splits if_splits)
  then show ?thesis
  proof
    assume "x2_pending_template s = None \<and> s' = u \<and> w' = v"
    then show ?thesis using ok empty by (simp add: good_def told_def u_def)
  next
    assume "\<exists>t sh2. x2_pending_template s = Some t \<and> fst (send_job env api mo t True (u, sh2, v))
      \<and> snd (send_job env api mo t True (u, sh2, v)) = (s', sh', w')"
    then obtain t sh2 where t: "x2_pending_template s = Some t" "send_job env api mo t True (u, sh2, v) = (True, s', sh', w')"
      by (metis (mono_tags, lifting) prod.collapse)
    have "x2_channel_open u" by (simp add: u_def)
    note sent = send_job_ok(1) [OF t(2) ok this] send_job_told [OF t(2) _ this]
    have pend: "x2_pending_template s' = Some t" using send_job_pending [OF t(2)] t(1) by (simp add: u_def)
    then have same: "s'\<lparr>x2_pending_template := Some t\<rparr> = s'" by simp
    show ?thesis using sent(1) sent(2) [of dec, unfolded same] pend t(1) by (simp add: good_def)
  qed
qed

text \<open>An accepted identity: the channel is refused, or opened.\<close>

lemma claimed_good:
  assumes "0 < x2_extranonce_total s" "sv2_ok env cfg s" "x2_setup_done s" "\<not> x2_channel_open s"
    and "decode_open_extended api payload = Inr opn" "check_worker_name (x2_guard s) (oe_user_identity opn) = Inr x"
    and "identity_parse (ev_address env) (oe_user_identity opn) (x2_network s) (sg_max_worker_name_len (x2_guard s)) = Inr identity"
  shows "\<exists>f s' sh' w'. handle_open_extended env api mo payload (s, sh, w) = Some (f, s', sh', w')
    \<and> (f = Continue \<longrightarrow> good env api dec cfg (s, w) (s', w'))"
proof -
  obtain allowed is_new u p where c: "claim_identity identity (s, sh_pool sh) = (allowed, is_new, u, p)" by (metis prod_cases4)
  obtain g wk i where u: "u = s\<lparr>x2_guard := g, x2_worker := wk, x2_identity := i\<rparr>" using claim_frame [OF c] by blast
  have ok: "sv2_ok env cfg u"
    using assms(2-4) u by (auto simp: sv2_ok_def channel_ok_def driven_ok_def numbers_ok_def)
  have refused: "good env api dec cfg (s, w) (u, snd (wr_send (x_type api OpenChannelErrorT) False q w))" "good env api dec cfg (s, w) (u, w)" for q
    by (rule good_frame [OF ok]; use u quiet_send [of api dec] in \<open>simp\<close>)+
  let ?n = "max (unat (oe_min_extranonce_size opn)) 1" and ?sh = "sh\<lparr>sh_pool := p\<rparr>"
  obtain f s' sh' w' where o: "open_channel env api mo opn identity is_new ?n (u, ?sh, w) = (f, s', sh', w')" by (metis prod_cases4)
  have "good env api dec cfg (u, w) (s', w')" if "f = Continue" "?n \<le> x2_extranonce_total u"
    by (rule open_channel_good [OF o that(1) ok _ _ that(2)]) (use assms(3,4) u in simp_all)
  moreover have "good env api dec cfg (s, w) (s', w')" if "good env api dec cfg (u, w) (s', w')"
    using that refused(2) by (auto simp: good_def)
  ultimately show ?thesis using assms c o refused u
    by (auto simp: handle_open_extended_def Let_def split: sum.splits)
qed

lemma open_good:
  assumes "0 < pc_extranonce1_size (c_pool cfg) + pc_extranonce2_size (c_pool cfg)" "sv2_ok env cfg s"
  shows "\<exists>f s' sh' w'. handle_open_extended env api mo payload (s, sh, w) = Some (f, s', sh', w')
    \<and> (f = Continue \<longrightarrow> good env api dec cfg (s, w) (s', w'))"
proof -
  have self: "good env api dec cfg (s, w) (s, snd (open_error api r code w))" for r code
    by (rule good_frame [OF assms(2)]) (simp_all add: open_error_def quiet_reply)
  have total: "0 < x2_extranonce_total s" using assms by (simp add: sv2_ok_def driven_ok_def)
  show ?thesis
  proof (cases "x2_setup_done s \<and> \<not> x2_channel_open s")
    case False
    then show ?thesis using self
      by (auto simp: handle_open_extended_def Let_def case_prod_unfold split: sum.splits)
  next
    case opened: True
    show ?thesis
    proof (cases "decode_open_extended api payload")
      case (Inl e)
      then show ?thesis using opened by (simp add: handle_open_extended_def)
    next
      case (Inr opn)
      show ?thesis
      proof (cases "check_worker_name (x2_guard s) (oe_user_identity opn)")
        case (Inl e)
        then show ?thesis using opened Inr self by (simp add: handle_open_extended_def Let_def case_prod_unfold)
      next
        case name: (Inr _)
        show ?thesis
        proof (cases "identity_parse (ev_address env) (oe_user_identity opn) (x2_network s) (sg_max_worker_name_len (x2_guard s))")
          case (Inl e)
          then show ?thesis using opened Inr name self by (simp add: handle_open_extended_def Let_def case_prod_unfold)
        next
          case ident: (Inr identity)
          show ?thesis using claimed_good [OF total assms(2) _ _ Inr name ident] opened by blast
        qed
      qed
    qed
  qed
qed

lemma sv2_reject_good:
  assumes "sv2_reject_with api mo seq reason code (s, sh, w) = (f, s', sh', w')" "sv2_ok env cfg s"
  shows "good env api dec cfg (s, w) (s', w')"
proof -
  have s: "s' = s\<lparr>x2_shares_rejected := x2_shares_rejected s', x2_guard := x2_guard s'\<rparr>" "codec_ok api dec \<Longrightarrow> parent_kept api w w'"
    using assms(1) quiet_reply [of api dec SubmitSharesErrorT]
    by (auto simp: sv2_reject_with_def sv2_reject_share_def sv2_reject_def Let_def case_prod_unfold split: if_splits)
  have "x2_channel_open s' = x2_channel_open s" "x2_pending_template s' = x2_pending_template s" "x2_issued_jobs s' = x2_issued_jobs s"
    "sv2_ok env cfg s'"
    using assms(2) by (subst s(1), simp add: sv2_ok_def channel_ok_def driven_ok_def numbers_ok_def)+
  with s(2) show ?thesis by (intro good_frame)
qed

lemma sv2_accept_ok:
  assumes "exp_ok (ev_exp env)" "sv2_ok env cfg s"
  shows "sv2_ok env cfg (fst (sv2_accept_share env mo worker dif jd (s, p)))"
proof -
  have "vd_current (record_share ex vd c now) = vd_current vd" for ex vd c now
    by (simp add: record_share_def vd_decay_def Let_def)
  then show ?thesis using assms record_share_inv [OF assms(1)]
    by (auto simp: sv2_accept_share_def sv2_ok_def channel_ok_def driven_ok_def numbers_ok_def Let_def case_prod_unfold)
qed

lemma sv2_block_view: "fst (sv2_block_share env mo worker entry dif bh h (s, p)) = fst (sv2_accept_share env mo worker dif (je_difficulty entry) (s, q))"
  by (simp add: sv2_block_share_def sv2_accept_share_def Let_def case_prod_unfold)

lemma sv2_accept_fields:
  fixes s :: sv2_session
  assumes "t = fst (sv2_accept_share env mo worker dif jd (s, p))"
  shows "x2_channel_open t = x2_channel_open s" "x2_pending_template t = x2_pending_template s" "x2_issued_jobs t = x2_issued_jobs s"
    "x2_share_set t = x2_share_set s" "x2_job_ids t = x2_job_ids s" "x2_extranonce_size t = x2_extranonce_size s"
    "x2_shares_accepted t = x2_shares_accepted s + 1"
  by (simp_all add: assms sv2_accept_share_def Let_def case_prod_unfold)

text \<open>A submission that reaches validation goes the way of the verdict.\<close>

lemma sv2_submit_verdict:
  assumes "x2_channel_open s" "decode_submit_extended api payload = Inr submit" "length (sx_extranonce submit) = x2_extranonce_size s"
    "Option.bind (engine_job_id s (sx_job_id submit)) (find_job (x2_issued_jobs s)) = Some entry"
    "\<not> share_contains (x2_share_set s) (sv2_share_key (sj_job_id (je_job entry)) submit)"
  obtains (stopped) reason where "sv2_handle_submit env api mo payload (s, sh, w) = (Stop reason, s, sh, w)"
  | (rejected) seq reason code where
      "sv2_handle_submit env api mo payload (s, sh, w) = sv2_reject_with api mo seq reason code (s, sh, w)"
  | (accepted) worker dif p' where
      "sv2_handle_submit env api mo payload (s, sh, w) =
        (let t = fst (sv2_accept_share env mo worker dif (je_difficulty entry)
               (s\<lparr>x2_share_set := share_insert (x2_share_set s) (sv2_share_key (sj_job_id (je_job entry)) submit)\<rparr>, sh_pool sh));
             (f, w) = sv2_accept api (sx_sequence_number submit) t w in (f, t, sh\<lparr>sh_pool := p'\<rparr>, w))"
proof -
  note e = sv2_handle_submit_def [of env api mo payload "(s, sh, w)", unfolded Let_def prod.case, simplified assms(1,2), simplified]
  let ?v = "validate_share_no_dedup (ev_crates env) (mo_wall mo) (sv2_share_params (sj_job_id (je_job entry)) submit) (je_job entry) entry
     (x2_extranonce_prefix s) (vc_min_difficulty (x2_vardiff_cfg s))"
  consider "?v = None" | err where "?v = Some (Inl err)" | x dif h where "?v = Some (Inr (Valid x dif h))"
    | dif bh h where "?v = Some (Inr (Block dif bh h))"
    by (metis option.exhaust old.sum.exhaust share_result.exhaust)
  then show thesis
  proof cases
    case 1
    then show thesis using e assms by (intro stopped) simp
  next
    case 2
    then show thesis using e assms by (intro rejected) simp
  next
    case 3
    show thesis by (rule accepted) (use e assms 3 in \<open>simp add: Let_def case_prod_unfold\<close>)
  next
    case 4
    show thesis
      by (rule accepted) (use e assms 4 in \<open>simp add: Let_def case_prod_unfold sv2_block_view [where q = "sh_pool sh"]\<close>)
  qed
qed

text \<open>The ways a submission can go.\<close>

lemma sv2_submit_cases:
  obtains (stopped) reason where "sv2_handle_submit env api mo payload (s, sh, w) = (Stop reason, s, sh, w)"
  | (rejected) seq reason code where
      "sv2_handle_submit env api mo payload (s, sh, w) = sv2_reject_with api mo seq reason code (s, sh, w)"
  | (accepted) submit entry worker dif p' where "x2_channel_open s" "decode_submit_extended api payload = Inr submit"
      "length (sx_extranonce submit) = x2_extranonce_size s"
      "Option.bind (engine_job_id s (sx_job_id submit)) (find_job (x2_issued_jobs s)) = Some entry"
      "\<not> share_contains (x2_share_set s) (sv2_share_key (sj_job_id (je_job entry)) submit)"
      "sv2_handle_submit env api mo payload (s, sh, w) =
        (let t = fst (sv2_accept_share env mo worker dif (je_difficulty entry)
               (s\<lparr>x2_share_set := share_insert (x2_share_set s) (sv2_share_key (sj_job_id (je_job entry)) submit)\<rparr>, sh_pool sh));
             (f, w) = sv2_accept api (sx_sequence_number submit) t w in (f, t, sh\<lparr>sh_pool := p'\<rparr>, w))"
proof (cases "x2_channel_open s")
  case False
  then show thesis by (intro stopped [of "''SubmitShares before channel open''"]) (simp add: sv2_handle_submit_def)
next
  case opened: True
  show thesis
  proof (cases "decode_submit_extended api payload")
    case (Inl e)
    then show thesis using opened by (intro stopped) (simp add: sv2_handle_submit_def)
  next
    case dec: (Inr submit)
    show thesis
    proof (cases "length (sx_extranonce submit) = x2_extranonce_size s")
      case False
      then show thesis using opened dec by (intro rejected) (simp add: sv2_handle_submit_def Let_def)
    next
      case len: True
      show thesis
      proof (cases "Option.bind (engine_job_id s (sx_job_id submit)) (find_job (x2_issued_jobs s))")
        case None
        then show thesis using opened dec len by (intro rejected) (simp add: sv2_handle_submit_def Let_def)
      next
        case entry: (Some entry)
        show thesis
        proof (cases "share_contains (x2_share_set s) (sv2_share_key (sj_job_id (je_job entry)) submit)")
          case True
          then show thesis using opened dec len entry by (intro rejected) (simp add: sv2_handle_submit_def Let_def)
        next
          case new: False
          show thesis
            by (rule sv2_submit_verdict [OF opened dec len entry new, of env mo sh w])
              (erule stopped rejected accepted [OF opened dec len entry new])+
        qed
      qed
    qed
  qed
qed

lemma sv2_submit_good:
  assumes "exp_ok (ev_exp env)" "sv2_handle_submit env api mo payload (s, sh, w) = (f, s', sh', w')" "f = Continue" "sv2_ok env cfg s"
  shows "good env api dec cfg (s, w) (s', w')"
proof (cases rule: sv2_submit_cases [of env api mo payload s sh w])
  case stopped
  then show ?thesis using assms(2,3) by simp
next
  case rejected
  then show ?thesis using assms(2,4) sv2_reject_good by metis
next
  case (accepted submit entry worker dif p')
  let ?u = "s\<lparr>x2_share_set := share_insert (x2_share_set s) (sv2_share_key (sj_job_id (je_job entry)) submit)\<rparr>"
  have "sv2_ok env cfg ?u" using assms(4) share_set_inv_insert by (auto simp: sv2_ok_def channel_ok_def driven_ok_def numbers_ok_def)
  from sv2_accept_ok [OF assms(1) this] have ok: "sv2_ok env cfg (fst (sv2_accept_share env mo worker dif jd (?u, sh_pool sh)))" for jd .
  have s': "s' = fst (sv2_accept_share env mo worker dif (je_difficulty entry) (?u, sh_pool sh))" "w' = snd (sv2_accept api (sx_sequence_number submit) s' w)"
    using accepted(6) assms(2) by (simp_all add: Let_def case_prod_unfold)
  have "codec_ok api dec \<Longrightarrow> parent_kept api w w'" unfolding s'(2) sv2_accept_def by (rule quiet_reply) simp_all
  then show ?thesis using ok s'(1) sv2_accept_fields [OF s'(1)] by (intro good_frame) auto
qed

section \<open>Reachable channels\<close>

definition sound_pool :: "('a, 'c, 'v, 'w) env \<Rightarrow> config \<Rightarrow> bool" where
  "sound_pool env cfg \<longleftrightarrow> exp_ok (ev_exp env) \<and> vd_cfg_ok (c_vardiff cfg)
     \<and> 0 < pc_extranonce1_size (c_pool cfg) + pc_extranonce2_size (c_pool cfg)"

lemma sv2_message_good:
  assumes sound: "sound_pool env cfg" and ok: "sv2_ok env cfg s"
  shows "\<exists>f s' sh' w'. sv2_handle_message env api mo ty payload (s, sh, w) = Some (f, s', sh', w')
    \<and> (f = Continue \<longrightarrow> good env api dec cfg (s, w) (s', w'))"
proof -
  let ?u = "s\<lparr>x2_guard := (x2_guard s)\<lparr>sg_share_rate := snd (try_consume (sg_share_rate (x2_guard s)) (mo_bucket1 mo) (mo_bucket2 mo))\<rparr>\<rparr>"
  have u: "sv2_ok env cfg ?u" using ok by (simp add: sv2_ok_def)
  have via: "good env api dec cfg (s, w) y" if "good env api dec cfg (?u, w) y" for y
    using that told_frame [of env api dec s w w ?u] by (auto simp: good_def)
  obtain f1 s1 sh1 w1 where a: "handle_setup_connection api payload (?u, sh, w) = (f1, s1, sh1, w1)" by (metis prod_cases4)
  obtain f2 s2 sh2 w2 where b: "sv2_handle_submit env api mo payload (?u, sh, w) = (f2, s2, sh2, w2)" by (metis prod_cases4)
  obtain f3 s3 sh3 w3 where c: "handle_open_extended env api mo payload (?u, sh, w) = Some (f3, s3, sh3, w3)"
    "f3 = Continue \<longrightarrow> good env api dec cfg (?u, w) (s3, w3)"
    using open_good [OF _ u] sound unfolding sound_pool_def by metis
  have "f1 = Continue \<Longrightarrow> good env api dec cfg (?u, w) (s1, w1)" "f2 = Continue \<Longrightarrow> good env api dec cfg (?u, w) (s2, w2)"
    using setup_good [OF a _ u] sv2_submit_good [OF _ b _ u] sound by (auto simp: sound_pool_def)
  moreover have "good env api dec cfg (?u, w) (?u, w)" using u by (simp add: good_def)
  ultimately show ?thesis using a b c via
    by (cases "try_consume (sg_share_rate (x2_guard s)) (mo_bucket1 mo) (mo_bucket2 mo)")
      (simp add: sv2_handle_message_def Let_def)
qed

lemma sv2_retarget_good:
  assumes sound: "sound_pool env cfg" and ok: "sv2_ok env cfg s"
  shows "\<exists>go s' sh' w'. sv2_apply_retarget env api mo (s, sh, w) = Some (go, s', sh', w') \<and> good env api dec cfg (s, w) (s', w')"
proof (cases "x2_channel_open s")
  case False
  then show ?thesis using ok by (auto simp: sv2_apply_retarget_def good_def)
next
  case opened: True
  let ?c = "c_vardiff cfg"
  have inv: "vd_inv ?c (x2_vardiff s)" using ok by (simp add: sv2_ok_def driven_ok_def)
  have cfg_ok: "exp_ok (ev_exp env)" "vd_cfg_ok ?c" using sound by (simp_all add: sound_pool_def)
  obtain sent vd where c: "check_retarget (ev_exp env) (x2_vardiff s) (mo_retarget mo) (sv2_network_difficulty env s) = Some (sent, vd)"
    "vd_inv ?c vd" "\<forall>d. sent = Some d \<longrightarrow> vc_min_difficulty ?c \<le> d \<and> d \<le> retarget_ceiling ?c (sv2_network_difficulty env s) \<and> vd_current vd = d"
    using check_retarget_bounds [OF cfg_ok(1) inv cfg_ok(2)] by blast
  show ?thesis
  proof (cases sent)
    case None
    then have "sv2_ok env cfg (s\<lparr>x2_vardiff := vd\<rparr>)"
      using c ok check_retarget_None [of "ev_exp env" "x2_vardiff s"] by (auto simp: sv2_ok_def driven_ok_def)
    then have "good env api dec cfg (s, w) (s\<lparr>x2_vardiff := vd\<rparr>, w)" by (intro good_frame) simp_all
    then show ?thesis using c None opened by (auto simp: sv2_apply_retarget_def)
  next
    case (Some d)
    then have "d \<le> vc_max_difficulty ?c" using c(3) retarget_ceiling_bounds(2) [OF cfg_ok(2), of "sv2_network_difficulty env s"] by (auto intro: order_trans)
    then have t: "sv2_ok env cfg (s\<lparr>x2_vardiff := vd, x2_difficulty := d\<rparr>)" using c ok Some by (auto simp: sv2_ok_def driven_ok_def)
    have "good env api dec cfg (s, w) (s\<lparr>x2_vardiff := vd, x2_difficulty := d\<rparr>, snd (wr_send (x_type api SetTargetT) True p w))" for p
      by (rule good_frame [OF t]) (use quiet_send [of api dec SetTargetT] in simp_all)
    moreover have "good env api dec cfg (s, w) (s\<lparr>x2_vardiff := vd, x2_difficulty := d\<rparr>, w)" by (rule good_frame [OF t]) simp_all
    ultimately show ?thesis using c Some opened
      by (auto simp: sv2_apply_retarget_def Let_def case_prod_unfold split: sum.splits)
  qed
qed

text \<open>A template that may be announced to a session as it is: clean, or on the parent of the one before.\<close>

definition in_order :: "sv2_session \<Rightarrow> sv2_event \<Rightarrow> bool" where
  "in_order s event \<longleftrightarrow> (\<forall>template. event = TemplateIn template False \<longrightarrow>
     (\<exists>t. x2_pending_template s = Some t \<and> jt_prev_hash t = jt_prev_hash template))"

lemma sv2_push_good:
  assumes "sv2_push_job env api mo template clean (s, sh, w) = (True, s', sh', w')" "sv2_ok env cfg s"
  shows "sv2_ok env cfg s'" "x2_pending_template s' = Some template"
    "codec_ok api dec \<Longrightarrow> told env api dec s w \<Longrightarrow> in_order s (TemplateIn template clean) \<Longrightarrow> told env api dec s' w'"
proof -
  define u where "u = (if clean then s\<lparr>x2_share_set := share_clear (x2_share_set s)\<rparr> else s)"
  have u: "sv2_ok env cfg u" "x2_channel_open u = x2_channel_open s" "x2_pending_template u = x2_pending_template s" "x2_issued_jobs u = x2_issued_jobs s"
    using assms(2) share_set_inv_clear [of "x2_share_set s"] by (auto simp: u_def sv2_ok_def driven_ok_def)
  have d: "\<not> x2_channel_open s \<and> s' = u\<lparr>x2_pending_template := Some template\<rparr> \<and> w' = w
      \<or> x2_channel_open s \<and> (\<exists>v. send_job env api mo template clean (u, sh, w) = (True, v, sh', w') \<and> s' = v\<lparr>x2_pending_template := Some template\<rparr>)"
    using assms(1) u(2) unfolding sv2_push_job_def Let_def prod.case u_def [symmetric]
    by (cases "send_job env api mo template clean (u, sh, w)") (auto split: if_splits)
  then show "sv2_ok env cfg s'" "x2_pending_template s' = Some template" using u send_job_ok(1) [OF _ u(1)] by (auto simp: sv2_ok_def)
  assume c: "codec_ok api dec" "told env api dec s w" "in_order s (TemplateIn template clean)"
  have "told env api dec u w" using told_frame [OF c(2) quiet_refl u(2-4)] .
  then show "told env api dec s' w'" using d u send_job_told [OF _ c(1), of env mo template clean u sh w _ sh' w'] c(3)
    by (auto simp: in_order_def told_def)
qed

lemma sv2_step_good:
  assumes sound: "sound_pool env cfg" and ok: "sv2_ok env cfg s"
  shows "\<exists>go s' sh' w'. sv2_step env api mo event (s, sh, w) = Some (go, s', sh', w')
    \<and> (go \<longrightarrow> sv2_ok env cfg s' \<and> (codec_ok api dec \<and> told env api dec s w \<and> in_order s event \<longrightarrow> told env api dec s' w')
      \<and> x2_pending_template s' = (case event of TemplateIn template _ \<Rightarrow> Some template | _ \<Rightarrow> x2_pending_template s))"
proof (cases event)
  case (FrameIn ty payload)
  obtain f s1 sh1 w1 where m: "sv2_handle_message env api mo ty payload (s, sh, w) = Some (f, s1, sh1, w1)"
    "f = Continue \<longrightarrow> good env api dec cfg (s, w) (s1, w1)" using sv2_message_good [OF sound ok] by metis
  show ?thesis
  proof (cases f)
    case Continue
    then have "sv2_ok env cfg s1" using m(2) by (simp add: good_def)
    from sv2_retarget_good [OF sound this, of api mo sh1 w1 dec] show ?thesis
      using m Continue FrameIn by (auto simp: sv2_step_def good_def split: sum.splits)
  next
    case Stop
    then show ?thesis using m FrameIn by (auto simp: sv2_step_def split: sum.splits)
  qed
next
  case (TemplateIn template clean)
  obtain go s1 sh1 w1 where p: "sv2_push_job env api mo template clean (s, sh, w) = (go, s1, sh1, w1)" by (metis prod_cases4)
  show ?thesis
  proof (cases go)
    case True
    have "sv2_push_job env api mo template clean (s, sh, w) = (True, s1, sh1, w1)" using p True by simp
    note g = sv2_push_good(1,2) [OF this ok] sv2_push_good(3) [OF this ok, of dec]
    from sv2_retarget_good [OF sound g(1), of api mo sh1 w1 dec] show ?thesis
      using p True g(2,3) TemplateIn by (auto simp: sv2_step_def good_def)
  next
    case False
    then show ?thesis using p TemplateIn by (auto simp: sv2_step_def)
  qed
next
  case TemplatesMissed
  then show ?thesis using sv2_retarget_good [OF sound ok, of api mo sh w dec] by (auto simp: sv2_step_def good_def)
qed (auto simp: sv2_step_def)

text \<open>The template announced last.\<close>

definition last_template :: "job_broadcast list \<Rightarrow> job_template option" where
  "last_template bs = (if bs = [] then None else Some (jb_template (last bs)))"

text \<open>
  A session with the announcements it has seen: it starts with the template served at that moment, every
  other event keeps the log, and between two events the rest of the pool may change in any way.
\<close>

inductive sv2_fed :: "('a, 'c, 'v, 'w) env \<Rightarrow> sv2_api \<Rightarrow> config \<Rightarrow> job_broadcast list \<Rightarrow> sv2_session \<Rightarrow> writer \<Rightarrow> bool" for env api cfg where
  start: "sv2_start peer cfg network random_u64 handshake t (sh :: ('c, 'w) shared) = (Some s, sh')
    \<Longrightarrow> pl_template (sh_pool sh) = last_template bs \<Longrightarrow> wr_out w = [] \<Longrightarrow> sv2_fed env api cfg bs s w"
| announced: "sv2_fed env api cfg bs s w \<Longrightarrow> sv2_step env api mo (TemplateIn (jb_template b) (jb_clean b)) (s, sh, w) = Some (True, s', sh', w')
    \<Longrightarrow> sv2_fed env api cfg (bs @ [b]) s' w'"
| other: "sv2_fed env api cfg bs s w \<Longrightarrow> \<forall>template clean. event \<noteq> TemplateIn template clean
    \<Longrightarrow> sv2_step env api mo event (s, sh, w) = Some (True, s', sh', w') \<Longrightarrow> sv2_fed env api cfg bs s' w'"

lemma sv2_start_ok:
  assumes "vd_cfg_ok (c_vardiff cfg)" "sv2_start peer cfg network random_u64 handshake t sh = (Some s, sh')"
  shows "sv2_ok env cfg s" "\<not> x2_channel_open s" "x2_pending_template s = pl_template (sh_pool sh)"
proof -
  have "share_set_inv share_set_new" by (simp add: share_set_inv_def share_set_new_def)
  moreover have "vd_current (vardiff_new c d now) = d" for c d now by (simp add: vardiff_new_def Let_def)
  moreover have "1 = number_of 0" by (simp add: number_of_def)
  ultimately have n: "sv2_ok env cfg (sv2_session_new peer cfg e network r t1 t2 t3 t4)"
    "\<not> x2_channel_open (sv2_session_new peer cfg e network r t1 t2 t3 t4)"
    "x2_pending_template (sv2_session_new peer cfg e network r t1 t2 t3 t4) = None" for e r t1 t2 t3 t4
    using vd_inv_new [OF assms(1)]
    by (auto simp: sv2_ok_def channel_ok_def driven_ok_def numbers_ok_def sv2_session_new_def Let_def issued_new_def)
  have "sv2_ok env cfg (u\<lparr>x2_pending_template := x\<rparr>) = sv2_ok env cfg u" for u x by (simp add: sv2_ok_def)
  then show "sv2_ok env cfg s" "\<not> x2_channel_open s" "x2_pending_template s = pl_template (sh_pool sh)" using assms(2) n
    by (auto simp: sv2_start_def Let_def split: prod.splits bool.splits option.splits if_splits)
qed

lemma sv2_step_kept:
  assumes "sound_pool env cfg" "sv2_ok env cfg s" "sv2_step env api mo event (s, sh, w) = Some (True, s', sh', w')"
  shows "sv2_ok env cfg s'" "codec_ok api dec \<Longrightarrow> told env api dec s w \<Longrightarrow> in_order s event \<Longrightarrow> told env api dec s' w'"
    "x2_pending_template s' = (case event of TemplateIn template _ \<Rightarrow> Some template | _ \<Rightarrow> x2_pending_template s)"
  using sv2_step_good [OF assms(1,2), of api mo event sh w] assms(3) by auto

text \<open>The invariant, and the template of a session is the last one announced to it.\<close>

lemma fed_ok:
  assumes "sound_pool env cfg" "sv2_fed env api cfg bs s w"
  shows "sv2_ok env cfg s \<and> x2_pending_template s = last_template bs"
  using assms(2)
proof induction
  case (start peer network random_u64 handshake t sh s sh' bs w)
  have "vd_cfg_ok (c_vardiff cfg)" using assms(1) by (simp add: sound_pool_def)
  then show ?case using sv2_start_ok(1,3) [OF _ start(1)] start(2) by simp
next
  case (announced bs s w mo b sh s' sh' w')
  then show ?case using sv2_step_kept(1,3) [OF assms(1) _ announced.hyps(2)] by (simp add: last_template_def)
next
  case (other bs s w event mo sh s' sh' w')
  then show ?case using sv2_step_kept(1,3) [OF assms(1) _ other.hyps(3)] by (cases event) auto
qed

text \<open>Announcements as the engine makes them keep the device on the parent of its live jobs.\<close>

lemma fed_told:
  assumes "sound_pool env cfg" "codec_ok api dec" "sv2_fed env api cfg bs s w" "broadcast_ok bs"
  shows "told env api dec s w"
  using assms(3,4)
proof induction
  case (start peer network random_u64 handshake t sh s sh' bs w)
  have "vd_cfg_ok (c_vardiff cfg)" using assms(1) by (simp add: sound_pool_def)
  then show ?case using sv2_start_ok(2) [OF _ start(1)] by (simp add: told_def)
next
  case (announced bs s w mo b sh s' sh' w')
  have ok: "sv2_ok env cfg s" "x2_pending_template s = last_template bs" using fed_ok [OF assms(1) announced.hyps(1)] by simp_all
  have "broadcast_ok bs" "in_order s (TemplateIn (jb_template b) (jb_clean b))"
    using announced.prems ok(2) unfolding broadcast_ok_def follows_snoc by (auto simp: in_order_def last_template_def split: if_splits)
  then show ?case using sv2_step_kept(2) [OF assms(1) ok(1) announced.hyps(2) assms(2)] announced.IH by blast
next
  case (other bs s w event mo sh s' sh' w')
  have ok: "sv2_ok env cfg s" using fed_ok [OF assms(1) other.hyps(1)] by simp
  have "in_order s event" using other.hyps(2) by (simp add: in_order_def)
  then show ?case using sv2_step_kept(2) [OF assms(1) ok other.hyps(3) assms(2)] other by blast
qed

end
