(* ===== verification/Tip.thy ===== *)
theory Tip
  imports Device
begin

text \<open>
  The properties of Stratum V2 sessions, and what they give together with the template engine: a device
  that is told every announcement always hashes on the parent block its shares are checked with.
\<close>

declare of_nat_unat [simp del]

section \<open>Channels\<close>

lemma sv2_ok_job:
  assumes "sv2_ok env cfg s" "e \<in> set (ij_entries (x2_issued_jobs s))"
  shows "\<exists>i counter template. x2_identity s = Some i
         \<and> fst (build_job_for_payout (ev_crates env) (ev_epoch env) counter template (mi_payout i) (x2_coinbase_tag s)
             (length (x2_extranonce_prefix s)) (x2_extranonce_size s)) = Inr (je_job e)
         \<and> sj_payout_address (je_job e) = pd_address (mi_payout i)"
proof -
  have addr: "sj_payout_address job = pd_address payout"
    if "fst (build_job_for_payout cr ep c t payout tag e1 e2) = Inr job" for cr ep c t payout tag e1 e2 job
    using that by (auto simp: build_job_for_payout_def bind_res_Inr Let_def split: prod.splits)
  obtain i counter template where "x2_identity s = Some i"
    "fst (build_job_for_payout (ev_crates env) (ev_epoch env) counter template (mi_payout i) (x2_coinbase_tag s)
             (length (x2_extranonce_prefix s)) (x2_extranonce_size s)) = Inr (je_job e)"
    using assms by (fastforce simp: sv2_ok_def channel_ok_def)
  then show ?thesis using addr by blast
qed

lemma sv2_ok_length:
  assumes "sv2_ok env cfg s"
  shows "length (x2_job_ids s) = length (ij_entries (x2_issued_jobs s))" "length (x2_job_ids s) \<le> 16"
proof -
  have "map snd (x2_job_ids s) = map (\<lambda>e. sj_job_id (je_job e)) (ij_entries (x2_issued_jobs s))" "numbers_ok s"
    using assms by (simp_all add: sv2_ok_def channel_ok_def)
  then show "length (x2_job_ids s) = length (ij_entries (x2_issued_jobs s))" "length (x2_job_ids s) \<le> 16"
    by (metis length_map) (use \<open>numbers_ok s\<close> in \<open>auto simp: numbers_ok_def\<close>)
qed

lemma sv2_ok_lookup:
  assumes "sv2_ok env cfg s" "k < length (ij_entries (x2_issued_jobs s))"
  shows "engine_job_id s (fst (x2_job_ids s ! k)) = Some (sj_job_id (je_job (ij_entries (x2_issued_jobs s) ! k)))"
proof -
  let ?ids = "x2_job_ids s"
  have ok: "numbers_ok s" "map snd ?ids = map (\<lambda>e. sj_job_id (je_job e)) (ij_entries (x2_issued_jobs s))"
    using assms(1) by (simp_all add: sv2_ok_def channel_ok_def)
  have k: "k < length ?ids" using assms(2) sv2_ok_length(1) [OF assms(1)] by simp
  have "find (\<lambda>(j, _). j = fst (?ids ! k)) ?ids = Some (?ids ! k)"
    using k numbers_distinct [OF ok(1)] unfolding find_Some_iff
    by (intro exI [of _ k]) (auto simp: case_prod_unfold distinct_conv_nth)
  then have "engine_job_id s (fst (?ids ! k)) = Some (snd (?ids ! k))" by (simp add: engine_job_id_def)
  also have "snd (?ids ! k) = map snd ?ids ! k" using k by simp
  finally show ?thesis using ok(2) assms(2) by simp
qed

text \<open>
  C13: A Stratum V2 session, whatever the device sends and whatever the rest of the pool does between two
  events, never panics; every job it holds, up to sixteen, was built for the payout of the identity
  the channel was opened with and for its extranonce split, which uses exactly the reserved bytes;
  and every job number the device may still use leads to the job announced under that number.
\<close>

theorem sv2_channel_sound:
  assumes "sound_pool env cfg" "sv2_fed env api cfg bs s w"
  shows "sv2_step env api mo event (s, sh, w) \<noteq> None
    \<and> (\<forall>e \<in> set (ij_entries (x2_issued_jobs s)). \<exists>i counter template. x2_identity s = Some i
         \<and> fst (build_job_for_payout (ev_crates env) (ev_epoch env) counter template (mi_payout i) (x2_coinbase_tag s)
             (length (x2_extranonce_prefix s)) (x2_extranonce_size s)) = Inr (je_job e)
         \<and> sj_payout_address (je_job e) = pd_address (mi_payout i))
    \<and> (x2_channel_open s \<longrightarrow> length (x2_extranonce_prefix s) + x2_extranonce_size s
         = pc_extranonce1_size (c_pool cfg) + pc_extranonce2_size (c_pool cfg))
    \<and> length (ij_entries (x2_issued_jobs s)) \<le> 16 \<and> length (x2_job_ids s) = length (ij_entries (x2_issued_jobs s))
    \<and> (\<forall>k < length (ij_entries (x2_issued_jobs s)).
         engine_job_id s (fst (x2_job_ids s ! k)) = Some (sj_job_id (je_job (ij_entries (x2_issued_jobs s) ! k))))
    \<and> (x2_difficulty s = pc_initial_difficulty (c_pool cfg)
       \<or> vc_min_difficulty (c_vardiff cfg) \<le> x2_difficulty s \<and> x2_difficulty s \<le> vc_max_difficulty (c_vardiff cfg))"
proof -
  have ok: "sv2_ok env cfg s" using fed_ok [OF assms] by simp
  note len = sv2_ok_length [OF ok]
  show ?thesis
    using sv2_step_good [OF assms(1) ok, of api mo event sh w] sv2_ok_job [OF ok] sv2_ok_lookup [OF ok] len ok
    by (simp add: sv2_ok_def channel_ok_def driven_ok_def) blast
qed

text \<open>
  C37: The target a channel is opened with is the one of the session's difficulty or the easiest one the
  device accepts, whichever is harder.
\<close>

theorem assigned_target_exact:
  assumes "length max_target = 32"
  shows "le_nat (assigned_target difficulty max_target) = min (DIFF1 div max 1 (unat difficulty)) (le_nat max_target)"
proof -
  have "length (difficulty_to_sv2_target difficulty) = 32" by (simp add: difficulty_to_sv2_target_def)
  then show ?thesis using sv2_target_le_value [of "difficulty_to_sv2_target difficulty" max_target] assms
    by (simp add: assigned_target_def Let_def sv2_target_value min_def)
qed

theorem assigned_target_exact_witness:
  "le_nat (assigned_target 1024 (replicate 32 0xFF)) = min (DIFF1 div 1024) (le_nat (replicate 32 0xFF))"
  using assigned_target_exact [of "replicate 32 0xFF" 1024] by simp

section \<open>No share twice\<close>


section \<open>On the parent the engine announced\<close>

lemma follows_prefix: "follows R p (bs @ later) \<Longrightarrow> follows R p bs"
  by (induction bs arbitrary: p) auto

text \<open>
  C14: A device that gets every announcement hashes on the right block.  Run the template engine on any
  tip signals and node answers, and a Stratum V2 session that is told its announcements one after
  another, among any other events: the previous hash last sent to the device is the one that every
  job it may still submit for is checked with.
\<close>

theorem sv2_device_follows_engine:
  assumes "sound_pool env cfg" "codec_ok api dec" "sv2_fed env api cfg bs s w"
    and "en_sent (fst (engine_run (ev_crates env) powf2 node now unix_secs events (engine_new rpc pool_cfg ps start, world))) = bs @ later"
    and "e \<in> set (ij_entries (x2_issued_jobs s))" "\<not> je_superseded_by_clean e"
  shows "\<exists>prev. stratum_prevhash_to_internal (ev_crates env) (sj_prev_hash (je_job e)) = Inr prev \<and> device_prev dec api (wr_out w) = Some prev"
proof -
  have "broadcast_ok (bs @ later)"
    using engine_run_ok [of "ev_crates env" powf2 node now unix_secs events rpc pool_cfg ps start world] assms(4)
    by (simp add: engine_ok_def Let_def)
  then have "broadcast_ok bs" unfolding broadcast_ok_def by (rule follows_prefix)
  then have t: "told env api dec s w" by (rule fed_told [OF assms(1-3)])
  have "sv2_ok env cfg s" using fed_ok [OF assms(1,3)] by simp
  then have "x2_channel_open s" using assms(5) by (auto simp: sv2_ok_def channel_ok_def)
  then show ?thesis using t assms(5,6) by (auto simp: told_def split: option.splits)
qed

lemma retarget_quiet:
  assumes "codec_ok api dec" "sv2_apply_retarget env api mo (s, sh, w) = Some (go, s', sh', w')"
  shows "parent_kept api w w'" "x2_issued_jobs s' = x2_issued_jobs s"
  using assms(2) quiet_send [OF assms(1), of SetTargetT w]
  by (auto simp: sv2_apply_retarget_def Let_def case_prod_unfold split: if_splits option.splits prod.splits sum.splits)

text \<open>
  C38: A session that missed announcements may leave its device on the wrong block.  Whatever it was told
  before, the next announcement that is not clean is sent without a previous hash: the device stays
  on the block it was on, and the new job is live although its parent may be another one.
\<close>

theorem sv2_missed_parent:
  assumes "codec_ok api dec" "x2_channel_open s"
    and "sv2_step env api mo (TemplateIn template False) (s, sh, w) = Some (True, s', sh', w')"
  shows "device_prev dec api (wr_out w') = device_prev dec api (wr_out w)
    \<and> (\<exists>e \<in> set (ij_entries (x2_issued_jobs s')). \<not> je_superseded_by_clean e \<and> sj_prev_hash (je_job e) = jt_prev_hash template)"
proof -
  obtain v sh1 w1 where p: "sv2_push_job env api mo template False (s, sh, w) = (True, v, sh1, w1)"
    "sv2_apply_retarget env api mo (v, sh1, w1) = Some (True, s', sh', w')"
    using assms(3) by (auto simp: sv2_step_def split: prod.splits if_splits)
  obtain u where u: "send_job env api mo template False (s, sh, w) = (True, u, sh1, w1)" "v = u\<lparr>x2_pending_template := Some template\<rparr>"
    using p(1) assms(2) by (auto simp: sv2_push_job_def Let_def split: prod.splits if_splits)
  obtain i job payload prevs where "x2_identity s = Some i" and j:
    "fst (build_job_for_payout (ev_crates env) (ev_epoch env) (pl_job_counter (sh_pool sh)) template (mi_payout i) (x2_coinbase_tag s)
       (length (x2_extranonce_prefix s)) (x2_extranonce_size s)) = Inr job"
    "u = (snd (assign_job_id (sj_job_id job) s))\<lparr>x2_issued_jobs := issue (x2_issued_jobs s) job False (x2_difficulty s) (mo_inst mo)\<rparr>"
    "wr_out w1 = wr_out w @ (x_type api NewExtendedJobT, True, payload) # prevs" "prevs = []"
    by (rule send_job_sent [OF u(1)]) simp
  have "sj_prev_hash job = jt_prev_hash template"
    using j(1) by (auto simp: build_job_for_payout_def bind_res_Inr Let_def split: prod.splits)
  moreover have "x2_issued_jobs s' = issue (x2_issued_jobs s) job False (x2_difficulty s) (mo_inst mo)"
    using retarget_quiet(2) [OF assms(1) p(2)] u(2) j(2) by simp
  moreover have "x_type api NewExtendedJobT \<noteq> x_type api NewPrevHashT" using assms(1) by (auto simp: codec_ok_def inj_def)
  then have "device_prev dec api (wr_out w1) = device_prev dec api (wr_out w)" using j(3,4) by (simp add: device_prev_append)
  ultimately show ?thesis using quiet_prev [OF retarget_quiet(1) [OF assms(1) p(2)], of dec] by (simp add: issue_entries)
qed

section \<open>A sample channel\<close>

definition sample_shared :: "(unit, unit) shared" where
  "sample_shared = \<lparr> sh_pool = sample_pool, sh_extranonce1_counter = 0x01020303, sh_channel_id = 1 \<rparr>"

definition sample_writer :: writer where
  "sample_writer = \<lparr> wr_out = [], wr_answers = [] \<rparr>"

definition sample_broadcast :: job_broadcast where
  "sample_broadcast = \<lparr> jb_template = sample_template, jb_clean = True \<rparr>"

lemma sample_codec: "codec_ok sample_sv2 Some"
proof -
  have "inj sample_type" by (rule injI) (auto simp: sample_type_def split: message_kind.splits)
  then show ?thesis by (auto simp: codec_ok_def sample_sv2_def)
qed

lemma sample_sound: "sound_pool sample_env small_config"
  using sample_env_sound by (simp add: sound_pool_def sound_env_def small_config_def sample_config_def)

text \<open>The fields the frames of the sample read, with an open writer.\<close>

definition fresh_channel :: "rat \<Rightarrow> sv2_session \<Rightarrow> writer \<Rightarrow> bool" where
  "fresh_channel tokens s w \<longleftrightarrow> sv2_fed sample_env sample_sv2 small_config [sample_broadcast] s w \<and> wr_answers w = []
     \<and> sg_share_rate (x2_guard s) = \<lparr> tb_tokens = Fin tokens, tb_max_per_sec = Fin 10, tb_last_refill = 0 \<rparr>
     \<and> sg_max_worker_name_len (x2_guard s) = 128 \<and> sg_max_message_bytes (x2_guard s) = sc_max_message_bytes (c_security small_config)
     \<and> sg_max_authorizations (x2_guard s) = 8 \<and> sg_authorizations (x2_guard s) = 0
     \<and> x2_network s = Bitcoin \<and> x2_pending_template s = Some sample_template \<and> x2_coinbase_tag s = ''/p/''
     \<and> x2_extranonce_total s = 8 \<and> \<not> x2_channel_open s \<and> x2_next_job_id s = 1 \<and> x2_job_ids s = []
     \<and> vd_first_share (x2_vardiff s) = None \<and> x2_difficulty s = 1024 \<and> vc_min_difficulty (x2_vardiff_cfg s) = 1
     \<and> x2_identity s = None \<and> ij_entries (x2_issued_jobs s) = [] \<and> ss_seen (x2_share_set s) = {}"

lemma sample_channel_start:
  obtains s where "fresh_channel 10 s sample_writer"
proof -
  define s0 where "s0 = (sv2_session_new (V4 1) small_config [1, 2, 3, 3] Bitcoin 7 0 0 0 0)\<lparr>x2_pending_template := Some sample_template\<rparr>"
  have "generate_extranonce1 4 0x01020303 = ([1, 2, 3, 3], 0x01020304)"
    by (simp add: generate_extranonce1_def Let_def to_be_def to_le_numeral)
  then have "\<exists>sh'. sv2_start (V4 1) small_config Bitcoin 7 True (\<lambda>_. 0) sample_shared = (Some s0, sh')"
    by (simp add: sv2_start_def sample_shared_def sample_pool_def is_banned_def ban_list_new_def s0_def small_config_def sample_config_def Let_def)
  then obtain sh' where st: "sv2_start (V4 1) small_config Bitcoin 7 True (\<lambda>_. 0) sample_shared = (Some s0, sh')" ..
  have "sv2_fed sample_env sample_sv2 small_config [sample_broadcast] s0 sample_writer"
    by (rule sv2_fed.start [OF st]) (simp_all add: sample_shared_def sample_pool_def sample_writer_def last_template_def sample_broadcast_def)
  moreover have "sg_share_rate (x2_guard s0) = \<lparr> tb_tokens = Fin 10, tb_max_per_sec = Fin 10, tb_last_refill = 0 \<rparr>"
    using f64_of_nat_exact [of 10]
    by (simp add: s0_def sv2_session_new_def session_guard_new_def share_rate_new_def small_config_def sample_config_def Let_def f64_of_word_def)
  ultimately have "fresh_channel 10 s0 sample_writer" unfolding fresh_channel_def
    by (simp add: s0_def sv2_session_new_def session_guard_new_def small_config_def sample_config_def Let_def vardiff_new_def
        issued_new_def share_set_new_def sample_writer_def)
  then show thesis by (rule that)
qed

text \<open>A frame that is handled and answered goes on to the retarget check.\<close>

lemma frame_step:
  assumes "length payload \<le> sg_max_message_bytes (x2_guard s)"
    and "sv2_handle_message env api mo ty payload (s, sh, w) = Some (Continue, s1, sh1, w1)"
    and "vd_first_share (x2_vardiff s1) = None"
  shows "\<exists>vd. vd_first_share vd = None \<and> sv2_step env api mo (FrameIn ty payload) (s, sh, w) = Some (True, s1\<lparr>x2_vardiff := vd\<rparr>, sh1, w1)"
proof -
  have "check_retarget ex vd now net = Some (None, vd_decay ex vd (Fin 0) now)" if "vd_first_share vd = None" for ex vd now net
    using that by (simp add: check_retarget_def vd_decay_def Let_def)
  then have r: "x2_channel_open s1 \<Longrightarrow> sv2_apply_retarget env api mo (s1, sh1, w1) =
      Some (True, s1\<lparr>x2_vardiff := vd_decay (ev_exp env) (x2_vardiff s1) (Fin 0) (mo_retarget mo)\<rparr>, sh1, w1)"
    using assms(3) by (simp add: sv2_apply_retarget_def)
  have "\<not> x2_channel_open s1 \<Longrightarrow> sv2_apply_retarget env api mo (s1, sh1, w1) = Some (True, s1\<lparr>x2_vardiff := x2_vardiff s1\<rparr>, sh1, w1)"
    by (simp add: sv2_apply_retarget_def)
  then show ?thesis using assms r
    by (intro exI [of _ "if x2_channel_open s1 then vd_decay (ev_exp env) (x2_vardiff s1) (Fin 0) (mo_retarget mo) else x2_vardiff s1"])
      (simp add: sv2_step_def check_message_size_def)
qed

lemma sample_types: "x_type sample_sv2 SetupConnectionT = 0" "x_type sample_sv2 OpenExtendedT = 3"
  by (simp_all add: sample_sv2_def sample_type_def)

lemma sample_channel_setup:
  obtains s w where "fresh_channel 9 s w" "x2_setup_done s"
proof -
  obtain s where s: "fresh_channel 10 s sample_writer" by (rule sample_channel_start)
  let ?g = "(x2_guard s)\<lparr>sg_share_rate := \<lparr> tb_tokens = Fin 9, tb_max_per_sec = Fin 10, tb_last_refill = 0 \<rparr>\<rparr>"
  let ?u = "s\<lparr>x2_guard := ?g, x2_setup_done := True\<rparr>"
  let ?w = "\<lparr> wr_out = [(1, False, [])], wr_answers = [] \<rparr>"
  have d: "decode_setup_connection sample_sv2 [] = Inr \<lparr> sc_protocol = MiningProtocol, sc_min_version = 2, sc_max_version = 2, sc_flags = 0 \<rparr>"
    "setup_connection_success sample_sv2 2 = Inr []" "x_type sample_sv2 SetupConnectionSuccessT = 1"
    by (simp_all add: decode_setup_connection_def setup_connection_success_def encode_def map_err_def sample_sv2_def sample_type_def)
  have w: "sv2_handle_message sample_env sample_sv2 sample_moment 0 [] (s, sample_shared, sample_writer) = Some (Continue, ?u, sample_shared, ?w)"
    using s sample_tokens(1)
    by (simp add: fresh_channel_def sv2_handle_message_def sample_types handle_setup_connection_def d reply_def wr_send_def
        sample_writer_def SV2_PROTOCOL_VERSION_def)
  obtain vd where vd: "vd_first_share vd = None"
    "sv2_step sample_env sample_sv2 sample_moment (FrameIn 0 []) (s, sample_shared, sample_writer) = Some (True, ?u\<lparr>x2_vardiff := vd\<rparr>, sample_shared, ?w)"
    using frame_step [OF _ w] s by (auto simp: fresh_channel_def)
  have "sv2_fed sample_env sample_sv2 small_config [sample_broadcast] (?u\<lparr>x2_vardiff := vd\<rparr>) ?w"
    using s by (intro sv2_fed.other [OF _ _ vd(2)]) (simp_all add: fresh_channel_def)
  then have "fresh_channel 9 (?u\<lparr>x2_vardiff := vd\<rparr>) ?w" using s vd(1) by (simp add: fresh_channel_def)
  then show thesis by (rule that) simp
qed

text \<open>Sending the sample job.\<close>

lemma sample_send_job:
  assumes job: "sample_job = Inr job"
    and v: "x2_identity v = Some sample_identity" "x2_coinbase_tag v = ''/p/''" "length (x2_extranonce_prefix v) = 4" "x2_extranonce_size v = 4"
      "x2_next_job_id v = 1" "x2_job_ids v = []" "pl_job_counter (sh_pool sh) = 1" "wr_answers w = []"
  shows "\<exists>sh' w'. wr_answers w' = [] \<and> send_job sample_env sample_sv2 sample_moment sample_template True (v, sh, w) =
    (True, v\<lparr>x2_next_job_id := 2, x2_job_ids := [(1, show_hex 16 1)],
       x2_issued_jobs := issue (x2_issued_jobs v) job True (x2_difficulty v) 0\<rparr>, sh', w')"
proof -
  have "fst (build_job_for_payout sample_crates 0 1 sample_template sample_payout ''/p/'' 4 4) = Inr job" using job by (simp add: sample_job_def)
  then obtain c where b: "build_job_for_payout sample_crates 0 1 sample_template sample_payout ''/p/'' 4 4 = (Inr job, c)" by (metis prod.collapse)
  obtain nj np where m: "build_new_extended_job sample_sv2 job (x2_channel_id v) 1 True = Inr nj" "build_set_new_prev_hash sample_crates job (x2_channel_id v) 1 = Inr np"
    by (rule sample_sv2_job [OF job])
  have i: "assign_job_id (sj_job_id job) v = (1, v\<lparr>x2_next_job_id := 2, x2_job_ids := [(1, show_hex 16 1)]\<rparr>)"
    using v sample_job_fields(10) [OF job] by (simp add: assign_job_id_def Let_def)
  have e: "ev_crates sample_env = sample_crates" "ev_epoch sample_env = 0" "mi_payout sample_identity = sample_payout"
    by (simp_all add: sample_env_def sample_identity_def)
  have "\<exists>p. encode sample_sv2 m = Inr p" for m by (simp add: encode_def map_err_def sample_sv2_def)
  then obtain p1 p2 where p: "encode sample_sv2 (NewExtendedJob nj) = Inr p1" "encode sample_sv2 (NewPrevHash np) = Inr p2" by metis
  show ?thesis
    by (simp add: send_job_def v b e i m p bind_str_def wr_send_def)
qed

lemma sample_open: "decode_open_extended sample_sv2 [] =
    Inr \<lparr> oe_request_id = 1, oe_user_identity = ''bc1q'', oe_max_target = replicate 32 0xFF, oe_min_extranonce_size = 4 \<rparr>"
proof -
  have "utf8_lossy [98, 99, 49, 113] = [98, 99, 49, 113]" by (rule utf8_lossy_id, rule utf8_valid_ascii) simp
  moreover have "string_of [98, 99, 49, 113] = ''bc1q''" by (simp add: string_of_def char_of_def bit_0)
  ultimately show ?thesis by (simp add: decode_open_extended_def map_err_def sample_sv2_def)
qed

lemma sample_open_channel:
  assumes "wr_answers w = []" "x2_extranonce_total c = 8" "x2_difficulty c = 1024" "x2_pending_template c = Some sample_template"
  obtains sh2 w2 where "wr_answers w2 = []" "pl_job_counter (sh_pool sh2) = 1"
    "open_channel sample_env sample_sv2 sample_moment \<lparr> oe_request_id = 1, oe_user_identity = ''bc1q'', oe_max_target = replicate 32 0xFF,
           oe_min_extranonce_size = 4 \<rparr> sample_identity True 4 (c, sample_shared\<lparr>sh_extranonce1_counter := 0x01020304\<rparr>, w)
       = (let (ok, st) = send_job sample_env sample_sv2 sample_moment sample_template True
            (c\<lparr>x2_extranonce_size := 4, x2_extranonce_prefix := [1, 2, 3, 4], x2_channel_id := 1, x2_worker := Some ''bc1q'',
               x2_identity := Some sample_identity, x2_channel_open := True\<rparr>, sh2, w2)
          in (if ok then Continue else Stop ''write'', st))"
proof -
  have gen: "generate_extranonce1 4 0x01020304 = ([1, 2, 3, 4], 0x01020305)"
    by (simp add: generate_extranonce1_def Let_def to_be_def to_le_numeral)
  obtain p where p: "open_extended_success sample_sv2 1 1 (assigned_target 1024 (replicate 32 0xFF)) 4 [1, 2, 3, 4] = Inr p"
    by (simp add: open_extended_success_def fitting_def bind_str_def encode_def map_err_def sample_sv2_def)
  let ?w2 = "w\<lparr>wr_out := wr_out w @ [(x_type sample_sv2 OpenExtendedSuccessT, False, p)], wr_answers := []\<rparr>"
  let ?p2 = "sample_pool\<lparr>pl_stats := set_worker_protocol (mi_canonical_name sample_identity) ''sv2''
    (mark_worker_online (mi_canonical_name sample_identity) 1024 (mo_ts sample_moment 0) (pl_stats sample_pool))\<rparr>"
  show thesis using assms p
    by (intro that [of ?w2 "\<lparr> sh_pool = ?p2, sh_extranonce1_counter = 0x01020305, sh_channel_id = 2 \<rparr>"])
      (simp_all add: open_channel_def gen sample_shared_def sample_pool_def reply_def wr_send_def Let_def)
qed

text \<open>The opened channel with its first job.\<close>

lemma sample_channel:
  obtains s w job where "sv2_fed sample_env sample_sv2 small_config [sample_broadcast] s w" "sample_job = Inr job" "wr_answers w = []"
    "x2_channel_open s" "x2_identity s = Some sample_identity" "x2_coinbase_tag s = ''/p/''" "vd_first_share (x2_vardiff s) = None"
    "ij_entries (x2_issued_jobs s) = [\<lparr> je_job = job, je_created_at = 0, je_superseded_by_clean = False, je_difficulty = 1024 \<rparr>]"
    "x2_job_ids s = [(1, show_hex 16 1)]" "x2_extranonce_prefix s = [1, 2, 3, 4]" "x2_extranonce_size s = 4"
    "ss_seen (x2_share_set s) = {}" "vc_min_difficulty (x2_vardiff_cfg s) = 1"
    "sg_share_rate (x2_guard s) = \<lparr> tb_tokens = Fin 8, tb_max_per_sec = Fin 10, tb_last_refill = 0 \<rparr>"
    "sg_max_message_bytes (x2_guard s) = sc_max_message_bytes (c_security small_config)" "x2_channel_id s = 1"
proof -
  obtain s w where s: "fresh_channel 9 s w" "x2_setup_done s" by (rule sample_channel_setup)
  obtain job where job: "sample_job = Inr job" using sample_job_Inr by blast
  let ?sh = "sample_shared\<lparr>sh_extranonce1_counter := 0x01020304\<rparr>"
  let ?g = "(x2_guard s)\<lparr>sg_share_rate := \<lparr> tb_tokens = Fin 8, tb_max_per_sec = Fin 10, tb_last_refill = 0 \<rparr>\<rparr>"
  let ?c = "s\<lparr>x2_guard := ?g\<lparr>sg_authorizations := 1\<rparr>, x2_worker := None, x2_identity := None\<rparr>"
  let ?v = "?c\<lparr>x2_extranonce_size := 4, x2_extranonce_prefix := [1, 2, 3, 4], x2_channel_id := 1, x2_worker := Some ''bc1q'',
    x2_identity := Some sample_identity, x2_channel_open := True\<rparr>"
  have claim: "claim_identity sample_identity (s\<lparr>x2_guard := ?g\<rparr>, p) = (True, True, ?c, p)" for p :: "(unit, unit) pool"
    using s by (simp add: claim_identity_def fresh_channel_def sv2_stats_worker_def record_new_authorization_def Let_def)
  obtain sh2 w2 where o: "wr_answers w2 = []" "pl_job_counter (sh_pool sh2) = 1"
    "open_channel sample_env sample_sv2 sample_moment \<lparr> oe_request_id = 1, oe_user_identity = ''bc1q'', oe_max_target = replicate 32 0xFF,
           oe_min_extranonce_size = 4 \<rparr> sample_identity True 4 (?c, ?sh, w)
       = (let (ok, st) = send_job sample_env sample_sv2 sample_moment sample_template True (?v, sh2, w2) in (if ok then Continue else Stop ''write'', st))"
    by (rule sample_open_channel [of w ?c]) (use s in \<open>simp_all add: fresh_channel_def\<close>)
  have v: "x2_identity ?v = Some sample_identity" "x2_coinbase_tag ?v = ''/p/''" "length (x2_extranonce_prefix ?v) = 4" "x2_extranonce_size ?v = 4"
      "x2_next_job_id ?v = 1" "x2_job_ids ?v = []" using s by (simp_all add: fresh_channel_def)
  obtain sh3 w3 where d: "wr_answers w3 = []" "send_job sample_env sample_sv2 sample_moment sample_template True (?v, sh2, w2) =
    (True, ?v\<lparr>x2_next_job_id := 2, x2_job_ids := [(1, show_hex 16 1)],
       x2_issued_jobs := issue (x2_issued_jobs ?v) job True (x2_difficulty ?v) 0\<rparr>, sh3, w3)"
    using sample_send_job [OF job v o(2,1)] by blast
  let ?z = "?v\<lparr>x2_next_job_id := 2, x2_job_ids := [(1, show_hex 16 1)], x2_issued_jobs := issue (x2_issued_jobs ?v) job True (x2_difficulty ?v) 0\<rparr>"
  have o': "open_channel sample_env sample_sv2 sample_moment \<lparr> oe_request_id = 1, oe_user_identity = ''bc1q'', oe_max_target = replicate 32 0xFF,
      oe_min_extranonce_size = 4 \<rparr> sample_identity True 4 (?c, ?sh, w) = (Continue, ?z, sh3, w3)"
    unfolding o(3) d(2) by simp
  have h: "sv2_handle_message sample_env sample_sv2 sample_moment 3 [] (s, ?sh, w) = Some (Continue, ?z, sh3, w3)"
    using s sample_tokens(2) sample_name_ok sample_identity_parse
    by (simp add: sv2_handle_message_def handle_open_extended_def check_worker_name_def fresh_channel_def sample_types sample_open claim o' Let_def)
  obtain vd where vd: "vd_first_share vd = None"
    "sv2_step sample_env sample_sv2 sample_moment (FrameIn 3 []) (s, ?sh, w) = Some (True, ?z\<lparr>x2_vardiff := vd\<rparr>, sh3, w3)"
    using frame_step [OF _ h] s by (auto simp: fresh_channel_def)
  have "sv2_fed sample_env sample_sv2 small_config [sample_broadcast] (?z\<lparr>x2_vardiff := vd\<rparr>) w3"
    using s by (intro sv2_fed.other [OF _ _ vd(2)]) (simp_all add: fresh_channel_def)
  from that [OF this job d(1)] show thesis using s vd(1) by (simp add: fresh_channel_def issue_entries)
qed

section \<open>A sample engine\<close>

text \<open>A node whose every answer is the block template of the sample.\<close>

definition sample_field :: "string \<Rightarrow> (string + u64) option" where
  "sample_field key =
     (if key = ''version'' then Some (Inr 0x20000000)
      else if key = ''previousblockhash'' then Some (Inl (concat (replicate 32 ''00'')))
      else if key = ''bits'' then Some (Inl ''207fffff'')
      else if key = ''curtime'' then Some (Inr 1700000000)
      else if key = ''height'' then Some (Inr 1)
      else if key = ''coinbasevalue'' then Some (Inr 5000000000) else None)"

definition tip_node :: "(unit, string + u64, unit) node_api" where
  "tip_node = \<lparr> n_call = \<lambda>c f xs w. (Inr (Inl []), w), n_best_block_hash = \<lambda>c w. (Inr [], w),
     n_header_confirmations = \<lambda>c h w. (Inr 0, w), n_block_count = \<lambda>c w. (Inr 0, w), n_block_hash = \<lambda>c n w. (Inr [], w),
     n_header_time = \<lambda>c h w. (Inr 0, w), n_parse_block_hash = \<lambda>s. None, n_read_cookie = \<lambda>w. None, n_build_client = \<lambda>c. Inr (),
     j_get = \<lambda>v. sample_field, j_as_str = \<lambda>v. case v of Inl s \<Rightarrow> Some s | Inr n \<Rightarrow> None,
     j_as_u64 = \<lambda>v. case v of Inl s \<Rightarrow> None | Inr n \<Rightarrow> Some n, j_as_array = \<lambda>v. None, j_is_null = \<lambda>v. False,
     j_string = Inl, j_gbt_request = Inl [] \<rparr>"

definition tip_gbt :: gbt_result where
  "tip_gbt = \<lparr> g_version = 0x20000000, g_prev_hash = concat (replicate 32 ''00''), g_bits = ''207fffff'',
     g_cur_time = 1700000000, g_height = 1, g_coinbase_value = 5000000000, g_transactions = [],
     g_longpoll_id = None, g_default_witness_commitment = None, g_rules = [], g_vbrequired = 0 \<rparr>"

lemma tip_node_gbt: "get_block_template cr tip_node st w = (Inr tip_gbt, st, w)"
  by (simp add: get_block_template_def call_with_refresh_def lift_rpc_def parse_gbt_def value_as_u32_def value_as_u64_def value_as_string_def
      tip_node_def sample_field_def ok_or_def tip_gbt_def del: list.map)

lemma tip_template: "build_job_template sample_crates tip_gbt = Inr sample_template"
proof -
  have "u32_from_hex ''207fffff'' = Some 0x207fffff" by (simp add: u32_from_hex_def hex_digit_def)
  then have b: "bits_to_target ''207fffff'' = Inr ([0x7f, 0xff, 0xff] @ replicate 29 0)"
    by (simp add: bits_to_target_def compact_to_target_def Let_def replicate_numeral)
  have "hex_decode sample_crates (concat (replicate 32 ''00'')) = Some (replicate 32 0)"
    using sample_zero_prev sample_crates_ok(1) by (simp add: hex_ok_def split: option.splits if_splits)
  moreover have "rev_words (replicate 32 0) = replicate 32 0" by (simp add: replicate_numeral)
  moreover have "show_hex 2 0 = ''00''" by code_simp
  then have "hex_encode sample_crates (replicate 32 0) = concat (replicate 32 ''00'')" by (simp add: sample_crates_def sample_hex_encode_def)
  ultimately have p: "stratum_prev_hash sample_crates (concat (replicate 32 ''00'')) = Inr (concat (replicate 32 ''00''))"
    by (simp add: stratum_prev_hash_def ok_or_def)
  show ?thesis
    by (simp add: build_job_template_def tip_gbt_def b p sample_template_def witness_commitment_of_def announces_segwit_def check_block_weight_def
        MAX_BLOCK_WEIGHT_def COINBASE_WEIGHT_RESERVE_def word_less_nat_alt compute_merkle_branch_raw_def Let_def)
qed

text \<open>A run of the engine whose only announcement is the one of the sample channel.\<close>

lemma sample_engine:
  "en_sent (fst (engine_run sample_crates (\<lambda>x. x) tip_node 0 0 [] (engine_new \<lparr> r_client = (), r_cookie = None \<rparr> (c_pool small_config)
     (pl_stats sample_pool) 0, ()))) = [sample_broadcast]"
proof -
  have "unsupported_gbt_rules tip_gbt = []" by (simp add: unsupported_gbt_rules_def tip_gbt_def)
  then show ?thesis
    by (simp add: engine_run_def refresh_def tip_node_gbt check_template_rules_def tip_template publish_def engine_new_def
        should_force_clean_def sample_broadcast_def Let_def)
qed

section \<open>Witnesses\<close>

lemma sample_internal_prev: "stratum_prevhash_to_internal sample_crates (concat (replicate 32 ''00'')) = Inr (replicate 32 0)"
proof -
  have "hex_decode sample_crates (concat (replicate 32 ''00'')) = Some (replicate 32 0)"
    using sample_zero_prev sample_crates_ok(1) by (simp add: hex_ok_def split: option.splits if_splits)
  moreover have "rev_words (replicate 32 0) = replicate 32 0" by (simp add: replicate_numeral)
  ultimately show ?thesis by (simp add: stratum_prevhash_to_internal_def)
qed

theorem sv2_channel_sound_witness:
  "\<exists>s w e. sound_pool sample_env small_config \<and> sv2_fed sample_env sample_sv2 small_config [sample_broadcast] s w
    \<and> e \<in> set (ij_entries (x2_issued_jobs s))
    \<and> sv2_step sample_env sample_sv2 sample_moment (FrameIn 3 []) (s, sample_shared, w) \<noteq> None
    \<and> engine_job_id s (fst (x2_job_ids s ! 0)) = Some (sj_job_id (je_job (ij_entries (x2_issued_jobs s) ! 0)))"
proof -
  obtain s w job where s: "sv2_fed sample_env sample_sv2 small_config [sample_broadcast] s w"
    "ij_entries (x2_issued_jobs s) = [\<lparr> je_job = job, je_created_at = 0, je_superseded_by_clean = False, je_difficulty = 1024 \<rparr>]"
    by (rule sample_channel)
  then show ?thesis using sample_sound sv2_channel_sound [OF sample_sound s(1), of sample_moment "FrameIn 3 []" sample_shared]
    by (intro exI [of _ s] exI [of _ w]) simp
qed


theorem sv2_device_follows_engine_witness:
  "\<exists>s w e. sound_pool sample_env small_config \<and> codec_ok sample_sv2 Some
    \<and> sv2_fed sample_env sample_sv2 small_config [sample_broadcast] s w
    \<and> e \<in> set (ij_entries (x2_issued_jobs s)) \<and> \<not> je_superseded_by_clean e
    \<and> device_prev Some sample_sv2 (wr_out w) = Some (replicate 32 0)"
proof -
  obtain s w job where s: "sv2_fed sample_env sample_sv2 small_config [sample_broadcast] s w" "sample_job = Inr job"
    "ij_entries (x2_issued_jobs s) = [\<lparr> je_job = job, je_created_at = 0, je_superseded_by_clean = False, je_difficulty = 1024 \<rparr>]"
    by (rule sample_channel)
  have e: "ev_crates sample_env = sample_crates" by (simp add: sample_env_def)
  have "stratum_prevhash_to_internal sample_crates (sj_prev_hash job) = Inr (replicate 32 0)"
    using sample_job_fields(1) [OF s(2)] sample_internal_prev by simp
  then show ?thesis
    using sv2_device_follows_engine [OF sample_sound sample_codec s(1), of "\<lambda>x. x" tip_node 0 0 "[]" "\<lparr> r_client = (), r_cookie = None \<rparr>"
        "c_pool small_config" "pl_stats sample_pool" 0 "()" "[]"] sample_engine sample_sound sample_codec s e
    by (intro exI [of _ s] exI [of _ w]) simp
qed

text \<open>A template on another parent gives the same job but for the parent.\<close>

lemma job_other_parent:
  assumes "fst (build_job_for_payout cr ep counter t payout tag e1 e2) = Inr job"
  shows "fst (build_job_for_payout cr ep counter (t\<lparr>jt_prev_hash := h\<rparr>) payout tag e1 e2) = Inr (job\<lparr>sj_prev_hash := h\<rparr>)"
  using assms by (auto simp: build_job_for_payout_def bind_res_def Let_def split: prod.splits sum.splits)

lemma sample_missed_step:
  assumes "sample_job = Inr job" "x2_channel_open s" "x2_identity s = Some sample_identity" "x2_coinbase_tag s = ''/p/''"
    "length (x2_extranonce_prefix s) = 4" "x2_extranonce_size s = 4" "vd_first_share (x2_vardiff s) = None" "wr_answers w = []"
  shows "\<exists>s' sh' w'. sv2_step sample_env sample_sv2 sample_moment (TemplateIn (sample_template\<lparr>jt_prev_hash := h\<rparr>) False) (s, sample_shared, w)
    = Some (True, s', sh', w')"
proof -
  have "fst (build_job_for_payout sample_crates 0 1 sample_template sample_payout ''/p/'' 4 4) = Inr job" using assms(1) by (simp add: sample_job_def)
  then have "fst (build_job_for_payout sample_crates 0 1 (sample_template\<lparr>jt_prev_hash := h\<rparr>) sample_payout ''/p/'' 4 4) = Inr (job\<lparr>sj_prev_hash := h\<rparr>)"
    by (rule job_other_parent)
  then obtain c where b: "build_job_for_payout sample_crates 0 1 (sample_template\<lparr>jt_prev_hash := h\<rparr>) sample_payout ''/p/'' 4 4
      = (Inr (job\<lparr>sj_prev_hash := h\<rparr>), c)" by (metis prod.collapse)
  obtain i v where i: "assign_job_id (sj_job_id job) s = (i, v)" by (metis prod.collapse)
  obtain nj where "build_new_extended_job sample_sv2 job (x2_channel_id v) i False = Inr nj"
    by (rule sample_sv2_job [OF assms(1)])
  then have m: "build_new_extended_job sample_sv2 (job\<lparr>sj_prev_hash := h\<rparr>) (x2_channel_id v) i False = Inr nj"
    by (simp add: build_new_extended_job_def)
  have e: "ev_crates sample_env = sample_crates" "ev_epoch sample_env = 0" "mi_payout sample_identity = sample_payout"
    "pl_job_counter sample_pool = 1"
    by (simp_all add: sample_env_def sample_identity_def sample_pool_def)
  have p: "encode sample_sv2 (NewExtendedJob nj) = Inr []" by (simp add: encode_def map_err_def sample_sv2_def)
  have "vd_first_share (x2_vardiff v) = None" "x2_channel_open v" using i assms(2,7) by (auto simp: assign_job_id_def Let_def)
  then have "check_retarget ex (x2_vardiff v) now net = Some (None, vd_decay ex (x2_vardiff v) (Fin 0) now)" for ex now net
    by (simp add: check_retarget_def vd_decay_def Let_def)
  then show ?thesis using assms
    by (simp add: sv2_step_def sv2_push_job_def send_job_def b e i m p bind_str_def wr_send_def sv2_apply_retarget_def sample_shared_def Let_def)
qed

theorem sv2_missed_parent_witness:
  "\<exists>s w s' sh' w' e. codec_ok sample_sv2 Some \<and> x2_channel_open s
    \<and> sv2_step sample_env sample_sv2 sample_moment (TemplateIn (sample_template\<lparr>jt_prev_hash := concat (replicate 32 ''0a'')\<rparr>) False)
        (s, sample_shared, w) = Some (True, s', sh', w')
    \<and> device_prev Some sample_sv2 (wr_out w') = Some (replicate 32 0)
    \<and> e \<in> set (ij_entries (x2_issued_jobs s')) \<and> \<not> je_superseded_by_clean e \<and> sj_prev_hash (je_job e) = concat (replicate 32 ''0a'')"
proof -
  obtain s w job where s: "sv2_fed sample_env sample_sv2 small_config [sample_broadcast] s w" "sample_job = Inr job" "x2_channel_open s"
    "ij_entries (x2_issued_jobs s) = [\<lparr> je_job = job, je_created_at = 0, je_superseded_by_clean = False, je_difficulty = 1024 \<rparr>]"
    "x2_identity s = Some sample_identity" "x2_coinbase_tag s = ''/p/''" "x2_extranonce_prefix s = [1, 2, 3, 4]" "x2_extranonce_size s = 4"
    "vd_first_share (x2_vardiff s) = None" "wr_answers w = []"
    by (rule sample_channel)
  obtain s' sh' w' where st: "sv2_step sample_env sample_sv2 sample_moment
      (TemplateIn (sample_template\<lparr>jt_prev_hash := concat (replicate 32 ''0a'')\<rparr>) False) (s, sample_shared, w) = Some (True, s', sh', w')"
    using sample_missed_step [OF s(2,3,5,6) _ s(8-10), of "concat (replicate 32 ''0a'')"] s(7) by auto
  have "broadcast_ok [sample_broadcast]" by (simp add: broadcast_ok_def sample_broadcast_def)
  then have "told sample_env sample_sv2 Some s w" by (rule fed_told [OF sample_sound sample_codec s(1)])
  then have "device_prev Some sample_sv2 (wr_out w) = Some (replicate 32 0)"
    using s(3,4) sample_internal_prev sample_job_fields(1) [OF s(2)]
    by (auto simp: told_def sample_env_def split: option.splits)
  then show ?thesis using sv2_missed_parent [OF sample_codec s(3) st] s(3) st sample_codec by fastforce
qed

end
