(* ===== verification/Lines.thy ===== *)
theory Lines
  imports Duplicates Utf8
begin

text \<open>
  How a Stratum V1 session cuts its input into lines (\<open>read_line_bounded\<close> of
  \<open>src/network/session.rs\<close>), and the select loop around it, which drops a read that is still
  waiting for input when a job arrives first.
\<close>

declare of_nat_unat [simp del]

section \<open>Reading one line\<close>

text \<open>
  What happens while a read waits: the buffered reader has bytes (none at the end of the input), the
  read fails or its deadline passes, or the other branch of the \<open>select!\<close> completes with an event.
\<close>

datatype arrival = Data bytes | Fail | Aside session_event

datatype read_result = Line nat | NoLine | TooLarge | ReadFails | Dropped session_event | Waiting

definition strip_cr :: "bytes \<Rightarrow> bytes" where
  "strip_cr buf = (if buf \<noteq> [] \<and> last buf = 13 then butlast buf else buf)"

definition unread :: "bytes \<Rightarrow> arrival list \<Rightarrow> arrival list" where
  "unread xs r = (if xs = [] then r else Data xs # r)"

fun read_line_loop :: "nat \<Rightarrow> bytes \<Rightarrow> arrival list \<Rightarrow> read_result \<times> bytes \<times> arrival list" where
  "read_line_loop limit buf [] = (Waiting, buf, [])"
| "read_line_loop limit buf (Fail # r) = (ReadFails, buf, r)"
| "read_line_loop limit buf (Aside e # r) = (Dropped e, buf, r)"
| "read_line_loop limit buf (Data available # r) =
     (if available = [] then (if buf = [] then NoLine else Line (length buf), buf, Data [] # r)
      else if 10 \<in> set available
      then let line = takeWhile (\<lambda>b. b \<noteq> 10) available; rest = drop (length line + 1) available;
               buf = strip_cr (buf @ line)
           in (if length buf > limit then TooLarge else Line (length buf), buf, unread rest r)
      else let buf = buf @ available in
           if length buf > limit then (TooLarge, buf, r) else read_line_loop limit buf r)"

text \<open>Every call clears the buffer first.\<close>

definition read_line_bounded :: "nat \<Rightarrow> arrival list \<Rightarrow> read_result \<times> bytes \<times> arrival list" where
  "read_line_bounded limit r = read_line_loop limit [] r"

text \<open>The event the session loop gets from one \<open>select!\<close>; \<open>None\<close> while it waits.\<close>

definition next_event :: "nat \<Rightarrow> arrival list \<Rightarrow> session_event option \<times> arrival list" where
  "next_event limit r =
     (case read_line_bounded limit r of
        (Line n, buf, r') \<Rightarrow> (Some (if utf8_valid buf then LineIn (string_of buf) else InputEnds), r')
      | (NoLine, buf, r') \<Rightarrow> (Some InputEnds, r')
      | (TooLarge, buf, r') \<Rightarrow> (Some LineTooLong, r')
      | (ReadFails, buf, r') \<Rightarrow> (Some InputEnds, r')
      | (Dropped e, buf, r') \<Rightarrow> (Some e, r')
      | (Waiting, buf, r') \<Rightarrow> (None, r'))"

section \<open>Lines whatever the chunks\<close>

lemma strip_cr_length: "length xs - 1 \<le> length (strip_cr xs)" "length (strip_cr xs) \<le> length xs"
  by (auto simp: strip_cr_def)

lemma takeWhile_line: "10 \<notin> set line \<Longrightarrow> takeWhile (\<lambda>b. b \<noteq> 10) (line @ 10 # rest) = line"
  by (induction line) auto

lemma line_split: "l @ (10::u8) # t = l' @ 10 # t' \<Longrightarrow> 10 \<notin> set l \<Longrightarrow> 10 \<notin> set l' \<Longrightarrow> l = l' \<and> t = t'"
proof (induction l arbitrary: l')
  case Nil
  then show ?case by (cases l') auto
next
  case (Cons x l)
  then show ?case by (cases l') auto
qed

lemma sample_text: "string_of [72, 105] = ''Hi''" "string_of [65, 66] = ''AB''"
  by (simp_all add: string_of_def char_of_def bit_0)

text \<open>What the loop does with a whole line spread over non-empty chunks, after \<open>buf\<close>.\<close>

lemma read_line_chunks:
  fixes line rest buf :: bytes
  assumes "concat chunks = line @ 10 # rest" "10 \<notin> set line" "[] \<notin> set chunks"
  shows "(length (buf @ line) \<le> limit \<longrightarrow> (\<exists>chunks'. concat chunks' = rest \<and> [] \<notin> set chunks' \<and>
      read_line_loop limit buf (map Data chunks @ r) =
        (Line (length (strip_cr (buf @ line))), strip_cr (buf @ line), map Data chunks' @ r)))
    \<and> (length (strip_cr (buf @ line)) > limit \<longrightarrow> fst (read_line_loop limit buf (map Data chunks @ r)) = TooLarge)"
  using assms
proof (induction chunks arbitrary: buf line)
  case (Cons c chunks)
  show ?case
  proof (cases "10 \<in> set c")
    case True
    then obtain l t where c: "c = l @ 10 # t" "10 \<notin> set l" by (metis split_list_first)
    then have "l @ 10 # t @ concat chunks = line @ 10 # rest" using Cons.prems by simp
    then have l: "l = line" "t @ concat chunks = rest" using c(2) Cons.prems(2) line_split by blast+
    let ?u = "if t = [] then chunks else t # chunks"
    have "unread t (map Data chunks @ r) = map Data ?u @ r" "concat ?u = rest" "[] \<notin> set ?u"
      using l Cons.prems(3) by (auto simp: unread_def)
    moreover have "takeWhile (\<lambda>b. b \<noteq> 10) c = line" using c l takeWhile_line by simp
    moreover have "c \<noteq> []" "drop (length line + 1) c = t" using c l by auto
    ultimately show ?thesis using True strip_cr_length(2) [of "buf @ line"]
      by (auto simp: Let_def intro!: exI [of _ ?u])
  next
    case False
    have "\<exists>l. line = c @ l"
      using Cons.prems(1) False by (auto simp: append_eq_append_conv2 append_eq_Cons_conv)
    then obtain l where l: "line = c @ l" ..
    then have ih: "concat chunks = l @ 10 # rest" "10 \<notin> set l" "[] \<notin> set chunks" using Cons.prems by auto
    have "read_line_loop limit buf (map Data (c # chunks) @ r) =
        (if length (buf @ c) > limit then (TooLarge, buf @ c, map Data chunks @ r) else read_line_loop limit (buf @ c) (map Data chunks @ r))"
      using False Cons.prems(3) by (auto simp: Let_def)
    then show ?thesis using Cons.IH [OF ih, of "buf @ c"] l by auto
  qed
qed simp

text \<open>
  C18: However the network cuts the input, a line of at most the configured size reaches the session
  whole and without its line end, the next read starts right behind it, and a line that is longer
  even without its line end ends the session and bans the peer.
\<close>

theorem lines_any_chunks:
  assumes "concat chunks = line @ 10 # rest" "10 \<notin> set line" "[] \<notin> set chunks"
  shows "(length line \<le> limit \<and> utf8_valid (strip_cr line) \<longrightarrow>
      (\<exists>chunks'. concat chunks' = rest \<and> [] \<notin> set chunks'
         \<and> next_event limit (map Data chunks @ r) = (Some (LineIn (string_of (strip_cr line))), map Data chunks' @ r)))
    \<and> (limit < length (strip_cr line) \<longrightarrow>
       fst (next_event limit (map Data chunks @ r)) = Some LineTooLong
       \<and> session_step env mo sent1 sent2 LineTooLong (s, p) =
          Some ([], False, s, p\<lparr>pl_bans := ban (pl_bans p) (se_ip s) ''message too large'' (mo_ban mo)\<rparr>))"
proof -
  have "fst (read_line_bounded limit (map Data chunks @ r)) = TooLarge \<Longrightarrow> fst (next_event limit (map Data chunks @ r)) = Some LineTooLong"
    by (simp add: next_event_def case_prod_unfold)
  then show ?thesis using read_line_chunks [OF assms, of "[]" limit r]
    by (auto simp: next_event_def read_line_bounded_def session_step_def)
qed

theorem lines_any_chunks_witness:
  "next_event 4 (map Data [[72, 105, 13], [10, 74]]) = (Some (LineIn ''Hi''), [Data [74]])"
proof -
  have v: "utf8_valid [72, 105]" by (rule utf8_valid_ascii) simp
  have one: "concat xs = [74] \<and> [] \<notin> set xs \<Longrightarrow> xs = [[74]]" for xs :: "bytes list"
    by (cases xs; cases "tl xs") (auto simp: append_eq_Cons_conv)
  have "\<exists>chunks'. concat chunks' = [74] \<and> [] \<notin> set chunks' \<and>
      next_event 4 (map Data [[72, 105, 13], [10, 74]] @ []) = (Some (LineIn (string_of (strip_cr [72, 105, 13]))), map Data chunks' @ [])"
    using lines_any_chunks [of "[[72, 105, 13], [10, 74]]" "[72, 105, 13]" "[74]" 4 "[]"] v by (simp add: strip_cr_def)
  then show ?thesis by (auto simp: strip_cr_def sample_text dest!: one [OF conjI])
qed

section \<open>Where the cut matters\<close>

text \<open>
  C40: The size limit depends on how the network cuts the input when a line of exactly the limit ends
  in a carriage return and a line feed: in one chunk it is accepted, with the line feed in a chunk
  of its own the peer is banned.
\<close>

theorem crlf_at_limit:
  assumes "10 \<notin> set line" "length line = limit" "utf8_valid line" "line = [] \<or> last line \<noteq> 13"
  shows "next_event limit [Data (line @ [13, 10])] = (Some (LineIn (string_of line)), [])
    \<and> next_event limit [Data (line @ [13]), Data [10]] = (Some LineTooLong, [Data [10]])"
proof -
  have "takeWhile (\<lambda>b. b \<noteq> 10) (line @ [13, 10]) = line @ [13]" using takeWhile_line [of "line @ [13]" "[]"] assms(1) by simp
  then show ?thesis using assms
    by (auto simp: next_event_def read_line_bounded_def strip_cr_def unread_def Let_def)
qed

theorem crlf_at_limit_witness:
  "next_event 2 [Data [72, 105, 13, 10]] = (Some (LineIn ''Hi''), [])
    \<and> next_event 2 [Data [72, 105, 13], Data [10]] = (Some LineTooLong, [Data [10]])"
  using crlf_at_limit [of "[72, 105]" 2] utf8_valid_ascii [of "[72, 105]"] by (simp add: sample_text del: utf8_valid.simps)

text \<open>
  C39: A job that arrives in the middle of a line destroys the line.  When the network delivers the
  first part of a line, then the engine announces a job, then the rest of the line arrives, the
  session handles the job and then only the rest of the line: the first part was already taken out
  of the reader, and the next read clears the buffer that held it.  When what is left does not
  parse, the session is closed.
\<close>

theorem partial_line_lost:
  assumes "a \<noteq> []" "10 \<notin> set a" "length a \<le> limit" "10 \<notin> set b" "length b \<le> limit" "utf8_valid (strip_cr b)"
    and "fst (try_consume (sg_share_rate (se_guard s)) (mo_bucket1 mo) (mo_bucket2 mo))" "trim (string_of (strip_cr b)) \<noteq> []"
    and "request_parse (ev_json env) (string_of (strip_cr b)) = Inl e"
  shows "next_event limit (Data a # Aside job # Data (b @ [10]) # r) = (Some job, Data (b @ [10]) # r)
    \<and> next_event limit (Data (b @ [10]) # r) = (Some (LineIn (string_of (strip_cr b))), r)
    \<and> (\<exists>s'. session_step env mo sent1 sent2 (LineIn (string_of (strip_cr b))) (s, p) = Some ([], False, s', p))"
proof -
  have "length (strip_cr b) \<le> limit" using assms(5) strip_cr_length(2) [of b] by simp
  moreover have "takeWhile (\<lambda>x. x \<noteq> 10) (b @ [10]) = b" using takeWhile_line [OF assms(4), of "[]"] by simp
  ultimately have "next_event limit (Data (b @ [10]) # r) = (Some (LineIn (string_of (strip_cr b))), r)"
    using assms(6) by (simp add: next_event_def read_line_bounded_def Let_def unread_def)
  moreover have "next_event limit (Data a # Aside job # Data (b @ [10]) # r) = (Some job, Data (b @ [10]) # r)"
    using assms(1-3) by (simp add: next_event_def read_line_bounded_def Let_def)
  moreover have "\<exists>s'. session_step env mo sent1 sent2 (LineIn (string_of (strip_cr b))) (s, p) = Some ([], False, s', p)"
    using assms(7-9) by (auto simp: session_step_def handle_line_def Let_def case_prod_unfold)
  ultimately show ?thesis by blast
qed

text \<open>A subscription cut in two: read in one piece it is handled, with a job between its parts the session ends.\<close>

theorem partial_line_lost_witness:
  "\<exists>s. session_reach sample_env small_config s
    \<and> next_event 100 [Data [83], Aside JobsMissed, Data [65, 66, 10]] = (Some JobsMissed, [Data [65, 66, 10]])
    \<and> next_event 100 [Data [65, 66, 10]] = (Some (LineIn ''AB''), [])
    \<and> (\<exists>s'. session_step sample_env sample_moment True True (LineIn ''AB'') (s, sample_pool) = Some ([], False, s', sample_pool))"
proof -
  obtain s where s: "fresh_session 10 s" by (rule sample_start)
  have "fst (try_consume (sg_share_rate (se_guard s)) (mo_bucket1 sample_moment) (mo_bucket2 sample_moment))"
    using s sample_tokens(1) by (simp add: fresh_session_def)
  moreover have "trim ''AB'' \<noteq> []" "request_parse (ev_json sample_env) ''AB'' = Inl (Parse [])"
    by (simp_all add: trim_def utf8_tail_def is_whitespace_def request_parse_def sample_env_def sample_requests_def)
  moreover have "strip_cr [65, 66] = [65, 66]" by (simp add: strip_cr_def)
  ultimately show ?thesis
    using partial_line_lost [of "[83]" 100 "[65, 66]" s sample_moment sample_env _ JobsMissed "[]" True True sample_pool]
      utf8_valid_ascii [of "[65, 66]"] s by (auto simp: fresh_session_def sample_text)
qed

end
