(* ===== verification/Server.thy ===== *)
theory Server
  imports Security Config Stats
begin

text \<open>
  The listener (\<open>src/network/server.rs\<close>): the accept loop with its connection cap, ban check and rate
  limit, the protocol detection of every connection, and the background pruner.  The slot counter is
  reserved by a load and a compare-exchange while sessions release their slots at any time, so the
  model is a machine whose steps interleave.
\<close>

declare of_nat_unat [simp del]

section \<open>Protocol detection\<close>

datatype peek = PeekTimeout | PeekClosed | PeekByte u8 | PeekFails

datatype protocol = ProtoV1 | ProtoV2

definition detect :: "bool \<Rightarrow> peek \<Rightarrow> protocol option" where
  "detect sv2_enabled p =
     (case p of
        PeekByte first \<Rightarrow> if first = 0x7B then Some ProtoV1 else if sv2_enabled then Some ProtoV2 else None
      | _ \<Rightarrow> None)"

section \<open>The machine\<close>

text \<open>
  \<open>sr_accepting\<close> is the connection the accept loop is working on, with the counter value it has loaded;
  \<open>sr_tasks\<close> are the spawned tasks, each detecting its protocol or serving it.  \<open>sr_log\<close> and
  \<open>sr_started\<close> are ghosts: what the rate limiter was asked, and when each address was let in.
\<close>

record server =
  sr_active :: nat
  sr_accepting :: "(ip_addr \<times> nat option) option"
  sr_tasks :: "(nat \<times> ip_addr \<times> protocol option) list"
  sr_next :: nat
  sr_bans :: ban_list
  sr_limiter :: rate_limiter
  sr_stats :: pool_stats
  sr_log :: "rl_event list"
  sr_started :: "ip_addr \<Rightarrow> instant list"

definition server_new :: "config \<Rightarrow> ban_list \<Rightarrow> pool_stats \<Rightarrow> server" where
  "server_new cfg bans ps =
     \<lparr> sr_active = 0, sr_accepting = None, sr_tasks = [], sr_next = 0, sr_bans = bans,
       sr_limiter = rate_limiter_new (sc_max_connections_per_ip (c_security cfg)), sr_stats = ps, sr_log = [],
       sr_started = (\<lambda>_. []) \<rparr>"

definition release :: "nat \<Rightarrow> server \<Rightarrow> server" where
  "release i s = s\<lparr>sr_tasks := filter (\<lambda>t. fst t \<noteq> i) (sr_tasks s), sr_active := sr_active s - 1\<rparr>"

text \<open>The load of the slot counter.\<close>

definition load_slots :: "nat \<Rightarrow> server \<Rightarrow> server" where
  "load_slots max_connections s =
     (case sr_accepting s of
        Some (ip, None) \<Rightarrow>
          if sr_active s \<ge> max_connections then s\<lparr>sr_accepting := None\<rparr>
          else s\<lparr>sr_accepting := Some (ip, Some (sr_active s))\<rparr>
      | _ \<Rightarrow> s)"

text \<open>With the slot taken: the ban check, the rate limit, and the new task.\<close>

definition admit :: "ip_addr \<Rightarrow> (nat \<Rightarrow> instant) \<Rightarrow> server \<Rightarrow> server" where
  "admit ip t s =
     (case is_banned (sr_bans s) ip (t 0) (t 1) of
        (True, bans) \<Rightarrow> s\<lparr>sr_bans := bans, sr_active := sr_active s - 1\<rparr>
      | (False, bans) \<Rightarrow>
          (case check_and_record (sr_limiter s) ip (t 2) (t 3) of
             (False, rl) \<Rightarrow>
               s\<lparr>sr_bans := ban bans ip ''connection rate limit exceeded'' (t 4), sr_limiter := rl,
                 sr_log := sr_log s @ [Attempt ip (t 2) (t 3)], sr_active := sr_active s - 1\<rparr>
           | (True, rl) \<Rightarrow>
               s\<lparr>sr_bans := bans, sr_limiter := rl, sr_log := sr_log s @ [Attempt ip (t 2) (t 3)],
                 sr_started := (sr_started s)(ip := sr_started s ip @ [t 3]),
                 sr_tasks := sr_tasks s @ [(sr_next s, ip, None)], sr_next := sr_next s + 1\<rparr>))"

text \<open>The compare-exchange: it fails, and the loop loads again, when the counter has moved since.\<close>

definition exchange_slot :: "(nat \<Rightarrow> instant) \<Rightarrow> server \<Rightarrow> server" where
  "exchange_slot t s =
     (case sr_accepting s of
        Some (ip, Some current) \<Rightarrow>
          if sr_active s \<noteq> current then s\<lparr>sr_accepting := Some (ip, None)\<rparr>
          else admit ip t (s\<lparr>sr_active := current + 1, sr_accepting := None\<rparr>)
      | _ \<Rightarrow> s)"

text \<open>A spawned task after its peek: it goes on with the protocol or ends.\<close>

definition peeked :: "bool \<Rightarrow> nat \<Rightarrow> peek \<Rightarrow> server \<Rightarrow> server" where
  "peeked sv2_enabled i p s =
     (case map_of (sr_tasks s) i of
        Some (ip, None) \<Rightarrow>
          (case detect sv2_enabled p of
             None \<Rightarrow> release i s
           | Some proto \<Rightarrow> s\<lparr>sr_tasks := map (\<lambda>(j, ip, q). (j, ip, if j = i then Some proto else q)) (sr_tasks s)\<rparr>)
      | _ \<Rightarrow> s)"

definition session_over :: "nat \<Rightarrow> server \<Rightarrow> server" where
  "session_over i s = (case map_of (sr_tasks s) i of Some (ip, Some proto) \<Rightarrow> release i s | _ \<Rightarrow> s)"

definition server_prune :: "instant \<Rightarrow> instant \<Rightarrow> u64 \<Rightarrow> server \<Rightarrow> server" where
  "server_prune now1 now2 ts s =
     s\<lparr>sr_bans := ban_prune (sr_bans s) now1, sr_limiter := rate_prune (sr_limiter s) now2,
       sr_log := sr_log s @ [RlPrune now2], sr_stats := prune_idle_workers ts (sr_stats s)\<rparr>"

datatype server_event =
    AcceptFails
  | Incoming ip_addr
  | LoadSlots
  | ExchangeSlot "nat \<Rightarrow> instant"
  | Peeked nat peek
  | SessionOver nat
  | SessionBans ip_addr string instant
  | SessionStats pool_stats
  | ServerPrune instant instant u64

primrec server_step :: "config \<Rightarrow> server_event \<Rightarrow> server \<Rightarrow> server" where
  "server_step cfg AcceptFails s = s"
| "server_step cfg (Incoming ip) s = (if sr_accepting s = None then s\<lparr>sr_accepting := Some (ip, None)\<rparr> else s)"
| "server_step cfg LoadSlots s = load_slots (pc_max_connections (c_pool cfg)) s"
| "server_step cfg (ExchangeSlot t) s = exchange_slot t s"
| "server_step cfg (Peeked i p) s = peeked (s2_enabled (c_sv2 cfg)) i p s"
| "server_step cfg (SessionOver i) s = session_over i s"
| "server_step cfg (SessionBans ip reason now) s = s\<lparr>sr_bans := ban (sr_bans s) ip reason now\<rparr>"
| "server_step cfg (SessionStats ps) s = s\<lparr>sr_stats := ps\<rparr>"
| "server_step cfg (ServerPrune now1 now2 ts) s = server_prune now1 now2 ts s"

definition server_run :: "config \<Rightarrow> server_event list \<Rightarrow> server \<Rightarrow> server" where
  "server_run cfg = fold (server_step cfg)"

section \<open>What the listener guarantees\<close>

definition server_inv :: "config \<Rightarrow> server \<Rightarrow> bool" where
  "server_inv cfg s \<longleftrightarrow>
     sr_active s = length (sr_tasks s) \<and> sr_active s \<le> pc_max_connections (c_pool cfg)
     \<and> distinct (map fst (sr_tasks s)) \<and> list_all (\<lambda>t. fst t < sr_next s) (sr_tasks s)
     \<and> (\<forall>ip c. sr_accepting s = Some (ip, Some c) \<longrightarrow> sr_active s \<le> c \<and> c < pc_max_connections (c_pool cfg))
     \<and> (sr_limiter s, sr_started s) = rl_run (rate_limiter_new (sc_max_connections_per_ip (c_security cfg))) (sr_log s)"

lemma length_remove:
  assumes "distinct (map fst xs)" "map_of xs i = Some v"
  shows "Suc (length (filter (\<lambda>t. fst t \<noteq> i) xs)) = length xs"
  using assms
proof (induction xs)
  case (Cons x xs)
  show ?case
  proof (cases "fst x = i")
    case True
    then have "filter (\<lambda>t. fst t \<noteq> i) xs = xs" using Cons.prems(1) by (auto simp: filter_id_conv image_iff)
    then show ?thesis using True by simp
  next
    case False
    then show ?thesis using Cons by (cases x) auto
  qed
qed simp

lemma release_inv:
  assumes "server_inv cfg s" "map_of (sr_tasks s) i = Some v"
  shows "server_inv cfg (release i s)"
proof -
  have len: "Suc (length (filter (\<lambda>t. fst t \<noteq> i) (sr_tasks s))) = sr_active s"
    using length_remove [OF _ assms(2)] assms(1) by (simp add: server_inv_def)
  have "distinct (map fst (filter (\<lambda>t. fst t \<noteq> i) (sr_tasks s)))" using assms(1) by (simp add: server_inv_def distinct_map_filter)
  moreover have "list_all (\<lambda>t. fst t < sr_next s) (filter (\<lambda>t. fst t \<noteq> i) (sr_tasks s))"
    using assms(1) by (auto simp: server_inv_def list_all_iff)
  ultimately show ?thesis using assms(1) len unfolding server_inv_def release_def by fastforce
qed

lemma rl_run_snoc: "rl_run rl (es @ [e]) = rl_step (rl_run rl es) e"
  by (simp add: rl_run_def)

lemma admit_inv:
  assumes "server_inv cfg s" "sr_active s < pc_max_connections (c_pool cfg)"
  shows "server_inv cfg (admit ip t (s\<lparr>sr_active := sr_active s + 1, sr_accepting := None\<rparr>))"
proof -
  obtain b bans where b: "is_banned (sr_bans s) ip (t 0) (t 1) = (b, bans)" by (cases "is_banned (sr_bans s) ip (t 0) (t 1)")
  obtain a rl where a: "check_and_record (sr_limiter s) ip (t 2) (t 3) = (a, rl)" by (cases "check_and_record (sr_limiter s) ip (t 2) (t 3)")
  let ?m = "rate_limiter_new (sc_max_connections_per_ip (c_security cfg))"
  have rl: "rl_run ?m (sr_log s) = (sr_limiter s, sr_started s)" using assms(1) by (simp add: server_inv_def)
  have "sr_next s \<notin> fst ` set (sr_tasks s)" "\<forall>x \<in> set (sr_tasks s). fst x < Suc (sr_next s)"
    using assms(1) by (auto simp: server_inv_def list_all_iff)
  then show ?thesis using assms rl
    by (cases b; cases a) (simp_all add: server_inv_def admit_def b [unfolded One_nat_def] a rl_run_snoc list_all_iff)
qed

lemma server_step_inv:
  assumes "server_inv cfg s"
  shows "server_inv cfg (server_step cfg e s)"
proof (cases e)
  case (ExchangeSlot t)
  show ?thesis
  proof (cases "\<exists>ip. sr_accepting s = Some (ip, Some (sr_active s))")
    case True
    then obtain ip where ip: "sr_accepting s = Some (ip, Some (sr_active s))" ..
    then have "sr_active s < pc_max_connections (c_pool cfg)" using assms by (simp add: server_inv_def)
    from admit_inv [OF assms this, of ip t] show ?thesis by (simp add: ExchangeSlot exchange_slot_def ip)
  next
    case False
    then show ?thesis using assms
      by (auto simp: ExchangeSlot exchange_slot_def server_inv_def split: option.splits)
  qed
next
  case (Peeked i p)
  have "server_inv cfg (s\<lparr>sr_tasks := map (\<lambda>(j, ip, q). (j, ip, if j = i then Some proto else q)) (sr_tasks s)\<rparr>)" for proto
    using assms by (auto simp: server_inv_def list_all_iff case_prod_unfold comp_def)
  then show ?thesis using assms release_inv [OF assms] by (simp add: Peeked peeked_def split: option.splits)
next
  case (SessionOver i)
  then show ?thesis using assms release_inv [OF assms] by (auto simp: session_over_def split: option.splits)
next
  case (ServerPrune now1 now2 ts)
  have "rl_run (rate_limiter_new (sc_max_connections_per_ip (c_security cfg))) (sr_log s) = (sr_limiter s, sr_started s)"
    using assms by (simp add: server_inv_def)
  then show ?thesis using assms by (auto simp: ServerPrune server_prune_def server_inv_def rl_run_snoc)
qed (use assms in \<open>auto simp: server_inv_def load_slots_def split: option.splits\<close>)

text \<open>
  C15: Admission, whatever the interleaving of the accept loop with the sessions that end.  The slot
  counter is exactly the number of connections being served and never exceeds the configured
  maximum; a compare-exchange fails only when a session has ended since the load; with a clock that
  does not run backwards no address is let in more often than configured within any 60 seconds; and
  a banned address gets no session.
\<close>

theorem server_admission:
  assumes "sorted (concat (map readings (sr_log (server_run cfg es (server_new cfg bans ps)))))"
  shows "let s = server_run cfg es (server_new cfg bans ps) in
      sr_active s = length (sr_tasks s) \<and> sr_active s \<le> pc_max_connections (c_pool cfg)
    \<and> (\<forall>ip c. sr_accepting s = Some (ip, Some c) \<and> sr_active s \<noteq> c \<longrightarrow> sr_active s < c)
    \<and> (\<forall>ip T. length (filter (\<lambda>t. T < t + secs 60 \<and> t \<le> T) (sr_started s ip)) \<le> unat (sc_max_connections_per_ip (c_security cfg)))
    \<and> (\<forall>ip c t. sr_accepting s = Some (ip, Some c) \<and> fst (is_banned (sr_bans s) ip (t 0) (t 1)) \<longrightarrow>
         sr_tasks (exchange_slot t s) = sr_tasks s)"
proof -
  define s where "s = server_run cfg es (server_new cfg bans ps)"
  have "server_inv cfg (server_new cfg bans ps)" by (simp add: server_inv_def server_new_def rl_run_def)
  then have inv: "server_inv cfg s" unfolding s_def server_run_def
    by (induction es arbitrary: bans ps rule: rev_induct) (simp_all add: server_step_inv)
  then have "rl_run (rate_limiter_new (sc_max_connections_per_ip (c_security cfg))) (sr_log s) = (sr_limiter s, sr_started s)"
    by (simp add: server_inv_def)
  with rate_limit_window [of "sr_log s"] assms
  have "length (filter (\<lambda>t. T < t + secs 60 \<and> t \<le> T) (sr_started s ip)) \<le> unat (sc_max_connections_per_ip (c_security cfg))" for ip T
    by (metis s_def snd_conv)
  moreover have "sr_tasks (exchange_slot t s) = sr_tasks s"
    if "sr_accepting s = Some (ip, Some c)" "fst (is_banned (sr_bans s) ip (t 0) (t 1))" for ip c t
    using that by (cases "is_banned (sr_bans s) ip (t 0) (t 1)") (simp add: exchange_slot_def admit_def)
  ultimately show ?thesis using inv unfolding s_def [symmetric] Let_def server_inv_def by fastforce
qed

text \<open>
  Two connections: while the second is being accepted the first goes away, so its first
  compare-exchange fails and the second one succeeds.
\<close>

definition sample_arrivals :: "server_event list" where
  "sample_arrivals =
     [Incoming (V4 1), LoadSlots, ExchangeSlot (\<lambda>i. i), Incoming (V4 2), LoadSlots, Peeked 0 PeekClosed,
      ExchangeSlot (\<lambda>i. 10 + i), LoadSlots, ExchangeSlot (\<lambda>i. 20 + i)]"

theorem server_admission_witness:
  "let s = server_run sample_config sample_arrivals
       (server_new sample_config (ban_list_new 600) (from_persisted (\<lambda>x. x) (\<lambda>x y. x) persisted_default 100 0)) in
   sr_tasks s = [(1, V4 2, None)] \<and> sr_log s = [Attempt (V4 1) 2 3, Attempt (V4 2) 22 23] \<and> sr_active s = 1
   \<and> length (filter (\<lambda>t. 30 < t + secs 60 \<and> t \<le> 30) (sr_started s (V4 2))) \<le> 10"
proof -
  let ?s = "server_run sample_config sample_arrivals
       (server_new sample_config (ban_list_new 600) (from_persisted (\<lambda>x. x) (\<lambda>x y. x) persisted_default 100 0))"
  have t: "sr_tasks ?s = [(1, V4 2, None)]" and l: "sr_log ?s = [Attempt (V4 1) 2 3, Attempt (V4 2) 22 23]"
    by (simp_all add: server_run_def sample_arrivals_def server_new_def sample_config_def load_slots_def exchange_slot_def admit_def
        is_banned_def ban_list_new_def check_and_record_def rate_limiter_new_def one_minute_before_def secs_def peeked_def detect_def
        release_def)
  have "sc_max_connections_per_ip (c_security sample_config) = 10" by (simp add: sample_config_def)
  with server_admission [of sample_config sample_arrivals "ban_list_new 600"
      "from_persisted (\<lambda>x. x) (\<lambda>x y. x) persisted_default 100 0"] l t
  show ?thesis by (simp add: Let_def)
qed

end
