(* ===== verification/Replay.thy ===== *)
theory Replay
  imports Accounting
begin

text \<open>
  What the writer thread makes of the queue the statistics hand it when the disk works: the
  round, the reject reasons and the found blocks end up as if the queue were applied in
  order, whatever becomes of the ledger minutes among the writes.
\<close>

declare of_nat_unat [simp del]

definition healthy :: "store_write \<Rightarrow> loop_input" where
  "healthy w = \<lparr> li_next = Some w, li_retry_faults = (\<lambda>_. (False, False)), li_fault = (False, False) \<rparr>"

fun is_ledger :: "store_write \<Rightarrow> bool" where
  "is_ledger (Ledger ts es) \<longleftrightarrow> True"
| "is_ledger w \<longleftrightarrow> False"

definition write_ok :: "db \<times> writer_state \<Rightarrow> store_write \<Rightarrow> db \<times> writer_state" where
  "write_ok s w = snd (apply_write (False, False) (fst s) w (snd s))"

definition landed :: "db \<times> writer_state \<Rightarrow> store_write \<Rightarrow> bool" where
  "landed s w \<longleftrightarrow> fst (apply_write (False, False) (fst s) w (snd s)) \<or> is_ledger w \<or> \<not> is_durable w"

definition drain :: "db \<times> writer_state \<Rightarrow> store_write list \<Rightarrow> db \<times> writer_state" where
  "drain = foldl write_ok"

fun lands :: "db \<times> writer_state \<Rightarrow> store_write list \<Rightarrow> bool" where
  "lands s [] \<longleftrightarrow> True"
| "lands s (w # ws) \<longleftrightarrow> landed s w \<and> lands (write_ok s w) ws"

lemma drain_simps [simp]:
  "drain s [] = s" "drain s (w # ws) = drain (write_ok s w) ws" "drain s (us @ ws) = drain (drain s us) ws"
  by (simp_all add: drain_def)

lemma lands_append [simp]: "lands s (us @ ws) \<longleftrightarrow> lands s us \<and> lands (drain s us) ws"
  by (induction us arbitrary: s) auto

text \<open>The tables of the round and of the found blocks, with the writer's epoch.\<close>

definition book_view :: "db \<times> writer_state \<Rightarrow> round_row \<times> (string \<times> nat) list \<times> (string \<times> block_row) list \<times> u64" where
  "book_view s = (db_round (fst s), db_reject_reasons (fst s), db_found (fst s), ws_round_epoch (snd s))"

lemma write_entries_view:
  "write_entries ts d ids es = Some (d', ids') \<Longrightarrow>
   db_round d' = db_round d \<and> db_reject_reasons d' = db_reject_reasons d \<and> db_found d' = db_found d"
proof (induction es arbitrary: d ids)
  case (Cons e es)
  have "db_round d' = db_round d \<and> db_reject_reasons d' = db_reject_reasons d \<and> db_found d' = db_found d"
    if "resolve_worker_id d name now = Some (r, d')" for d name now r d'
    using that by (auto simp: resolve_worker_id_def insert_worker_def insert_user_def Let_def split: prod.splits option.splits if_splits)
  then show ?case using Cons
    by (fastforce simp: bind_eq_Some_conv upsert_minute_def split: option.splits if_splits prod.splits)
qed simp

lemma apply_ledger_view:
  assumes "is_ledger w" "apply_write f d w st = (ok, d', st')"
  shows "book_view (d', st') = book_view (d, st)"
proof (cases w)
  case (Ledger ts es)
  then show ?thesis using assms(2)
    by (auto simp: apply_write_def write_ledger_minute_def roll_up_ledger_def Let_def bind_eq_Some_conv book_view_def
        write_entries_view split: option.splits prod.splits if_splits)
qed (use assms in auto)

lemma merge_round_cong:
  assumes "db_round d = db_round e" "db_reject_reasons d = db_reject_reasons e" "db_found d = db_found e"
  shows "rel_option (\<lambda>d e. db_round d = db_round e \<and> db_reject_reasons d = db_reject_reasons e \<and> db_found d = db_found e)
    (merge_round s d) (merge_round s e)"
  using assms by (auto simp: merge_round_def Let_def split: bind_splits)

lemma rel_option_bind:
  "rel_option A x y \<Longrightarrow> (\<And>a b. A a b \<Longrightarrow> rel_option B (f a) (g b)) \<Longrightarrow> rel_option B (Option.bind x f) (Option.bind y g)"
  by (cases x; cases y) auto

lemma rel_option_bind_same:
  "(\<And>a. rel_option B (f a) (g a)) \<Longrightarrow> rel_option B (Option.bind x f) (Option.bind x g)"
  by (cases x) auto

lemma snapshot_tx_cong:
  assumes "db_round d = db_round e" "db_reject_reasons d = db_reject_reasons e" "db_found d = db_found e"
  shows "rel_option (\<lambda>d e. db_round d = db_round e \<and> db_reject_reasons d = db_reject_reasons e \<and> db_found d = db_found e)
    (snapshot_tx s stale d) (snapshot_tx s stale e)"
  unfolding snapshot_tx_def Let_def
proof (intro rel_option_bind_same, goal_cases)
  case (1 history_ts state_ts)
  show ?case
    by (cases "not_null [ten_minutes (sw_rates s)] \<and> list_all (\<lambda>(_, w). not_null (to_windows w)) (sw_worker_rates s)")
      (auto simp: assms intro!: rel_option_bind [OF merge_round_cong])
qed

text \<open>The view after a write depends only on the view before it, and so does its success.\<close>

lemma write_ok_cong:
  assumes "book_view s = book_view t"
  shows "book_view (write_ok s w) = book_view (write_ok t w) \<and> (landed s w \<longleftrightarrow> landed t w)"
proof (cases w)
  case (Ledger ts es)
  obtain a b c a' b' c' where "apply_write (False, False) (fst s) w (snd s) = (a, b, c)"
    "apply_write (False, False) (fst t) w (snd t) = (a', b', c')" by (metis prod_cases3)
  then show ?thesis using assms apply_ledger_view [of w "(False, False)" "fst s" "snd s"]
      apply_ledger_view [of w "(False, False)" "fst t" "snd t"] Ledger
    by (simp add: write_ok_def landed_def)
next
  case (Snapshot x)
  have e: "ws_round_epoch (snd s) = ws_round_epoch (snd t)" and v: "db_round (fst s) = db_round (fst t)"
    "db_reject_reasons (fst s) = db_reject_reasons (fst t)" "db_found (fst s) = db_found (fst t)"
    using assms by (simp_all add: book_view_def)
  show ?thesis
    using snapshot_tx_cong [OF v, of x "sw_round_epoch x \<noteq> ws_round_epoch (snd t)"] Snapshot e v
    by (auto simp: write_ok_def landed_def apply_write_def book_view_def write_snapshot_def prune_history_def Let_def
        split: option.splits)
qed (use assms in \<open>auto simp: write_ok_def landed_def apply_write_def book_view_def apply_round_reset_def
    prune_worker_rows_def insert_found_def resolve_found_def Let_def split: option.splits bind_splits\<close>)

text \<open>A backlog of ledger minutes does not touch the view.\<close>

lemma retry_ledger_view:
  assumes "list_all is_ledger bl" "retry_backlog fs d bl st = (d', st', bl')"
  shows "book_view (d', st') = book_view (d, st) \<and> list_all is_ledger bl'"
  using assms
proof (induction bl arbitrary: fs d st)
  case (Cons w bl)
  obtain ok d1 st1 where a: "apply_write (fs 0) d w st = (ok, d1, st1)" by (cases "apply_write (fs 0) d w st") auto
  then show ?case
    using Cons.prems Cons.IH [of "\<lambda>n. fs (Suc n)" d1 st1] apply_ledger_view [OF _ a]
    by (auto split: bool.splits)
qed simp

lemma iteration_view:
  assumes "list_all is_ledger bl" "book_view (d, st) = book_view t" "landed t w"
    and "writer_iteration (d, st, bl) (healthy w) = (d', st', bl')"
  shows "book_view (d', st') = book_view (write_ok t w) \<and> list_all is_ledger bl'"
proof -
  obtain d1 st1 bl1 where r: "retry_backlog (\<lambda>_. (False, False)) d bl st = (d1, st1, bl1)"
    by (metis prod_cases3)
  note v1 = retry_ledger_view [OF assms(1) r]
  obtain ok d2 st2 where a: "apply_write (False, False) d1 w st1 = (ok, d2, st2)" by (metis prod_cases3)
  have c: "book_view (d2, st2) = book_view (write_ok t w)" and l: "landed (d1, st1) w"
    using write_ok_cong [of "(d1, st1)" t w] v1 assms(2,3) a by (simp_all add: write_ok_def)
  have "list_all is_ledger (tl bl1)" using v1 by (cases bl1) auto
  then show ?thesis using assms(4) c v1 l a r
    by (auto simp: writer_iteration_def healthy_def handle_write_def landed_def split: bool.splits if_splits)
qed

lemma iterations_view:
  assumes "list_all is_ledger bl" "book_view (d, st) = book_view t" "lands t ws"
    and "foldl writer_iteration (d, st, bl) (map healthy ws) = (d', st', bl')"
  shows "book_view (d', st') = book_view (drain t ws) \<and> list_all is_ledger bl'"
  using assms
proof (induction ws arbitrary: d st bl t)
  case (Cons w ws)
  obtain d1 st1 bl1 where i: "writer_iteration (d, st, bl) (healthy w) = (d1, st1, bl1)" by (metis prod_cases3)
  have "landed t w" using Cons.prems(3) by simp
  from iteration_view [OF Cons.prems(1,2) this i] Cons.IH [of bl1 d1 st1 "write_ok t w"] Cons.prems i
  show ?case by auto
qed simp

text \<open>
  On a working disk, if every write other than ledger minutes can land, the writer loop leaves the
  view the queue applied in order leaves.
\<close>

lemma writer_loop_view:
  assumes "lands (d, writer_init) ws" "writer_loop d (map healthy ws) fs = (d', st', bl')"
  shows "book_view (d', st') = book_view (drain (d, writer_init) ws)"
proof -
  obtain d1 st1 bl1 where f: "foldl writer_iteration (d, writer_init, []) (map healthy ws) = (d1, st1, bl1)"
    by (metis prod_cases3)
  note v = iterations_view [OF _ refl assms(1) f]
  from v have "book_view (d1, st1) = book_view (drain (d, writer_init) ws)" "list_all is_ledger bl1" by auto
  then show ?thesis using retry_ledger_view [of bl1 fs d1 st1 d' st' bl'] assms(2) f by (simp add: writer_loop_def)
qed

end
