(* ===== verification/Confirm.thy ===== *)
theory Confirm
  imports Accounting
begin

text \<open>
  The deferred confirmation of found blocks (\<open>src/mining/confirm.rs\<close>).  One sweep asks the node for
  the position of every block that was pending when it began; the answers come from the node
  client of theory \<open>Rpc\<close> and the clock readings of each step are arguments.
\<close>

declare of_nat_unat [simp del]

definition ABANDON_AFTER_SECS :: u64 where
  "ABANDON_AFTER_SECS = 24 * 3600"

datatype verdict = VPending | VFinal block_resolution

fun classify_confirmation :: "chain_position \<Rightarrow> u64 \<Rightarrow> u32 \<Rightarrow> verdict" where
  "classify_confirmation (OnChain confirmations tip) block_height depth =
     (if depth \<le> confirmations then VFinal Confirmed else VPending)"
| "classify_confirmation (SideBranch tip_height) block_height depth =
     (if block_height + ucast depth \<le> tip_height then VFinal Orphaned else VPending)"
| "classify_confirmation UnknownBlock block_height depth = VPending"

definition is_abandoned :: "pending_block \<Rightarrow> chain_position \<Rightarrow> u64 \<Rightarrow> bool" where
  "is_abandoned block pos now \<longleftrightarrow>
     pos = UnknownBlock \<and> ABANDON_AFTER_SECS \<le> sat_sub now (pb_found_ts block)"

text \<open>What one reading of a block's position decides, \<open>None\<close> when the block stays pending.\<close>

definition sweep_resolution :: "pending_block \<Rightarrow> chain_position \<Rightarrow> u32 \<Rightarrow> u64 \<Rightarrow> block_resolution option" where
  "sweep_resolution block pos depth now =
     (case classify_confirmation pos (pb_height block) depth of
        VFinal resolution \<Rightarrow> Some resolution
      | VPending \<Rightarrow> if is_abandoned block pos now then Some Abandoned else None)"

text \<open>The loop body; the three readings are those of \<open>is_abandoned\<close> and of \<open>resolve_block\<close>.\<close>

definition sweep_block ::
  "('c, 'v, 'w) node_api \<Rightarrow> u32 \<Rightarrow> pending_block \<Rightarrow> u64 \<times> u64 \<times> u64
     \<Rightarrow> 'c rpc_state \<times> 'w \<times> pool_stats \<Rightarrow> 'c rpc_state \<times> 'w \<times> pool_stats" where
  "sweep_block api depth block clock s =
     (let (rpc, w, ps) = s; (now, now1, now2) = clock in
      case block_chain_position api (pb_hash block) rpc w of
        (Inl e, rpc', w') \<Rightarrow> (rpc', w', ps)
      | (Inr pos, rpc', w') \<Rightarrow>
          (case sweep_resolution block pos depth now of
             None \<Rightarrow> (rpc', w', ps)
           | Some resolution \<Rightarrow> (rpc', w', snd (record_block_resolution block resolution now1 now2 ps))))"

definition sweep ::
  "('c, 'v, 'w) node_api \<Rightarrow> u32 \<Rightarrow> (nat \<Rightarrow> u64 \<times> u64 \<times> u64)
     \<Rightarrow> 'c rpc_state \<times> 'w \<times> pool_stats \<Rightarrow> 'c rpc_state \<times> 'w \<times> pool_stats" where
  "sweep api depth clocks s =
     foldl (\<lambda>s (i, block). sweep_block api depth block (clocks i) s) s
       (List.enumerate 0 (pending_blocks (snd (snd s))))"

end
