(* ===== verification/Books.thy ===== *)
theory Books
  imports Replay Confirm
begin

text \<open>
  The statistics and their tables in step.  The operations of the statistics are the events of a
  step relation; in every state it reaches, the queue of writes builds tables whose found
  blocks are those in memory and whose round never runs ahead of the counters.
\<close>

declare of_nat_unat [simp del]

section \<open>Events\<close>

datatype stats_event =
    EAccept string string u64 u64 instant u64 u64
  | EReject string reject_reason u64 session_guard
  | ERateLimited
  | EOutcome block_submit_outcome u64 string string string u64 u64
  | EResolve pending_block block_resolution u64 u64
  | ETick instant
  | ESnapshot u64
  | EPrune u64
  | EConnect
  | EDisconnect
  | EOnline string u64 u64
  | EOffline string
  | EVardiff string u64 u64
  | EProtocol string string
  | EHeight u64 u64 u64
  | ENetwork f64 f64 f64

fun stats_event_step :: "(f64 \<Rightarrow> f64) \<Rightarrow> stats_event \<Rightarrow> pool_stats \<Rightarrow> pool_stats" where
  "stats_event_step ex (EAccept sid worker credit hash_diff inst now1 now2) ps =
     record_accepted sid worker credit hash_diff inst now1 now2 ps"
| "stats_event_step ex (EReject worker reason now guard) ps = snd (snd (record_rejected worker reason now guard ps))"
| "stats_event_step ex ERateLimited ps = record_rate_limited ps"
| "stats_event_step ex (EOutcome oc height worker payout hash now1 now2) ps =
     record_block_outcome oc height worker payout hash now1 now2 ps"
| "stats_event_step ex (EResolve block r now1 now2) ps = snd (record_block_resolution block r now1 now2 ps)"
| "stats_event_step ex (ETick now) ps = tick_hashrates_at ex now ps"
| "stats_event_step ex (ESnapshot now) ps = record_hashrate_snapshot_at now ps"
| "stats_event_step ex (EPrune now) ps = prune_idle_workers now ps"
| "stats_event_step ex EConnect ps = miner_connected ps"
| "stats_event_step ex EDisconnect ps = miner_disconnected ps"
| "stats_event_step ex (EOnline worker vd now) ps = mark_worker_online worker vd now ps"
| "stats_event_step ex (EOffline worker) ps = mark_worker_offline worker ps"
| "stats_event_step ex (EVardiff worker vd now) ps = update_worker_vardiff worker vd now ps"
| "stats_event_step ex (EProtocol worker protocol) ps = set_worker_protocol worker protocol ps"
| "stats_event_step ex (EHeight height val n) ps = update_height height val n ps"
| "stats_event_step ex (ENetwork hps diff pct) ps =
     set_est_difficulty_change_pct pct (set_network_difficulty diff (set_network_hashrate hps ps))"

definition count_of :: "('k \<times> u64) list \<Rightarrow> 'k \<Rightarrow> u64" where
  "count_of m k = (case map_of m k of None \<Rightarrow> 0 | Some c \<Rightarrow> c)"

text \<open>
  Guards: the clock does not run backwards between block events and a found block is enrolled in
  the second its round was reset; a block is reported once, and a resolution is of the block
  as enrolled; no counter leaves the range of an SQLite integer.
\<close>

definition reason_total :: "pool_stats \<Rightarrow> string \<Rightarrow> nat" where
  "reason_total ps r = unat (count_of (ps_round_reject_reasons_base ps) r) + unat (count_of (ps_reject_reasons ps) r)"

fun event_ok :: "nat \<Rightarrow> string set \<Rightarrow> stats_event \<Rightarrow> pool_stats \<Rightarrow> bool" where
  "event_ok clock seen (EAccept sid worker credit hash_diff inst now1 now2) ps \<longleftrightarrow>
     unat (ps_round_accepted_base ps) + unat (ps_shares_accepted ps) + 1 < 2 ^ 63
     \<and> unat (ps_round_work ps) + unat credit < 2 ^ 63 \<and> unat hash_diff < 2 ^ 63"
| "event_ok clock seen (EReject worker reason now guard) ps \<longleftrightarrow>
     unat (ps_round_rejected_base ps) + unat (ps_shares_rejected ps) + 1 < 2 ^ 63
     \<and> reason_total ps (reject_label reason) + 1 < 2 ^ 63"
| "event_ok clock seen (EOutcome oc height worker payout hash now1 now2) ps \<longleftrightarrow>
     clock \<le> unat now1 \<and> now1 = now2 \<and> unat now2 < 2 ^ 63 \<and> unat height < 2 ^ 63 \<and> hash \<notin> seen
     \<and> card seen + 1 < 2 ^ 63 \<and> unat (ps_round_epoch ps) + 1 < 2 ^ 64"
| "event_ok clock seen (EResolve block r now1 now2) ps \<longleftrightarrow>
     clock \<le> unat now1 \<and> now1 \<le> now2 \<and> unat now2 < 2 ^ 63 \<and> unat (ps_round_epoch ps) + 1 < 2 ^ 64
     \<and> map_of (ps_pending_blocks ps) (pb_hash block) \<in> {None, Some block}"
| "event_ok clock seen e ps \<longleftrightarrow> True"

fun event_clock :: "stats_event \<Rightarrow> nat \<Rightarrow> nat" where
  "event_clock (EOutcome oc height worker payout hash now1 now2) clock = unat now2"
| "event_clock (EResolve block r now1 now2) clock = unat now2"
| "event_clock e clock = clock"

fun event_hashes :: "stats_event \<Rightarrow> string set" where
  "event_hashes (EOutcome oc height worker payout hash now1 now2) = {hash}"
| "event_hashes e = {}"

inductive stats_run :: "(f64 \<Rightarrow> f64) \<Rightarrow> nat \<times> string set \<times> pool_stats \<Rightarrow> nat \<times> string set \<times> pool_stats \<Rightarrow> bool"
  for ex where
  run_refl [intro!]: "stats_run ex s s"
| run_step: "stats_run ex s (clock, seen, ps) \<Longrightarrow> event_ok clock seen e ps \<Longrightarrow>
     stats_run ex s (event_clock e clock, seen \<union> event_hashes e, stats_event_step ex e ps)"

section \<open>The tables and the counters\<close>

definition wins_of :: "(string \<times> block_row) list \<Rightarrow> nat set" where
  "wins_of found = {unat (pb_found_ts (br_block row)) | h row. (h, row) \<in> set found \<and> pb_won_at_submit (br_block row)}"

definition nat_count_of :: "('k \<times> nat) list \<Rightarrow> 'k \<Rightarrow> nat" where
  "nat_count_of m k = (case map_of m k of None \<Rightarrow> 0 | Some c \<Rightarrow> c)"

fun rounds :: "nat \<Rightarrow> round_row \<times> (string \<times> nat) list \<times> (string \<times> block_row) list \<times> u64 \<Rightarrow> pool_stats \<Rightarrow> bool" where
  "rounds clock (row, reasons, found, epoch) ps \<longleftrightarrow>
     epoch = ps_round_epoch ps
     \<and> rr_since_ts row = unat (ps_round_since_ts ps) \<and> 0 < rr_since_ts row \<and> rr_since_ts row \<le> clock \<and> clock < 2 ^ 63
     \<and> (\<forall>t \<in> wins_of found. t \<le> rr_since_ts row)
     \<and> rr_best_share row = unat (ps_best_share_difficulty ps) \<and> rr_best_share row < 2 ^ 63
     \<and> rr_accepted row + unat (ps_round_offset_accepted ps) \<le> unat (ps_round_accepted_base ps) + unat (ps_shares_accepted ps)
     \<and> unat (ps_round_accepted_base ps) + unat (ps_shares_accepted ps) < 2 ^ 63
     \<and> rr_rejected row + unat (ps_round_offset_rejected ps) \<le> unat (ps_round_rejected_base ps) + unat (ps_shares_rejected ps)
     \<and> unat (ps_round_rejected_base ps) + unat (ps_shares_rejected ps) < 2 ^ 63
     \<and> rr_work row \<le> unat (ps_round_work ps) \<and> unat (ps_round_work ps) < 2 ^ 63
     \<and> distinct (map fst (ps_round_reject_reasons_base ps)) \<and> distinct (map fst (ps_reject_reasons ps))
     \<and> distinct (map fst reasons)
     \<and> (\<forall>r. nat_count_of reasons r + unat (count_of (ps_round_offset_reject_reasons ps) r) \<le> reason_total ps r
            \<and> reason_total ps r < 2 ^ 63)"

definition block_counts :: "(string \<times> block_row) list \<Rightarrow> nat \<times> nat \<times> nat" where
  "block_counts found =
     (let count = (\<lambda>p. length (filter (\<lambda>(_, r). p (pb_won_at_submit (br_block r)) (br_status r)) found)) in
      (count (\<lambda>won s. (won \<and> s \<noteq> ''orphaned'') \<or> (\<not> won \<and> s = ''confirmed'')),
       count (\<lambda>won s. won \<and> s = ''orphaned''),
       count (\<lambda>won s. \<not> won \<and> s \<noteq> ''confirmed'')))"

definition pending_of :: "(string \<times> block_row) list \<Rightarrow> string \<Rightarrow> pending_block option" where
  "pending_of found h =
     (case map_of found h of
        Some row \<Rightarrow> if br_status row = BLOCK_STATUS_PENDING then Some (br_block row) else None
      | None \<Rightarrow> None)"

fun blocks :: "string set \<Rightarrow> round_row \<times> (string \<times> nat) list \<times> (string \<times> block_row) list \<times> u64 \<Rightarrow> pool_stats \<Rightarrow> bool" where
  "blocks seen (row, reasons, found, epoch) ps \<longleftrightarrow>
     distinct (map fst found) \<and> distinct (map fst (ps_pending_blocks ps))
     \<and> fst ` set found = seen \<and> length found < 2 ^ 63
     \<and> (\<forall>h row. (h, row) \<in> set found \<longrightarrow> pb_hash (br_block row) = h)
     \<and> map_of (ps_pending_blocks ps) = pending_of found
     \<and> block_counts found = (unat (ps_blocks_found ps), unat (ps_blocks_orphaned ps), unat (ps_blocks_inconclusive ps))"

definition replayed :: "db \<Rightarrow> pool_stats \<Rightarrow> db \<times> writer_state \<Rightarrow> bool" where
  "replayed d0 ps s \<longleftrightarrow> (\<exists>q. ps_store ps = Some q \<and> lands (d0, writer_init) q \<and> drain (d0, writer_init) q = s)"

definition books :: "db \<Rightarrow> nat \<Rightarrow> string set \<Rightarrow> pool_stats \<Rightarrow> bool" where
  "books d0 clock seen ps \<longleftrightarrow>
     (\<exists>s. replayed d0 ps s \<and> rounds clock (book_view s) ps \<and> blocks seen (book_view s) ps)"

lemma replayed_enqueue: "replayed d0 ps s \<Longrightarrow> landed s w \<Longrightarrow> replayed d0 (enqueue w ps) (write_ok s w)"
  by (auto simp: replayed_def enqueue_def)

lemma replayed_store: "ps_store ps' = ps_store ps \<Longrightarrow> replayed d0 ps' s = replayed d0 ps s"
  by (simp add: replayed_def)

section \<open>Events that leave the books alone\<close>

definition core where
  "core ps = (ps_shares_accepted ps, ps_shares_rejected ps, ps_round_accepted_base ps, ps_round_rejected_base ps,
     ps_round_offset_accepted ps, ps_round_offset_rejected ps, ps_round_work ps, ps_round_epoch ps, ps_round_since_ts ps,
     ps_reject_reasons ps, ps_round_reject_reasons_base ps, ps_round_offset_reject_reasons ps,
     ps_best_share_difficulty ps, ps_blocks_found ps, ps_blocks_inconclusive ps, ps_blocks_orphaned ps, ps_pending_blocks ps)"

lemma core_cong:
  assumes "core ps' = core ps"
  shows "rounds clock v ps' = rounds clock v ps" "blocks seen v ps' = blocks seen v ps"
  using assms by (cases v; simp add: core_def reason_total_def)+

definition round_core where
  "round_core ps = (ps_shares_accepted ps, ps_shares_rejected ps, ps_round_accepted_base ps, ps_round_rejected_base ps,
     ps_round_offset_accepted ps, ps_round_offset_rejected ps, ps_round_work ps, ps_round_epoch ps, ps_round_since_ts ps,
     ps_reject_reasons ps, ps_round_reject_reasons_base ps, ps_round_offset_reject_reasons ps, ps_best_share_difficulty ps)"

lemma rounds_cong: "round_core ps' = round_core ps \<Longrightarrow> rounds clock v ps' = rounds clock v ps"
  by (cases v) (simp add: round_core_def reason_total_def)

fun quiet :: "store_write \<Rightarrow> bool" where
  "quiet (Ledger ts es) \<longleftrightarrow> True"
| "quiet (WorkerBestShare w n) \<longleftrightarrow> True"
| "quiet (PruneWorkerBestShares n) \<longleftrightarrow> True"
| "quiet (BestHashrate h) \<longleftrightarrow> True"
| "quiet Flush \<longleftrightarrow> True"
| "quiet w \<longleftrightarrow> False"

lemma quiet_view:
  assumes "quiet w"
  shows "landed s w" "rounds clock (book_view (write_ok s w)) ps = rounds clock (book_view s) ps"
    "blocks seen (book_view (write_ok s w)) ps = blocks seen (book_view s) ps"
proof -
  have l: "book_view (write_ok s w) = book_view s" if "is_ledger w"
    using apply_ledger_view [OF that, of "(False, False)" "fst s" "snd s"]
    by (cases "apply_write (False, False) (fst s) w (snd s)") (simp add: write_ok_def)
  show "landed s w" using assms by (cases w) (auto simp: landed_def)
  show "rounds clock (book_view (write_ok s w)) ps = rounds clock (book_view s) ps"
    "blocks seen (book_view (write_ok s w)) ps = blocks seen (book_view s) ps"
    using assms l
    by (cases w; auto simp: write_ok_def apply_write_def book_view_def prune_worker_rows_def Let_def split: option.splits)+
qed

definition quiet_ext :: "pool_stats \<Rightarrow> pool_stats \<Rightarrow> bool" where
  "quiet_ext ps ps' \<longleftrightarrow> core ps' = core ps
     \<and> (\<exists>ws. list_all quiet ws \<and> ps_store ps' = map_option (\<lambda>q. q @ ws) (ps_store ps))"

lemma quiet_ext_refl: "core ps' = core ps \<Longrightarrow> ps_store ps' = ps_store ps \<Longrightarrow> quiet_ext ps ps'"
  by (auto simp: quiet_ext_def intro!: exI [of _ "[]"] simp: option.map_ident)

lemma quiet_ext_enqueue: "core ps' = core ps \<Longrightarrow> ps_store ps' = ps_store ps \<Longrightarrow> quiet w \<Longrightarrow> quiet_ext ps (enqueue w ps')"
  by (auto simp: quiet_ext_def enqueue_def core_def intro!: exI [of _ "[w]"])

lemma quiet_ext_trans: "quiet_ext a b \<Longrightarrow> quiet_ext b c \<Longrightarrow> quiet_ext a c"
proof (clarsimp simp: quiet_ext_def, goal_cases)
  case (1 us ws)
  then show ?case by (intro exI [of _ "us @ ws"]) (auto simp: option.map_comp comp_def)
qed

lemma books_quiet:
  assumes "books d0 clock seen ps" "quiet_ext ps ps'"
  shows "books d0 clock seen ps'"
proof -
  obtain s q where s: "ps_store ps = Some q" "lands (d0, writer_init) q" "drain (d0, writer_init) q = s"
    "rounds clock (book_view s) ps" "blocks seen (book_view s) ps"
    using assms(1) by (auto simp: books_def replayed_def)
  obtain ws where ws: "list_all quiet ws" "ps_store ps' = Some (q @ ws)" and core: "core ps' = core ps"
    using assms(2) s(1) by (auto simp: quiet_ext_def)
  have "lands s ws \<and> rounds clock (book_view (drain s ws)) ps \<and> blocks seen (book_view (drain s ws)) ps"
    using ws(1) s(4,5)
  proof (induction ws arbitrary: s)
    case (Cons w ws)
    then show ?case using quiet_view [of w] by simp
  qed simp
  then show ?thesis
    using s(2,3) ws(2) core_cong [OF core]
    by (auto simp: books_def replayed_def intro!: exI [of _ "drain s ws"])
qed

lemma core_with_worker [simp]: "core (with_worker w f ps) = core ps" "ps_store (with_worker w f ps) = ps_store ps"
  by (simp_all add: with_worker_def core_def split: option.splits)

lemma quiet_record_ledger: "quiet_ext ps (record_ledger worker work acc rej now ps)"
  by (auto simp: record_ledger_def persist_ledger_minute_def core_def
      intro!: quiet_ext_enqueue intro: quiet_ext_refl split: prod.splits option.splits)

lemma quiet_flush_ledger: "quiet_ext ps (flush_ledger_at now ps)" "quiet_ext ps (flush_ledger_partial ps)"
  by (auto simp: flush_ledger_at_def flush_ledger_partial_def persist_ledger_minute_def core_def
      intro!: quiet_ext_enqueue intro: quiet_ext_refl split: prod.splits option.splits)

lemma quiet_add_share_diff: "quiet_ext ps (add_share_diff_at sid worker diff now ps)"
  by (auto simp: add_share_diff_at_def core_def intro!: quiet_ext_refl split: option.splits)

lemma quiet_worker_share_accepted: "quiet_ext ps (worker_share_accepted worker diff ps)"
  by (auto simp: worker_share_accepted_def core_def with_worker_def Let_def
      intro!: quiet_ext_enqueue intro: quiet_ext_refl split: option.splits)

lemma quiet_worker_share_rejected: "quiet_ext ps (worker_share_rejected worker reason ps)"
  by (simp add: worker_share_rejected_def quiet_ext_refl)

lemma quiet_mark_submit: "quiet_ext ps (mark_worker_submit worker now ps)"
  by (rule quiet_ext_refl) (simp_all add: mark_worker_submit_def, simp add: core_def)

lemma quiet_tick: "quiet_ext ps (tick_hashrates_at ex now ps)"
  by (auto simp: tick_hashrates_at_def record_best_hashrate_def core_def Let_def
      intro!: quiet_ext_enqueue intro: quiet_ext_refl)

lemma quiet_prune: "quiet_ext ps (prune_idle_workers now ps)"
  by (auto simp: prune_idle_workers_def core_def Let_def intro!: quiet_ext_enqueue intro: quiet_ext_refl)

lemma quiet_online: "quiet_ext ps (mark_worker_online worker vd now ps)"
  by (auto simp: mark_worker_online_def core_def intro!: quiet_ext_refl split: option.splits)

lemma quiet_small:
  "quiet_ext ps (record_rate_limited ps)" "quiet_ext ps (miner_connected ps)" "quiet_ext ps (miner_disconnected ps)"
  "quiet_ext ps (mark_worker_offline worker ps)" "quiet_ext ps (update_worker_vardiff worker vd now ps)"
  "quiet_ext ps (set_worker_protocol worker protocol ps)" "quiet_ext ps (update_height height val n ps)"
  "quiet_ext ps (set_est_difficulty_change_pct pct (set_network_difficulty diff (set_network_hashrate hps ps)))"
  by (auto simp: record_rate_limited_def message_rate_limited_def miner_connected_def miner_disconnected_def
      mark_worker_offline_def update_worker_vardiff_def set_worker_protocol_def update_height_def
      set_est_difficulty_change_pct_def set_network_difficulty_def set_network_hashrate_def quiet_online
      intro!: quiet_ext_refl) (simp_all add: core_def)

section \<open>Shares\<close>

lemma booksE:
  assumes "books d0 clock seen ps"
  obtains s row reasons found epoch where "replayed d0 ps s" "book_view s = (row, reasons, found, epoch)"
    "rounds clock (row, reasons, found, epoch) ps" "blocks seen (row, reasons, found, epoch) ps"
  using assms unfolding books_def by (metis prod_cases4)

lemma booksI:
  assumes "replayed d0 ps s" "book_view s = v" "rounds clock v ps" "blocks seen v ps"
  shows "books d0 clock seen ps"
  using assms unfolding books_def by blast

lemma core_enqueue [simp]: "core (enqueue w ps) = core ps"
  by (simp add: core_def enqueue_def)

lemma books_enqueue:
  assumes "replayed d0 ps s" "landed s w" "book_view (write_ok s w) = v" "rounds clock v ps" "blocks seen v ps"
  shows "books d0 clock seen (enqueue w ps)"
  using booksI [OF replayed_enqueue [OF assms(1,2)] assms(3)] assms(4,5) core_cong [OF core_enqueue [of w ps]] by simp

lemma book_view_fields:
  "book_view s = (row, reasons, found, epoch) \<longleftrightarrow> db_round (fst s) = row \<and> db_reject_reasons (fst s) = reasons
     \<and> db_found (fst s) = found \<and> ws_round_epoch (snd s) = epoch"
  by (simp add: book_view_def)

lemma unat_Suc63: "unat a + 1 < 2 ^ 63 \<Longrightarrow> unat (a + 1) = unat a + 1" for a :: u64
  by (subst unat_add_no_wrap) simp_all

lemma books_share_accepted:
  assumes "books d0 clock seen ps"
    and "unat (ps_round_accepted_base ps) + unat (ps_shares_accepted ps) + 1 < 2 ^ 63"
    and "unat (ps_round_work ps) + unat credit < 2 ^ 63" "unat hash_diff < 2 ^ 63"
  shows "books d0 clock seen (share_accepted credit hash_diff ps)"
proof -
  obtain s row reasons found epoch where s: "replayed d0 ps s" "book_view s = (row, reasons, found, epoch)"
    "rounds clock (row, reasons, found, epoch) ps" "blocks seen (row, reasons, found, epoch) ps"
    using assms(1) by (rule booksE)
  let ?best = "ps_best_share_difficulty ps"
  define ps1 where "ps1 = ps\<lparr>ps_shares_accepted := ps_shares_accepted ps + 1, ps_pending_shares := ps_pending_shares ps + 1,
    ps_round_work := ps_round_work ps + credit, ps_best_share_difficulty := max ?best hash_diff,
    ps_session_best_share_difficulty := max (ps_session_best_share_difficulty ps) hash_diff\<rparr>"
  have eq: "share_accepted credit hash_diff ps = (if ?best < hash_diff then enqueue (BestShare hash_diff) ps1 else ps1)"
    by (simp add: share_accepted_def ps1_def Let_def)
  have acc: "unat (ps_shares_accepted ps + 1) = unat (ps_shares_accepted ps) + 1"
    and work: "unat (ps_round_work ps + credit) = unat (ps_round_work ps) + unat credit"
    using assms(2,3) by (simp_all add: unat_add_no_wrap)
  have store: "replayed d0 ps1 s" using s(1) replayed_store [of ps1 ps] by (simp add: ps1_def)
  have b: "blocks seen (row', reasons, found, epoch) ps1" for row' using s(4) by (simp add: ps1_def)
  show ?thesis
  proof (cases "?best < hash_diff")
    case True
    have v: "book_view (write_ok s (BestShare hash_diff)) = (row\<lparr>rr_best_share := unat hash_diff\<rparr>, reasons, found, epoch)"
      using s(2,3) True assms(4) by (auto simp: write_ok_def apply_write_def book_view_def sql_int_def word_less_nat_alt)
    have r: "rounds clock (row\<lparr>rr_best_share := unat hash_diff\<rparr>, reasons, found, epoch) ps1"
      using s(3) assms True by (auto simp: ps1_def acc work reason_total_def max_def)
    have "landed s (BestShare hash_diff)" by (simp add: landed_def)
    from books_enqueue [OF store this v r b] True eq show ?thesis by simp
  next
    case False
    have "rounds clock (row, reasons, found, epoch) ps1"
      using s(3) assms False by (auto simp: ps1_def acc work reason_total_def max_def)
    from booksI [OF store s(2) this b] False eq show ?thesis by simp
  qed
qed

lemma count_of_add: "count_of (count_add k n m) r = count_of m r + (if r = k then n else 0)"
  by (simp add: count_of_def count_add_def AList.update_conv')

lemma books_share_rejected:
  assumes "books d0 clock seen ps"
    and "unat (ps_round_rejected_base ps) + unat (ps_shares_rejected ps) + 1 < 2 ^ 63" "reason_total ps reason + 1 < 2 ^ 63"
  shows "books d0 clock seen (share_rejected reason ps)"
proof -
  obtain s row reasons found epoch where s: "replayed d0 ps s" "book_view s = (row, reasons, found, epoch)"
    "rounds clock (row, reasons, found, epoch) ps" "blocks seen (row, reasons, found, epoch) ps"
    using assms(1) by (rule booksE)
  have rej: "unat (ps_shares_rejected ps + 1) = unat (ps_shares_rejected ps) + 1"
    using assms(2) by (simp add: unat_add_no_wrap)
  have tot: "reason_total (share_rejected reason ps) r = reason_total ps r + (if r = reason then 1 else 0)" for r
    using assms(3) by (auto simp: reason_total_def share_rejected_def count_of_add unat_add_no_wrap)
  have "rounds clock (row, reasons, found, epoch) (share_rejected reason ps)"
    using s(3) assms(2,3) unfolding rounds.simps tot
    by (auto simp: share_rejected_def rej count_add_def distinct_update trans_le_add1)
  moreover have "blocks seen (row, reasons, found, epoch) (share_rejected reason ps)"
    using s(4) by (simp add: share_rejected_def)
  moreover have "replayed d0 (share_rejected reason ps) s"
    using s(1) replayed_store [of "share_rejected reason ps" ps] by (simp add: share_rejected_def)
  ultimately show ?thesis using booksI s(2) by blast
qed

section \<open>Round resets\<close>

definition reset_core :: "u64 \<Rightarrow> pool_stats \<Rightarrow> pool_stats" where
  "reset_core now ps =
     ps\<lparr>ps_round_offset_accepted := sat_add (ps_round_accepted_base ps) (ps_shares_accepted ps),
        ps_round_offset_rejected := sat_add (ps_round_rejected_base ps) (ps_shares_rejected ps),
        ps_round_offset_reject_reasons := merged_reasons ps,
        ps_round_work := 0, ps_best_share_difficulty := 0, ps_best_hashrate_hps := Fin 0,
        ps_round_since_ts := now, ps_worker_best_shares := [],
        ps_worker_states := map (\<lambda>(w, s). (w, s\<lparr>wk_best_share_difficulty := 0\<rparr>)) (ps_worker_states ps),
        ps_round_epoch := ps_round_epoch ps + 1\<rparr>"

lemma round_reset_eq: "round_reset now ps = enqueue (RoundReset (ps_round_epoch ps + 1) now) (reset_core now ps)"
  by (simp add: round_reset_def reset_core_def Let_def)

lemma count_of_Cons: "count_of ((k, n) # m) r = (if r = k then n else count_of m r)"
  by (simp add: count_of_def)

lemma count_of_absent: "r \<notin> fst ` set m \<Longrightarrow> count_of m r = 0"
  by (metis count_of_def map_of_eq_None_iff option.simps(4))

lemma count_of_fold:
  "distinct (map fst xs) \<Longrightarrow> count_of (foldl (\<lambda>m (k, n). count_add k n m) m xs) r = count_of m r + count_of xs r"
proof (induction xs arbitrary: m)
  case (Cons x xs)
  then show ?case by (cases x) (auto simp: count_of_add count_of_Cons count_of_absent)
qed (simp add: count_of_def)

lemma count_of_merged:
  "distinct (map fst (ps_reject_reasons ps)) \<Longrightarrow>
   count_of (merged_reasons ps) r = count_of (ps_round_reject_reasons_base ps) r + count_of (ps_reject_reasons ps) r"
  unfolding merged_reasons_def by (rule count_of_fold)

lemma unat_merged:
  assumes "distinct (map fst (ps_reject_reasons ps))" "reason_total ps r < 2 ^ 63"
  shows "unat (count_of (merged_reasons ps) r) = reason_total ps r"
  using assms by (simp add: count_of_merged reason_total_def unat_add_no_wrap)

lemma unat_total63:
  "unat a + unat b < 2 ^ 63 \<Longrightarrow> unat (sat_add a b) = unat a + unat b" for a b :: u64
  by (simp add: unat_sat_add)

definition zero_row :: "round_row \<Rightarrow> u64 \<Rightarrow> round_row" where
  "zero_row row now = \<lparr> rr_accepted = 0, rr_rejected = 0, rr_work = 0, rr_since_ts = unat now, rr_best_share = 0,
     rr_best_hashrate = Fin 0 \<rparr>"

lemma rounds_reset:
  assumes "rounds clock (row, reasons, found, epoch) ps" "clock \<le> unat now" "unat now < 2 ^ 63"
  shows "rounds (unat now) (zero_row row now, [], found, epoch + 1) (reset_core now ps)"
proof -
  have tot: "reason_total (reset_core now ps) r = reason_total ps r" for r by (simp add: reset_core_def reason_total_def)
  have off: "unat (count_of (ps_round_offset_reject_reasons (reset_core now ps)) r) = reason_total ps r" for r
    using assms(1) unat_merged [of ps r] by (simp add: reset_core_def)
  show ?thesis using assms unfolding rounds.simps tot off
    by (fastforce simp: reset_core_def zero_row_def unat_total63 nat_count_of_def)
qed

lemma reset_view:
  assumes "book_view s = (row, reasons, found, epoch)" "unat now < 2 ^ 63" "unat epoch + 1 < 2 ^ 64"
  shows "book_view (write_ok s (RoundReset (epoch + 1) now)) = (zero_row row now, [], found, epoch + 1)"
    "landed s (RoundReset (epoch + 1) now)"
proof -
  have "epoch \<le> epoch + 1" using assms(3) unat_add_no_wrap [of epoch 1] by (simp add: word_le_nat_alt)
  then show "book_view (write_ok s (RoundReset (epoch + 1) now)) = (zero_row row now, [], found, epoch + 1)"
    "landed s (RoundReset (epoch + 1) now)"
    using assms by (auto simp: write_ok_def landed_def apply_write_def book_view_def apply_round_reset_def zero_row_def
        sql_int_def max_def)
qed

section \<open>Found blocks\<close>

lemma block_counts_eq:
  "block_counts found =
     (length (filter (\<lambda>(h, r). if pb_won_at_submit (br_block r) then br_status r \<noteq> ''orphaned'' else br_status r = ''confirmed'') found),
      length (filter (\<lambda>(h, r). pb_won_at_submit (br_block r) \<and> br_status r = ''orphaned'') found),
      length (filter (\<lambda>(h, r). \<not> pb_won_at_submit (br_block r) \<and> br_status r \<noteq> ''confirmed'') found))"
  unfolding block_counts_def Let_def
  by (intro arg_cong2 [of _ _ _ _ Pair] arg_cong [of _ _ length] filter_cong refl) auto

lemma counts_le: "block_counts found = (a, b, c) \<Longrightarrow> a \<le> length found \<and> b \<le> length found \<and> c \<le> length found"
  by (auto simp: block_counts_def Let_def)

lemma length_filter_update:
  assumes "distinct (map fst m)" "map_of m k = Some v"
  shows "length (filter (\<lambda>(h, r). P r) (AList.update k v' m)) + (if P v then 1 else 0)
     = length (filter (\<lambda>(h, r). P r) m) + (if P v' then 1 else (0::nat))"
  using assms by (induction m) (auto split: if_splits)

lemma wins_of_append: "wins_of (found @ [(h, row)]) =
    wins_of found \<union> (if pb_won_at_submit (br_block row) then {unat (pb_found_ts (br_block row))} else {})"
  by (auto simp: wins_of_def)

lemma found_view:
  assumes "book_view s = (row, reasons, found, epoch)" "unat (pb_height b) < 2 ^ 63" "unat (pb_found_ts b) < 2 ^ 63"
    and "pb_hash b \<notin> fst ` set found"
  shows "book_view (write_ok s (BlockFound b)) = (row, reasons,
      found @ [(pb_hash b, \<lparr> br_block = b, br_status = BLOCK_STATUS_PENDING, br_resolved_ts = None \<rparr>)], epoch)"
    "landed s (BlockFound b)"
proof -
  have "map_of (db_found (fst s)) (pb_hash b) = None"
    using assms(1,4) by (simp add: book_view_def map_of_eq_None_iff)
  then show "book_view (write_ok s (BlockFound b)) = (row, reasons,
      found @ [(pb_hash b, \<lparr> br_block = b, br_status = BLOCK_STATUS_PENDING, br_resolved_ts = None \<rparr>)], epoch)"
    "landed s (BlockFound b)"
    using assms by (auto simp: write_ok_def landed_def apply_write_def book_view_def insert_found_def sql_int_def)
qed

lemma rounds_more: "rounds clock v ps \<Longrightarrow> clock \<le> clock' \<Longrightarrow> clock' < 2 ^ 63 \<Longrightarrow> rounds clock' v ps"
  by (cases v) auto

lemma pending_of_append:
  "h \<notin> fst ` set found \<Longrightarrow>
   pending_of (found @ [(h, row)]) = (pending_of found)(h := if br_status row = BLOCK_STATUS_PENDING then Some (br_block row) else None)"
  by (auto simp: pending_of_def map_of_eq_None_iff [symmetric] map_add_def split: option.splits)

lemma blocks_enroll:
  assumes "blocks seen (row, reasons, found, epoch) ps" "hash \<notin> seen" "card seen + 1 < 2 ^ 63"
    and "b = \<lparr> pb_hash = hash, pb_height = height, pb_worker = worker, pb_payout = payout, pb_found_ts = now, pb_won_at_submit = won \<rparr>"
    and "ps_pending_blocks ps' = ps_pending_blocks ps @ [(hash, b)]" "ps_blocks_orphaned ps' = ps_blocks_orphaned ps"
    and "ps_blocks_found ps' = ps_blocks_found ps + (if won then 1 else 0)"
    and "ps_blocks_inconclusive ps' = ps_blocks_inconclusive ps + (if won then 0 else 1)"
  shows "blocks (seen \<union> {hash}) (row', reasons',
      found @ [(hash, \<lparr> br_block = b, br_status = BLOCK_STATUS_PENDING, br_resolved_ts = None \<rparr>)], epoch') ps'"
proof -
  note bl = assms(1) [unfolded blocks.simps]
  have len: "length found = card seen" using bl distinct_card [of "map fst found"] by simp
  from bl have c: "block_counts found = (unat (ps_blocks_found ps), unat (ps_blocks_orphaned ps), unat (ps_blocks_inconclusive ps))"
    by simp
  note le = counts_le [OF c]
  have new: "hash \<notin> fst ` set found" using bl assms(2) by simp
  then have "map_of found hash = None" by (simp add: map_of_eq_None_iff)
  then have "map_of (ps_pending_blocks ps) hash = None" using bl by (simp add: pending_of_def)
  then have pend: "hash \<notin> fst ` set (ps_pending_blocks ps)" by (simp add: map_of_eq_None_iff)
  have "map_of (ps_pending_blocks ps') = pending_of (found @ [(hash, \<lparr> br_block = b, br_status = BLOCK_STATUS_PENDING, br_resolved_ts = None \<rparr>)])"
    using bl pend
    by (auto simp: assms(5) pending_of_append [OF new] map_add_def fun_eq_iff map_of_eq_None_iff [symmetric] split: option.splits)
  moreover have "block_counts (found @ [(hash, \<lparr> br_block = b, br_status = BLOCK_STATUS_PENDING, br_resolved_ts = None \<rparr>)])
      = (unat (ps_blocks_found ps'), unat (ps_blocks_orphaned ps'), unat (ps_blocks_inconclusive ps'))"
    using c le len assms(3) unfolding assms(6-8)
    by (auto simp: block_counts_eq assms(4) BLOCK_STATUS_PENDING_def unat_Suc63)
  moreover have "(h, r) \<in> set (found @ [(hash, \<lparr> br_block = b, br_status = BLOCK_STATUS_PENDING, br_resolved_ts = None \<rparr>)])
      \<Longrightarrow> pb_hash (br_block r) = h" for h r
    using bl assms(4) by auto
  ultimately show ?thesis
    using bl new pend len assms(3) unfolding blocks.simps by (auto simp: assms(5))
qed

text \<open>A won block resets the round; \<open>q\<close> is the state after it, up to what is not of the round.\<close>

lemma block_found_step:
  assumes "replayed d0 ps s" "book_view s = (row, reasons, found, epoch)" "rounds clock (row, reasons, found, epoch) ps"
    and "clock \<le> unat now" "unat now < 2 ^ 63" "unat epoch + 1 < 2 ^ 64" "ps_store p = ps_store ps" "round_core p = round_core ps"
    and "ps_store q = ps_store (block_found now p)" "round_core q = round_core (block_found now p)"
  shows "replayed d0 q (write_ok s (RoundReset (epoch + 1) now))"
    "rounds (unat now) (zero_row row now, [], found, epoch + 1) q"
proof -
  let ?r = "reset_core now (p\<lparr>ps_blocks_found := ps_blocks_found p + 1\<rparr>)"
  have p: "rounds clock (row, reasons, found, epoch) p" using assms(3) by (simp only: rounds_cong [OF assms(8)])
  then have eq: "block_found now p = enqueue (RoundReset (epoch + 1) now) ?r" by (simp add: block_found_def round_reset_eq)
  have "replayed d0 ?r s" using assms(1,7) replayed_store [of ?r ps] by (simp add: reset_core_def)
  from replayed_enqueue [OF this reset_view(2) [OF assms(2,5,6)]]
  show "replayed d0 q (write_ok s (RoundReset (epoch + 1) now))" using eq assms(9) replayed_store [of q] by metis
  have "round_core q = round_core (reset_core now p)"
    unfolding assms(10) eq by (simp add: round_core_def reset_core_def enqueue_def merged_reasons_def)
  then show "rounds (unat now) (zero_row row now, [], found, epoch + 1) q"
    using rounds_cong rounds_reset [OF p assms(4,5)] by blast
qed

lemma books_outcome:
  assumes "books d0 clock seen ps" "event_ok clock seen (EOutcome oc height worker payout hash now now2) ps"
  shows "books d0 (unat now2) (seen \<union> {hash}) (record_block_outcome oc height worker payout hash now now2 ps)"
proof -
  obtain s row reasons found epoch where s: "replayed d0 ps s" "book_view s = (row, reasons, found, epoch)"
    "rounds clock (row, reasons, found, epoch) ps" "blocks seen (row, reasons, found, epoch) ps"
    using assms(1) by (rule booksE)
  have ok: "clock \<le> unat now" "now2 = now" "unat now < 2 ^ 63" "unat height < 2 ^ 63" "hash \<notin> seen"
    "card seen + 1 < 2 ^ 63" "unat epoch + 1 < 2 ^ 64" using assms(2) s(3) by auto
  define b where "b = \<lparr> pb_hash = hash, pb_height = height, pb_worker = worker, pb_payout = payout, pb_found_ts = now,
    pb_won_at_submit = is_win oc \<rparr>"
  define ps1 where "ps1 = (if is_win oc then block_found now ps else block_inconclusive ps)"
  define ps2 where "ps2 = ps1\<lparr>ps_pending_blocks := ps_pending_blocks ps1 @ [(hash, b)]\<rparr>"
  have new: "hash \<notin> fst ` set found" using s(4) ok(5) by simp
  then have "map_of found hash = None" by (simp add: map_of_eq_None_iff)
  then have "map_of (ps_pending_blocks ps) hash = None" using s(4) by (simp add: pending_of_def)
  then have eq: "record_block_outcome oc height worker payout hash now now2 ps = enqueue (BlockFound b) ps2"
    by (simp add: record_block_outcome_def enroll_pending_block_def b_def ok(2) ps1_def ps2_def Let_def block_found_def
        round_reset_eq reset_core_def enqueue_def block_inconclusive_def)
  have "\<exists>s1 row1 reasons1 epoch1. replayed d0 ps2 s1 \<and> book_view s1 = (row1, reasons1, found, epoch1)
      \<and> rounds (unat now) (row1, reasons1, found, epoch1) ps2 \<and> (is_win oc \<longrightarrow> rr_since_ts row1 = unat now)"
  proof (cases "is_win oc")
    case True
    then have q: "ps_store ps2 = ps_store (block_found now ps)" "round_core ps2 = round_core (block_found now ps)"
      by (simp_all add: ps2_def ps1_def round_core_def)
    from block_found_step [OF s(1-3) ok(1,3,7) refl refl q] show ?thesis
      using reset_view(1) [OF s(2) ok(3,7)] by (fastforce simp: zero_row_def)
  next
    case False
    then have "replayed d0 ps2 s" using s(1) replayed_store [of ps2 ps] by (simp add: ps2_def ps1_def block_inconclusive_def)
    moreover have "rounds (unat now) (row, reasons, found, epoch) ps2"
      using rounds_more [OF s(3) ok(1,3)] False rounds_cong [of ps2 ps]
      by (simp add: round_core_def ps2_def ps1_def block_inconclusive_def del: rounds.simps)
    ultimately show ?thesis using s(2) False by blast
  qed
  then obtain s1 row1 reasons1 epoch1 where s1: "replayed d0 ps2 s1" "book_view s1 = (row1, reasons1, found, epoch1)"
    "rounds (unat now) (row1, reasons1, found, epoch1) ps2" "is_win oc \<Longrightarrow> rr_since_ts row1 = unat now" by blast
  have v: "book_view (write_ok s1 (BlockFound b)) = (row1, reasons1,
      found @ [(hash, \<lparr> br_block = b, br_status = BLOCK_STATUS_PENDING, br_resolved_ts = None \<rparr>)], epoch1)" "landed s1 (BlockFound b)"
    using found_view [OF s1(2), of b] ok new by (simp_all add: b_def)
  have bl: "blocks (seen \<union> {hash}) (row1, reasons1,
      found @ [(hash, \<lparr> br_block = b, br_status = BLOCK_STATUS_PENDING, br_resolved_ts = None \<rparr>)], epoch1) ps2"
    by (rule blocks_enroll [OF s(4) ok(5,6) b_def])
      (simp_all add: ps2_def ps1_def block_found_def round_reset_eq reset_core_def enqueue_def block_inconclusive_def)
  have "rounds (unat now) (row1, reasons1,
      found @ [(hash, \<lparr> br_block = b, br_status = BLOCK_STATUS_PENDING, br_resolved_ts = None \<rparr>)], epoch1) ps2"
    using s1(3,4) by (auto simp: wins_of_append b_def)
  from books_enqueue [OF s1(1) v(2) v(1) this bl] eq ok(2) show ?thesis by simp
qed

lemma resolve_view:
  assumes "book_view s = (row, reasons, found, epoch)" "map_of found h = Some r" "br_status r = BLOCK_STATUS_PENDING"
    and "unat ts < 2 ^ 63"
  shows "book_view (write_ok s (BlockResolved h res ts)) = (row, reasons,
      AList.update h (r\<lparr>br_status := resolution_label res, br_resolved_ts := Some ts\<rparr>) found, epoch)"
    "landed s (BlockResolved h res ts)"
  using assms by (auto simp: write_ok_def landed_def apply_write_def book_view_def resolve_found_def sql_int_def)

lemma wins_of_resolve:
  assumes "distinct (map fst found)" "map_of found h = Some r" "br_block r' = br_block r"
  shows "wins_of (AList.update h r' found) \<subseteq> wins_of found"
proof -
  have old: "\<exists>y. (h', y) \<in> set found \<and> br_block y = br_block x" if "(h', x) \<in> set (AList.update h r' found)" for h' x
    using assms that by (induction found) (auto split: if_splits intro: map_of_SomeD)
  show ?thesis
  proof
    fix t assume "t \<in> wins_of (AList.update h r' found)"
    then obtain h' x where x: "(h', x) \<in> set (AList.update h r' found)" "pb_won_at_submit (br_block x)"
      "t = unat (pb_found_ts (br_block x))" by (auto simp: wins_of_def)
    from old [OF x(1)] obtain y where "(h', y) \<in> set found" "br_block y = br_block x" by blast
    then show "t \<in> wins_of found" using x(2,3) unfolding wins_of_def by (intro CollectI exI [of _ h'] exI [of _ y]) simp
  qed
qed

lemma length_update_mem: "k \<in> fst ` set m \<Longrightarrow> length (AList.update k v m) = length m"
  by (induction m) auto

lemma label_not_pending: "resolution_label res \<noteq> BLOCK_STATUS_PENDING"
  by (cases res) (simp_all add: BLOCK_STATUS_PENDING_def)

lemma pending_of_resolve:
  assumes "br_status r' \<noteq> BLOCK_STATUS_PENDING"
  shows "pending_of (AList.update h r' found) = (pending_of found)(h := None)"
  using assms by (auto simp: pending_of_def AList.update_conv')

text \<open>What a resolution does to the three counters, as \<open>resolve_block\<close> does.\<close>

lemma counts_resolve:
  assumes "distinct (map fst found)" "map_of found h = Some r" "br_status r = BLOCK_STATUS_PENDING"
    and "block_counts found = (a, b, c)" "r' = r\<lparr>br_status := resolution_label res, br_resolved_ts := ts\<rparr>"
  shows "block_counts (AList.update h r' found) =
    (case (pb_won_at_submit (br_block r), res) of
       (True, Orphaned) \<Rightarrow> (a - 1, b + 1, c) | (False, Confirmed) \<Rightarrow> (a + 1, b, c - 1) | _ \<Rightarrow> (a, b, c))
     \<and> (pb_won_at_submit (br_block r) \<longrightarrow> 1 \<le> a) \<and> (\<not> pb_won_at_submit (br_block r) \<longrightarrow> 1 \<le> c)"
proof -
  note u = length_filter_update [OF assms(1,2), of _ r']
  have cnt: "1 \<le> length (filter (\<lambda>(h, r). P r) found)" if "P r" for P
  proof -
    have "(h, r) \<in> set (filter (\<lambda>(h, r). P r) found)" using that map_of_SomeD [OF assms(2)] by simp
    then show ?thesis by (metis One_nat_def Suc_leI length_pos_if_in_set)
  qed
  let ?f = "\<lambda>r. if pb_won_at_submit (br_block r) then br_status r \<noteq> ''orphaned'' else br_status r = ''confirmed''"
  let ?o = "\<lambda>r. pb_won_at_submit (br_block r) \<and> br_status r = ''orphaned''"
  let ?i = "\<lambda>r. \<not> pb_won_at_submit (br_block r) \<and> br_status r \<noteq> ''confirmed''"
  from assms(4) have abc: "length (filter (\<lambda>(h, r). ?f r) found) = a" "length (filter (\<lambda>(h, r). ?o r) found) = b"
    "length (filter (\<lambda>(h, r). ?i r) found) = c" by (simp_all add: block_counts_eq)
  show ?thesis
    using u [of ?f] u [of ?o] u [of ?i] cnt [of ?f] cnt [of ?i] abc assms(3)
    unfolding block_counts_eq
    by (cases res; cases "pb_won_at_submit (br_block r)") (auto simp: assms(5) BLOCK_STATUS_PENDING_def)
qed

lemma blocks_resolve:
  assumes "blocks seen (row, reasons, found, epoch) ps" "map_of found (pb_hash b) = Some r"
    and "br_status r = BLOCK_STATUS_PENDING" "br_block r = b"
    and "ps_pending_blocks ps' = AList.delete (pb_hash b) (ps_pending_blocks ps)"
    and "(ps_blocks_found ps', ps_blocks_orphaned ps', ps_blocks_inconclusive ps') =
      (case (pb_won_at_submit b, res) of
         (True, Orphaned) \<Rightarrow> (sat_sub (ps_blocks_found ps) 1, ps_blocks_orphaned ps + 1, ps_blocks_inconclusive ps)
       | (False, Confirmed) \<Rightarrow> (ps_blocks_found ps + 1, ps_blocks_orphaned ps, sat_sub (ps_blocks_inconclusive ps) 1)
       | _ \<Rightarrow> (ps_blocks_found ps, ps_blocks_orphaned ps, ps_blocks_inconclusive ps))"
  shows "blocks seen (row', reasons',
      AList.update (pb_hash b) (r\<lparr>br_status := resolution_label res, br_resolved_ts := ts\<rparr>) found, epoch') ps'"
proof -
  note bl = assms(1) [unfolded blocks.simps]
  define r' where "r' = r\<lparr>br_status := resolution_label res, br_resolved_ts := ts\<rparr>"
  have k: "pb_hash b \<in> fst ` set found" using map_of_SomeD [OF assms(2)] by force
  have cs: "block_counts found = (unat (ps_blocks_found ps), unat (ps_blocks_orphaned ps), unat (ps_blocks_inconclusive ps))"
    using bl by simp
  have le: "unat (ps_blocks_found ps) + 1 < 2 ^ 64" "unat (ps_blocks_orphaned ps) + 1 < 2 ^ 64"
    using counts_le [OF cs] bl by auto
  have "block_counts (AList.update (pb_hash b) r' found) =
      (unat (ps_blocks_found ps'), unat (ps_blocks_orphaned ps'), unat (ps_blocks_inconclusive ps'))"
    using counts_resolve [OF _ assms(2,3) cs r'_def] bl assms(4,6) le
    by (cases res; cases "pb_won_at_submit b") (auto simp: unat_sat_sub unat_add_no_wrap)
  moreover have "map_of (ps_pending_blocks ps') = pending_of (AList.update (pb_hash b) r' found)"
    using bl label_not_pending by (simp add: assms(5) pending_of_resolve r'_def delete_conv')
  moreover have "(h, x) \<in> set (AList.update (pb_hash b) r' found) \<Longrightarrow> pb_hash (br_block x) = h" for h x
  proof -
    assume "(h, x) \<in> set (AList.update (pb_hash b) r' found)"
    then have "map_of (AList.update (pb_hash b) r' found) h = Some x"
      using bl distinct_update [of found "pb_hash b" r'] by simp
    then show "pb_hash (br_block x) = h"
      using bl assms(4) map_of_SomeD [of found h x] by (auto simp: AList.update_conv' r'_def split: if_splits)
  qed
  ultimately show ?thesis
    using bl k unfolding blocks.simps r'_def [symmetric]
    by (auto simp: assms(5) distinct_update distinct_delete dom_update length_update_mem)
qed

text \<open>The statistics while a pending block is resolved, before the write is queued.\<close>

definition resolving :: "pending_block \<Rightarrow> block_resolution \<Rightarrow> u64 \<Rightarrow> pool_stats \<Rightarrow> pool_stats" where
  "resolving b res now1 ps =
     (let ps0 = ps\<lparr>ps_pending_blocks := AList.delete (pb_hash b) (ps_pending_blocks ps)\<rparr> in
      case (pb_won_at_submit b, res) of
        (True, Orphaned) \<Rightarrow> ps0\<lparr>ps_blocks_orphaned := ps_blocks_orphaned ps0 + 1, ps_blocks_found := sat_sub (ps_blocks_found ps0) 1\<rparr>
      | (False, Confirmed) \<Rightarrow> block_found now1 (ps0\<lparr>ps_blocks_inconclusive := sat_sub (ps_blocks_inconclusive ps0) 1\<rparr>)
      | _ \<Rightarrow> ps0)"

lemma resolving_step:
  assumes "replayed d0 ps s" "book_view s = (row, reasons, found, epoch)" "rounds clock (row, reasons, found, epoch) ps"
    and ok: "clock \<le> unat now1" "unat now1 \<le> unat now2" "unat now2 < 2 ^ 63" "unat epoch + 1 < 2 ^ 64"
  shows "\<exists>s1 row1 reasons1 epoch1. replayed d0 (resolving b res now1 ps) s1 \<and> book_view s1 = (row1, reasons1, found, epoch1)
    \<and> rounds (unat now2) (row1, reasons1, found, epoch1) (resolving b res now1 ps)"
proof (cases "\<not> pb_won_at_submit b \<and> res = Confirmed")
  case True
  let ?p = "ps\<lparr>ps_pending_blocks := AList.delete (pb_hash b) (ps_pending_blocks ps),
    ps_blocks_inconclusive := sat_sub (ps_blocks_inconclusive ps) 1\<rparr>"
  have n1: "unat now1 < 2 ^ 63" using ok by linarith
  have p: "ps_store ?p = ps_store ps" "round_core ?p = round_core ps" "resolving b res now1 ps = block_found now1 ?p"
    using True by (simp_all add: resolving_def round_core_def)
  note f = block_found_step [OF assms(1-3) ok(1) n1 ok(4) p(1,2), of "resolving b res now1 ps"]
  show ?thesis using f(1) rounds_more [OF f(2) ok(2,3)] reset_view(1) [OF assms(2) n1 ok(4)] p(3) by metis
next
  case False
  then have p: "round_core (resolving b res now1 ps) = round_core ps" "ps_store (resolving b res now1 ps) = ps_store ps"
    by (auto simp: round_core_def resolving_def Let_def split: bool.splits block_resolution.splits)
  have "rounds (unat now2) (row, reasons, found, epoch) ps"
    using ok by (intro rounds_more [OF assms(3)]) simp_all
  then show ?thesis using assms(1,2) rounds_cong [OF p(1)] replayed_store [OF p(2)] by blast
qed

lemma books_resolve:
  assumes "books d0 clock seen ps" "event_ok clock seen (EResolve b res now1 now2) ps"
  shows "books d0 (unat now2) seen (snd (record_block_resolution b res now1 now2 ps))"
proof -
  obtain s row reasons found epoch where s: "replayed d0 ps s" "book_view s = (row, reasons, found, epoch)"
    "rounds clock (row, reasons, found, epoch) ps" "blocks seen (row, reasons, found, epoch) ps"
    using assms(1) by (rule booksE)
  have ok: "clock \<le> unat now1" "unat now1 \<le> unat now2" "unat now2 < 2 ^ 63" "unat epoch + 1 < 2 ^ 64"
    "map_of (ps_pending_blocks ps) (pb_hash b) \<in> {None, Some b}"
    using assms(2) s(3) by (auto simp: word_le_nat_alt)
  show ?thesis
  proof (cases "map_of (ps_pending_blocks ps) (pb_hash b)")
    case None
    then have "snd (record_block_resolution b res now1 now2 ps) = ps"
      by (simp add: record_block_resolution_def resolve_block_def)
    then show ?thesis using booksI [OF s(1,2) rounds_more [OF s(3)] s(4), of "unat now2"] ok by simp
  next
    case (Some b')
    have "pending_of found (pb_hash b) = Some b" using s(4) Some ok(5) by (auto simp: blocks.simps)
    then obtain r where r: "map_of found (pb_hash b) = Some r" "br_status r = BLOCK_STATUS_PENDING" "br_block r = b"
      by (auto simp: pending_of_def split: option.splits if_splits)
    have eq: "snd (record_block_resolution b res now1 now2 ps) = enqueue (BlockResolved (pb_hash b) res now2) (resolving b res now1 ps)"
      using Some by (cases "pb_won_at_submit b"; cases res)
        (simp_all add: record_block_resolution_def resolve_block_def resolving_def)
    obtain s1 row1 reasons1 epoch1 where s1: "replayed d0 (resolving b res now1 ps) s1" "book_view s1 = (row1, reasons1, found, epoch1)"
      "rounds (unat now2) (row1, reasons1, found, epoch1) (resolving b res now1 ps)"
      using resolving_step [OF s(1-3) ok(1-4)] by blast
    note v = resolve_view [OF s1(2) r(1,2) ok(3), of res]
    let ?f = "AList.update (pb_hash b) (r\<lparr>br_status := resolution_label res, br_resolved_ts := Some now2\<rparr>) found"
    have bl: "blocks seen (row1, reasons1, ?f, epoch1) (resolving b res now1 ps)"
      by (rule blocks_resolve [OF s(4) r])
        (auto simp: resolving_def Let_def block_found_def round_reset_eq reset_core_def enqueue_def split: bool.splits block_resolution.splits)
    have "wins_of ?f \<subseteq> wins_of found" using s(4) r by (intro wins_of_resolve [OF _ r(1)]) simp_all
    then have "rounds (unat now2) (row1, reasons1, ?f, epoch1) (resolving b res now1 ps)" using s1(3) by auto
    from books_enqueue [OF s1(1) v(2) v(1) this bl] eq show ?thesis by simp
  qed
qed

section \<open>Snapshots\<close>

lemma nat_count_fold:
  "distinct (map fst xs) \<Longrightarrow>
   nat_count_of (foldl (\<lambda>rows (reason, c). upsert_max reason (unat c) rows) m xs) r = max (nat_count_of m r) (unat (count_of xs r))"
proof (induction xs arbitrary: m)
  case (Cons x xs)
  then show ?case
    by (cases x) (auto simp: count_of_Cons count_of_absent upsert_max_def nat_count_of_def AList.update_conv' split: option.splits)
qed (simp add: count_of_def)

lemma distinct_fold_upsert:
  "distinct (map fst m) \<Longrightarrow> distinct (map fst (foldl (\<lambda>rows (reason, c). upsert_max reason (unat c) rows) m xs))"
  by (induction xs arbitrary: m) (auto simp: upsert_max_def distinct_update)

lemma distinct_merged:
  "distinct (map fst (ps_round_reject_reasons_base ps)) \<Longrightarrow> distinct (map fst (merged_reasons ps))"
proof -
  have "distinct (map fst m) \<Longrightarrow> distinct (map fst (foldl (\<lambda>m (k, n). count_add k n m) m xs))" for m xs
    by (induction xs arbitrary: m) (auto simp: count_add_def distinct_update)
  then show "distinct (map fst (ps_round_reject_reasons_base ps)) \<Longrightarrow> ?thesis" by (simp add: merged_reasons_def)
qed

lemma count_of_filter_map:
  "distinct (map fst m) \<Longrightarrow>
   count_of (filter (\<lambda>(_, c). 0 < c) (map (\<lambda>(k, c). (k, f k c)) m)) r = (if r \<in> fst ` set m then f r (count_of m r) else 0)"
proof (induction m)
  case (Cons x m)
  obtain k c where x: "x = (k, c)" by (cases x)
  have "count_of (filter (\<lambda>(_, c). 0 < c) (map (\<lambda>(k, c). (k, f k c)) m)) k = 0"
    using Cons.prems x by (intro count_of_absent) (auto simp: image_iff)
  then show ?case using Cons x by (auto simp: count_of_Cons word_gt_0)
qed (simp add: count_of_def)

lemma distinct_round_reasons:
  "distinct (map fst (ps_round_reject_reasons_base ps)) \<Longrightarrow> distinct (map fst (round_reject_reasons ps))"
  using distinct_map_filter [of fst "map (\<lambda>(reason, count). (reason, sat_sub count (case map_of (ps_round_offset_reject_reasons ps) reason of None \<Rightarrow> 0 | Some c \<Rightarrow> c))) (merged_reasons ps)"]
    distinct_merged [of ps] by (simp add: round_reject_reasons_def comp_def case_prod_unfold)

lemma count_of_round_reasons:
  assumes "distinct (map fst (ps_round_reject_reasons_base ps))" "distinct (map fst (ps_reject_reasons ps))"
    and "reason_total ps r < 2 ^ 63"
  shows "unat (count_of (round_reject_reasons ps) r) = reason_total ps r - unat (count_of (ps_round_offset_reject_reasons ps) r)"
proof -
  have "count_of (round_reject_reasons ps) r =
      sat_sub (count_of (merged_reasons ps) r) (count_of (ps_round_offset_reject_reasons ps) r)"
    using distinct_merged [OF assms(1)] count_of_absent [of r "merged_reasons ps"] unfolding round_reject_reasons_def
    by (subst count_of_filter_map) (auto simp: sat_sub_def count_of_def)
  then show ?thesis using unat_merged [OF assms(2,3)] by (simp add: unat_sat_sub)
qed

definition snapshot_of :: "u64 \<Rightarrow> pool_stats \<Rightarrow> snapshot_write" where
  "snapshot_of state_ts ps = \<lparr> sw_history_ts = state_ts div SNAPSHOT_INTERVAL_SECS * SNAPSHOT_INTERVAL_SECS,
     sw_state_ts = state_ts, sw_rates = total_windows (hashrates_by_worker ps), sw_worker_rates = hashrates_by_worker ps,
     sw_accepted = round_shares_accepted ps, sw_rejected = round_shares_rejected ps,
     sw_round_reject_reasons = round_reject_reasons ps, sw_round_work = ps_round_work ps,
     sw_round_epoch = ps_round_epoch ps, sw_share_rates = share_rate_windows ps \<rparr>"

definition snapshot_binds :: "snapshot_write \<Rightarrow> bool" where
  "snapshot_binds x \<longleftrightarrow> sql_int (sw_history_ts x) \<noteq> None \<and> sql_int (sw_state_ts x) \<noteq> None
     \<and> not_null [ten_minutes (sw_rates x)] \<and> list_all (\<lambda>(_, w). not_null (to_windows w)) (sw_worker_rates x)
     \<and> not_null (sw_share_rates x)"

definition merged_row :: "snapshot_write \<Rightarrow> round_row \<Rightarrow> round_row" where
  "merged_row x row = row\<lparr>rr_accepted := max (rr_accepted row) (unat (sw_accepted x)),
     rr_rejected := max (rr_rejected row) (unat (sw_rejected x)), rr_work := max (rr_work row) (unat (sw_round_work x))\<rparr>"

definition merged_db_reasons :: "snapshot_write \<Rightarrow> (string \<times> nat) list \<Rightarrow> (string \<times> nat) list" where
  "merged_db_reasons x reasons = foldl (\<lambda>rows (reason, c). upsert_max reason (unat c) rows) reasons (sw_round_reject_reasons x)"

lemma snapshot_view:
  assumes "book_view s = (row, reasons, found, epoch)" "sw_round_epoch x = epoch"
  shows "book_view (write_ok s (Snapshot x)) = (row, reasons, found, epoch)
      \<or> book_view (write_ok s (Snapshot x)) = (merged_row x row, merged_db_reasons x reasons, found, epoch)"
    "snapshot_binds x \<Longrightarrow> sql_int (sw_accepted x) \<noteq> None \<Longrightarrow> sql_int (sw_rejected x) \<noteq> None \<Longrightarrow>
     sql_int (sw_round_work x) \<noteq> None \<Longrightarrow> \<forall>(r, c) \<in> set (sw_round_reject_reasons x). sql_int c \<noteq> None \<Longrightarrow>
     book_view (write_ok s (Snapshot x)) = (merged_row x row, merged_db_reasons x reasons, found, epoch)"
proof -
  have sq: "sql_int w = Some n \<Longrightarrow> n = unat w" for w n by (simp add: sql_int_def split: if_splits)
  show "book_view (write_ok s (Snapshot x)) = (row, reasons, found, epoch)
      \<or> book_view (write_ok s (Snapshot x)) = (merged_row x row, merged_db_reasons x reasons, found, epoch)"
    using assms
    by (auto simp: write_ok_def apply_write_def write_snapshot_def snapshot_tx_def merge_round_def book_view_def Let_def
        prune_history_def merged_row_def merged_db_reasons_def bind_eq_Some_conv dest!: sq split: option.splits if_splits)
  assume b: "snapshot_binds x" "sql_int (sw_accepted x) \<noteq> None" "sql_int (sw_rejected x) \<noteq> None"
    "sql_int (sw_round_work x) \<noteq> None" and rs: "\<forall>(r, c) \<in> set (sw_round_reject_reasons x). sql_int c \<noteq> None"
  have e: "sql_int w = Some (unat w)" if "sql_int w \<noteq> None" for w using that by (simp add: sql_int_def split: if_splits)
  from b have n: "not_null [ten_minutes (sw_rates x)]" "list_all (\<lambda>(_, w). not_null (to_windows w)) (sw_worker_rates x)"
    "not_null (sw_share_rates x)" "sql_int (sw_history_ts x) \<noteq> None" "sql_int (sw_state_ts x) \<noteq> None"
    by (simp_all add: snapshot_binds_def)
  have "list_all (\<lambda>(_, c). sql_int c \<noteq> None) (sw_round_reject_reasons x)" using rs by (simp add: list_all_iff)
  then show "book_view (write_ok s (Snapshot x)) = (merged_row x row, merged_db_reasons x reasons, found, epoch)"
    using assms n(1-3) e [OF b(2)] e [OF b(3)] e [OF b(4)] e [OF n(4)] e [OF n(5)]
    by (simp add: write_ok_def apply_write_def write_snapshot_def snapshot_tx_def merge_round_def book_view_def Let_def
        prune_history_def merged_row_def merged_db_reasons_def)
qed

lemma unat_round_shares:
  assumes "rounds clock v ps"
  shows "unat (round_shares_accepted ps) =
      unat (ps_round_accepted_base ps) + unat (ps_shares_accepted ps) - unat (ps_round_offset_accepted ps)"
    "unat (round_shares_rejected ps) =
      unat (ps_round_rejected_base ps) + unat (ps_shares_rejected ps) - unat (ps_round_offset_rejected ps)"
    "unat (count_of (round_reject_reasons ps) r) = reason_total ps r - unat (count_of (ps_round_offset_reject_reasons ps) r)"
    "distinct (map fst (round_reject_reasons ps))"
  using assms count_of_round_reasons [of ps r] distinct_round_reasons [of ps]
  by (cases v; simp add: round_shares_accepted_def round_shares_rejected_def unat_sat_sub unat_total63)+

lemma rounds_snapshot:
  assumes "rounds clock (row, reasons, found, epoch) ps"
  shows "rounds clock (merged_row (snapshot_of ts ps) row, merged_db_reasons (snapshot_of ts ps) reasons, found, epoch) ps"
proof -
  note u = unat_round_shares [OF assms]
  have x: "sw_accepted (snapshot_of ts ps) = round_shares_accepted ps" "sw_rejected (snapshot_of ts ps) = round_shares_rejected ps"
    "sw_round_work (snapshot_of ts ps) = ps_round_work ps" by (simp_all add: snapshot_of_def)
  have "nat_count_of (merged_db_reasons (snapshot_of ts ps) reasons) r
      = max (nat_count_of reasons r) (unat (count_of (round_reject_reasons ps) r))" for r
    using nat_count_fold [OF u(4)] by (simp add: merged_db_reasons_def snapshot_of_def)
  moreover have "distinct (map fst (merged_db_reasons (snapshot_of ts ps) reasons))"
    using assms distinct_fold_upsert [of reasons] by (simp add: merged_db_reasons_def)
  moreover have "max (nat_count_of reasons r) (unat (count_of (round_reject_reasons ps) r))
      + unat (count_of (ps_round_offset_reject_reasons ps) r) \<le> reason_total ps r" for r
  proof -
    have "nat_count_of reasons r + unat (count_of (ps_round_offset_reject_reasons ps) r) \<le> reason_total ps r"
      using assms by simp
    then show ?thesis using u(3) [of r] by (simp add: max_def)
  qed
  ultimately show ?thesis using assms u(1,2)
    by (auto simp: merged_row_def x max_def)
qed

lemma snapshot_eq:
  "record_hashrate_snapshot_at ts ps =
     (let ps' = flush_ledger_at ts ps in if ps_store ps' = None then ps' else enqueue (Snapshot (snapshot_of ts ps')) ps')"
  by (simp add: record_hashrate_snapshot_at_def snapshot_of_def Let_def)

lemma books_snapshot:
  assumes "books d0 clock seen ps"
  shows "books d0 clock seen (record_hashrate_snapshot_at ts ps)"
proof -
  define ps' where "ps' = flush_ledger_at ts ps"
  have "books d0 clock seen ps'" unfolding ps'_def using assms quiet_flush_ledger(1) by (rule books_quiet)
  then obtain s row reasons found epoch where s: "replayed d0 ps' s" "book_view s = (row, reasons, found, epoch)"
    "rounds clock (row, reasons, found, epoch) ps'" "blocks seen (row, reasons, found, epoch) ps'" by (rule booksE)
  let ?x = "snapshot_of ts ps'"
  have e: "sw_round_epoch ?x = epoch" using s(3) by (simp add: snapshot_of_def)
  have l: "landed s (Snapshot ?x)" by (simp add: landed_def)
  from snapshot_view(1) [OF s(2) e] have "books d0 clock seen (enqueue (Snapshot ?x) ps')"
  proof
    assume "book_view (write_ok s (Snapshot ?x)) = (row, reasons, found, epoch)"
    then show ?thesis by (rule books_enqueue [OF s(1) l _ s(3,4)])
  next
    assume v: "book_view (write_ok s (Snapshot ?x)) = (merged_row ?x row, merged_db_reasons ?x reasons, found, epoch)"
    show ?thesis by (rule books_enqueue [OF s(1) l v rounds_snapshot [OF s(3)]]) (use s(4) in simp)
  qed
  moreover have "ps_store ps' \<noteq> None" using s(1) by (auto simp: replayed_def)
  ultimately show ?thesis by (auto simp: snapshot_eq ps'_def Let_def)
qed

section \<open>Every reachable state\<close>

lemma books_accept:
  assumes "books d0 clock seen ps" "event_ok clock seen (EAccept sid worker credit hash_diff inst now1 now2) ps"
  shows "books d0 clock seen (record_accepted sid worker credit hash_diff inst now1 now2 ps)"
proof -
  define ps1 where "ps1 = add_share_diff_at sid worker (f64_of_word credit) inst ps"
  have q: "quiet_ext ps ps1" unfolding ps1_def by (rule quiet_add_share_diff)
  then have c: "core ps1 = core ps" by (simp add: quiet_ext_def)
  have "books d0 clock seen (share_accepted credit hash_diff ps1)"
    using assms(2) c by (intro books_share_accepted books_quiet [OF assms(1) q]) (simp_all add: core_def)
  then show ?thesis unfolding record_accepted_def Let_def ps1_def ledger_share_accepted_def
    by (intro books_quiet [OF _ quiet_record_ledger] books_quiet [OF _ quiet_mark_submit]
        books_quiet [OF _ quiet_worker_share_accepted])
qed

lemma books_reject:
  assumes "books d0 clock seen ps" "event_ok clock seen (EReject worker reason now guard) ps"
  shows "books d0 clock seen (snd (snd (record_rejected worker reason now guard ps)))"
proof -
  have "books d0 clock seen (ledger_share_rejected worker now
      (worker_share_rejected worker (reject_label reason) (share_rejected (reject_label reason) ps)))"
    unfolding ledger_share_rejected_def
    using assms by (intro books_quiet [OF _ quiet_record_ledger] books_quiet [OF _ quiet_worker_share_rejected]
        books_share_rejected) simp_all
  then show ?thesis by (simp add: record_rejected_def Let_def split: prod.splits)
qed

lemma books_step:
  assumes "books d0 clock seen ps" "event_ok clock seen e ps"
  shows "books d0 (event_clock e clock) (seen \<union> event_hashes e) (stats_event_step ex e ps)"
proof (cases e)
  case EAccept
  then show ?thesis using books_accept assms by simp
next
  case EReject
  then show ?thesis using books_reject assms by simp
next
  case EOutcome
  then show ?thesis using books_outcome [OF assms(1)] assms(2)
    by (simp only: event_clock.simps event_hashes.simps stats_event_step.simps)
next
  case EResolve
  then show ?thesis using books_resolve assms by simp
next
  case ESnapshot
  then show ?thesis using books_snapshot assms by simp
qed (simp_all add: books_quiet [OF assms(1)] quiet_small quiet_tick quiet_prune quiet_online)

lemma books_run:
  assumes "stats_run ex s t" "s = (clock0, seen0, ps0)" "books d0 clock0 seen0 ps0"
  shows "books d0 (fst t) (fst (snd t)) (snd (snd t))"
  using assms by (induction rule: stats_run.induct) (auto intro: books_step)

end
