(* ===== verification/Restart.thy ===== *)
theory Restart
  imports Books
begin

text \<open>
  What survives a restart: after a shutdown and the next boot the pool reads the same round and the
  same found blocks back.
\<close>

declare of_nat_unat [simp del]

section \<open>Boot\<close>

text \<open>
  A stats file as the schema's checks leave it, whose integers are in range and whose times are not
  in the future.
\<close>

definition file_ok :: "db \<Rightarrow> nat \<Rightarrow> bool" where
  "file_ok d wall \<longleftrightarrow> 0 < rr_since_ts (db_round d) \<and> rr_since_ts (db_round d) \<le> wall \<and> wall < 2 ^ 63
     \<and> (\<forall>t \<in> wins_of (db_found d). t \<le> wall)
     \<and> rr_accepted (db_round d) < 2 ^ 63 \<and> rr_rejected (db_round d) < 2 ^ 63 \<and> rr_work (db_round d) < 2 ^ 63
     \<and> rr_best_share (db_round d) < 2 ^ 63
     \<and> distinct (map fst (db_reject_reasons d)) \<and> (\<forall>r. nat_count_of (db_reject_reasons d) r < 2 ^ 63)
     \<and> distinct (map fst (db_found d)) \<and> length (db_found d) < 2 ^ 63
     \<and> (\<forall>h row. (h, row) \<in> set (db_found d) \<longrightarrow> pb_hash (br_block row) = h)"

lemma reconcile_wins:
  "wins_of (db_found d) =
     set (map (\<lambda>(_, r). unat (pb_found_ts (br_block r))) (filter (\<lambda>(_, r). pb_won_at_submit (br_block r)) (db_found d)))"
  by (force simp: wins_of_def)

lemma reconcile_eq:
  "reconcile_round d =
     (if wins_of (db_found d) \<noteq> {} \<and> Max (wins_of (db_found d)) > rr_since_ts (db_round d)
      then apply_round_reset d (Max (wins_of (db_found d))) else d)"
  unfolding reconcile_wins reconcile_round_def Let_def set_empty by simp

lemma finite_wins [simp]: "finite (wins_of found)"
proof -
  have "wins_of found \<subseteq> (\<lambda>(h, row). unat (pb_found_ts (br_block row))) ` set found" by (force simp: wins_of_def)
  then show ?thesis by (rule finite_subset) simp
qed

text \<open>After the reconciliation no win is later than the round.\<close>

lemma open_db_found [simp]: "db_found (open_db d) = db_found d"
  by (simp add: open_db_def prune_worker_rows_def reconcile_eq apply_round_reset_def Let_def)

lemma open_db_ok:
  assumes "file_ok d wall"
  shows "file_ok (open_db d) wall" "\<forall>t \<in> wins_of (db_found d). t \<le> rr_since_ts (db_round (open_db d))"
proof -
  show "file_ok (open_db d) wall" using assms
    by (auto simp: open_db_def prune_worker_rows_def reconcile_eq apply_round_reset_def file_ok_def nat_count_of_def Let_def)
  have "rr_since_ts (db_round (open_db d)) = max (rr_since_ts (db_round d)) (Max (wins_of (db_found d)))"
    if "wins_of (db_found d) \<noteq> {}"
    using that by (auto simp: open_db_def prune_worker_rows_def reconcile_eq apply_round_reset_def Let_def max_def)
  then show "\<forall>t \<in> wins_of (db_found d). t \<le> rr_since_ts (db_round (open_db d))"
    using Max_ge [OF finite_wins, of _ "db_found d"] by (force simp: max.coboundedI2)
qed

lemma reconcile_noop: "\<forall>t \<in> wins_of (db_found d). t \<le> rr_since_ts (db_round d) \<Longrightarrow> reconcile_round d = d"
proof (cases "wins_of (db_found d) = {}")
  case False
  assume "\<forall>t \<in> wins_of (db_found d). t \<le> rr_since_ts (db_round d)"
  then have "Max (wins_of (db_found d)) \<le> rr_since_ts (db_round d)" using False by simp
  then show ?thesis by (simp add: reconcile_eq)
qed (simp add: reconcile_eq)

lemma pending_fold:
  assumes "distinct (map fst found)" "\<forall>h row. (h, row) \<in> set found \<longrightarrow> pb_hash (br_block row) = h"
  shows "map_of (foldl (\<lambda>m b. AList.update (pb_hash b) b m) m
      (map (br_block \<circ> snd) (filter (\<lambda>(_, r). br_status r = BLOCK_STATUS_PENDING) found))) h
    = (case pending_of found h of Some b \<Rightarrow> Some b | None \<Rightarrow> map_of m h)"
  using assms
proof (induction found arbitrary: m)
  case (Cons x found)
  obtain k row where x: "x = (k, row)" by (cases x)
  have "map_of found k = None" using Cons.prems(1) x by (simp add: map_of_eq_None_iff)
  then have k: "pending_of found k = None" by (simp add: pending_of_def)
  show ?case using Cons k x by (auto simp: pending_of_def AList.update_conv' split: option.splits)
qed (simp add: pending_of_def)

lemma distinct_pending_fold:
  "distinct (map fst m) \<Longrightarrow> distinct (map fst (foldl (\<lambda>m b. AList.update (pb_hash b) b m) m bs))"
  by (induction bs arbitrary: m) (auto simp: distinct_update)

lemma load_block_counts_eq: "load_block_counts d = block_counts (db_found d)"
  by (simp add: load_block_counts_def block_counts_def)

lemma unat_of_nat63: "n < 2 ^ 63 \<Longrightarrow> unat (of_nat n :: u64) = n"
  by (simp add: unat_of_nat)

lemma count_of_loaded: "count_of (load_reject_reasons d) r = of_nat (nat_count_of (db_reject_reasons d) r)"
proof -
  have "map_of (map (\<lambda>(k, n). (k, of_nat n :: u64)) m) r = map_option of_nat (map_of m r)" for m :: "(string \<times> nat) list"
    by (induction m) auto
  then show ?thesis by (cases "map_of (db_reject_reasons d) r") (simp_all add: load_reject_reasons_def count_of_def nat_count_of_def)
qed

lemma boot_eq:
  "open_recording ex pw (\<lambda>_. False) d wall inst = Some (ps, d0) \<Longrightarrow> d0 = open_db d
    \<and> ps_store ps = Some [] \<and> ps_round_epoch ps = 0
    \<and> ps_round_accepted_base ps = of_nat (rr_accepted (db_round d0)) \<and> ps_shares_accepted ps = 0 \<and> ps_round_offset_accepted ps = 0
    \<and> ps_round_rejected_base ps = of_nat (rr_rejected (db_round d0)) \<and> ps_shares_rejected ps = 0 \<and> ps_round_offset_rejected ps = 0
    \<and> ps_round_work ps = of_nat (rr_work (db_round d0)) \<and> ps_best_share_difficulty ps = of_nat (rr_best_share (db_round d0))
    \<and> ps_round_since_ts ps = (if (of_nat (rr_since_ts (db_round d0)) :: u64) = 0 then wall else of_nat (rr_since_ts (db_round d0)))
    \<and> ps_reject_reasons ps = [] \<and> ps_round_offset_reject_reasons ps = []
    \<and> ps_round_reject_reasons_base ps = load_reject_reasons d0
    \<and> ps_blocks_found ps = of_nat (fst (block_counts (db_found d0)))
    \<and> ps_blocks_orphaned ps = of_nat (fst (snd (block_counts (db_found d0))))
    \<and> ps_blocks_inconclusive ps = of_nat (snd (snd (block_counts (db_found d0))))
    \<and> ps_pending_blocks ps = foldl (\<lambda>m b. AList.update (pb_hash b) b m) [] (load_pending_blocks d0)"
  by (auto simp: open_recording_def persisted_load_def from_persisted_def Let_def load_values_def load_round_stats_def
      load_block_counts_eq split: prod.splits)

lemma boot_books:
  assumes "file_ok d (unat wall)" "open_recording ex pw (\<lambda>_. False) d wall inst = Some (ps, d0)"
  shows "books d0 (unat wall) (fst ` set (db_found d)) ps"
proof -
  note b = conjunct2 [OF boot_eq [OF assms(2)]]
  have d0: "d0 = open_db d" using boot_eq [OF assms(2)] by blast
  note f = open_db_ok [OF assms(1), folded d0]
  have fd: "db_found d0 = db_found d" by (simp add: d0)
  have ok: "0 < rr_since_ts (db_round d0)" "rr_since_ts (db_round d0) \<le> unat wall" "unat wall < 2 ^ 63"
    "rr_accepted (db_round d0) < 2 ^ 63" "rr_rejected (db_round d0) < 2 ^ 63" "rr_work (db_round d0) < 2 ^ 63"
    "rr_best_share (db_round d0) < 2 ^ 63" and reasons: "distinct (map fst (db_reject_reasons d0))"
    "\<And>r. nat_count_of (db_reject_reasons d0) r < 2 ^ 63" and found: "distinct (map fst (db_found d0))" "length (db_found d0) < 2 ^ 63"
    "\<forall>h row. (h, row) \<in> set (db_found d0) \<longrightarrow> pb_hash (br_block row) = h"
    using f(1) by (simp_all add: file_ok_def)
  have "unat (of_nat (rr_since_ts (db_round d0)) :: u64) = rr_since_ts (db_round d0)" using ok by (intro unat_of_nat63) simp
  then have since: "unat (ps_round_since_ts ps) = rr_since_ts (db_round d0)" "(of_nat (rr_since_ts (db_round d0)) :: u64) \<noteq> 0"
    using b ok by auto
  have tot: "reason_total ps r = nat_count_of (db_reject_reasons d0) r" for r
    using b unat_of_nat63 [OF reasons(2)] by (simp add: reason_total_def count_of_loaded) (simp add: count_of_def)
  have keys: "map fst (load_reject_reasons d0) = map fst (db_reject_reasons d0)"
    by (simp add: load_reject_reasons_def case_prod_unfold comp_def)
  have "rounds (unat wall) (db_round d0, db_reject_reasons d0, db_found d0, 0) ps"
    using b ok reasons f(2) keys by (simp add: since tot unat_of_nat63 count_of_def fd)
  moreover obtain x y z where xyz: "block_counts (db_found d0) = (x, y, z)" by (metis prod_cases3)
  have "blocks (fst ` set (db_found d)) (db_round d0, db_reject_reasons d0, db_found d0, 0) ps"
    using b fd found xyz counts_le [OF xyz] distinct_pending_fold [of "[]"] pending_fold [OF found(1,3), of "[]"]
    by (auto simp: unat_of_nat63 load_pending_blocks_def fun_eq_iff split: option.splits)
  moreover have "replayed d0 ps (d0, writer_init)" using b by (simp add: replayed_def)
  moreover have "book_view (d0, writer_init) = (db_round d0, db_reject_reasons d0, db_found d0, 0)"
    by (simp add: book_view_def writer_init_def)
  ultimately show ?thesis using booksI by blast
qed

section \<open>Shutdown\<close>

fun settled :: "round_row \<times> (string \<times> nat) list \<times> (string \<times> block_row) list \<times> u64 \<Rightarrow> pool_stats \<Rightarrow> bool" where
  "settled (row, reasons, found, epoch) ps \<longleftrightarrow>
     rr_accepted row = unat (round_shares_accepted ps) \<and> rr_rejected row = unat (round_shares_rejected ps)
     \<and> rr_work row = unat (ps_round_work ps) \<and> (\<forall>r. nat_count_of reasons r = unat (count_of (round_reject_reasons ps) r))"

lemma core_settled: "core ps' = core ps \<Longrightarrow> settled v ps' = settled v ps"
  by (cases v) (simp add: core_def round_shares_accepted_def round_shares_rejected_def round_reject_reasons_def merged_reasons_def)

lemma settled_snapshot:
  assumes "rounds clock (row, reasons, found, epoch) ps"
  shows "settled (merged_row (snapshot_of ts ps) row, merged_db_reasons (snapshot_of ts ps) reasons, found, epoch) ps"
proof -
  note u = unat_round_shares [OF assms]
  have x: "sw_accepted (snapshot_of ts ps) = round_shares_accepted ps" "sw_rejected (snapshot_of ts ps) = round_shares_rejected ps"
    "sw_round_work (snapshot_of ts ps) = ps_round_work ps" by (simp_all add: snapshot_of_def)
  have "nat_count_of (merged_db_reasons (snapshot_of ts ps) reasons) r
      = max (nat_count_of reasons r) (unat (count_of (round_reject_reasons ps) r))" for r
    using nat_count_fold [OF u(4)] by (simp add: merged_db_reasons_def snapshot_of_def)
  moreover have "nat_count_of reasons r + unat (count_of (ps_round_offset_reject_reasons ps) r) \<le> reason_total ps r" for r
    using assms by simp
  then have "nat_count_of reasons r \<le> unat (count_of (round_reject_reasons ps) r)" for r
    using u(3) [of r] by (metis add_le_imp_le_diff)
  ultimately show ?thesis using assms u(1,2) by (auto simp: merged_row_def x max_def)
qed

lemma quiet_settled:
  assumes "quiet w"
  shows "settled (book_view (write_ok s w)) ps = settled (book_view s) ps"
proof -
  have "book_view (write_ok s w) = book_view s" if "is_ledger w"
    using apply_ledger_view [OF that, of "(False, False)" "fst s" "snd s"]
    by (cases "apply_write (False, False) (fst s) w (snd s)") (simp add: write_ok_def)
  then show ?thesis using assms
    by (cases w) (auto simp: write_ok_def apply_write_def book_view_def prune_worker_rows_def Let_def split: option.splits)
qed

lemma settled_ext:
  assumes "replayed d0 ps s" "rounds clock (book_view s) ps" "blocks seen (book_view s) ps" "settled (book_view s) ps" "quiet_ext ps ps'"
  shows "\<exists>s'. replayed d0 ps' s' \<and> rounds clock (book_view s') ps' \<and> blocks seen (book_view s') ps' \<and> settled (book_view s') ps'"
proof -
  obtain q where s: "ps_store ps = Some q" "lands (d0, writer_init) q" "drain (d0, writer_init) q = s"
    using assms(1) by (auto simp: replayed_def)
  obtain ws where ws: "list_all quiet ws" "ps_store ps' = Some (q @ ws)" and core: "core ps' = core ps"
    using assms(5) s(1) by (auto simp: quiet_ext_def)
  have "lands s ws \<and> rounds clock (book_view (drain s ws)) ps \<and> blocks seen (book_view (drain s ws)) ps \<and> settled (book_view (drain s ws)) ps"
    using ws(1) assms(2-4)
  proof (induction ws arbitrary: s)
    case (Cons w ws)
    then show ?case using quiet_view [of w] quiet_settled [of w] by simp
  qed simp
  then show ?thesis
    using s(2,3) ws(2) core_cong [OF core] core_settled [OF core]
    by (auto simp: replayed_def intro!: exI [of _ "drain s ws"])
qed

lemma shutdown_settles:
  assumes "books d0 clock seen ps" "snapshot_binds (snapshot_of now (flush_ledger_at now ps))"
  shows "\<exists>s. replayed d0 (shutdown_persist now ps) s \<and> rounds clock (book_view s) (shutdown_persist now ps)
    \<and> blocks seen (book_view s) (shutdown_persist now ps) \<and> settled (book_view s) (shutdown_persist now ps)
    \<and> core (shutdown_persist now ps) = core ps"
proof -
  define ps1 where "ps1 = flush_ledger_at now ps"
  have c1: "core ps1 = core ps" using quiet_flush_ledger(1) by (simp add: ps1_def quiet_ext_def)
  have "books d0 clock seen ps1" unfolding ps1_def using assms(1) quiet_flush_ledger(1) by (rule books_quiet)
  then obtain s row reasons found epoch where s: "replayed d0 ps1 s" "book_view s = (row, reasons, found, epoch)"
    "rounds clock (row, reasons, found, epoch) ps1" "blocks seen (row, reasons, found, epoch) ps1" by (rule booksE)
  let ?x = "snapshot_of now ps1"
  note u = unat_round_shares [OF s(3)]
  have rs: "unat c < 2 ^ 63" if "(r, c) \<in> set (round_reject_reasons ps1)" for r c
  proof -
    have "count_of (round_reject_reasons ps1) r = c" using u(4) that by (simp add: count_of_def)
    moreover have "reason_total ps1 r < 2 ^ 63" using s(3) by simp
    ultimately show ?thesis using u(3) [of r] by simp
  qed
  have v: "book_view (write_ok s (Snapshot ?x)) = (merged_row ?x row, merged_db_reasons ?x reasons, found, epoch)"
    using s(3) u(1,2) assms(2) [folded ps1_def] rs
    by (intro snapshot_view(2) [OF s(2)]) (auto simp: snapshot_of_def sql_int_def)
  let ?p = "enqueue (Snapshot ?x) ps1"
  have eq: "record_hashrate_snapshot_at now ps = ?p" using s(1) by (auto simp: snapshot_eq ps1_def Let_def replayed_def)
  have "quiet_ext ?p (flush_ledger_partial ?p)" by (rule quiet_flush_ledger(2))
  moreover have "quiet_ext (flush_ledger_partial ?p) (shutdown_persist now ps)"
    unfolding shutdown_persist_def eq by (rule quiet_ext_enqueue) simp_all
  ultimately have q: "quiet_ext ?p (shutdown_persist now ps)" by (rule quiet_ext_trans)
  have "landed s (Snapshot ?x)" by (simp add: landed_def)
  from replayed_enqueue [OF s(1) this] have r: "replayed d0 ?p (write_ok s (Snapshot ?x))" .
  let ?v = "(merged_row ?x row, merged_db_reasons ?x reasons, found, epoch)"
  have "blocks seen ?v ps1" using s(4) by simp
  with rounds_snapshot [OF s(3), of now] settled_snapshot [OF s(3), of now]
  have "rounds clock ?v ?p" "blocks seen ?v ?p" "settled ?v ?p"
    unfolding core_cong [OF core_enqueue] core_settled [OF core_enqueue] by blast+
  from settled_ext [OF r this [folded v] q] c1 q show ?thesis by (simp add: quiet_ext_def)
qed

section \<open>Restart\<close>

lemma book_view_open:
  assumes "\<forall>t \<in> wins_of (db_found d). t \<le> rr_since_ts (db_round d)"
  shows "db_round (open_db d) = db_round d" "db_reject_reasons (open_db d) = db_reject_reasons d"
  using reconcile_noop [OF assms] by (simp_all add: open_db_def prune_worker_rows_def Let_def)

lemma sat_zero: "sat_add a 0 = a" "sat_sub a 0 = a" for a :: u64
  using unat_lt [of a] by (simp_all add: sat_add_def sat_sub_def)

text \<open>What a boot reads from tables that agree with the counters of the run before.\<close>

lemma boot_restores:
  assumes "rounds clock (db_round d, db_reject_reasons d, db_found d, epoch) ps"
    and "blocks seen (db_round d, db_reject_reasons d, db_found d, epoch) ps"
    and "settled (db_round d, db_reject_reasons d, db_found d, epoch) ps"
    and "open_recording ex pw (\<lambda>_. False) d wall inst = Some (ps', d')"
  shows "round_shares_accepted ps' = round_shares_accepted ps \<and> round_shares_rejected ps' = round_shares_rejected ps
    \<and> ps_round_work ps' = ps_round_work ps \<and> ps_round_since_ts ps' = ps_round_since_ts ps
    \<and> ps_best_share_difficulty ps' = ps_best_share_difficulty ps
    \<and> (\<forall>r. count_of (round_reject_reasons ps') r = count_of (round_reject_reasons ps) r)
    \<and> ps_blocks_found ps' = ps_blocks_found ps \<and> ps_blocks_orphaned ps' = ps_blocks_orphaned ps
    \<and> ps_blocks_inconclusive ps' = ps_blocks_inconclusive ps
    \<and> map_of (ps_pending_blocks ps') = map_of (ps_pending_blocks ps)"
proof -
  have w: "of_nat (unat x) = (x :: u64)" for x by (simp add: of_nat_unat)
  note b = conjunct2 [OF boot_eq [OF assms(4)]]
  have wins: "\<forall>t \<in> wins_of (db_found d). t \<le> rr_since_ts (db_round d)"
    using assms(1) unfolding rounds.simps by blast
  have d': "db_round d' = db_round d" "db_reject_reasons d' = db_reject_reasons d" "db_found d' = db_found d"
    using book_view_open [OF wins] boot_eq [OF assms(4)] by auto
  have fits: "reason_total ps r < 2 ^ 63" for r using assms(1) by simp
  note u = unat_round_shares [OF assms(1)]
  have "count_of (round_reject_reasons ps') r = count_of (round_reject_reasons ps) r" for r
  proof -
    have keys: "distinct (map fst (ps_round_reject_reasons_base ps'))" using assms(1) b d'(2)
      by (simp add: load_reject_reasons_def case_prod_unfold comp_def)
    have n: "nat_count_of (db_reject_reasons d) r = unat (count_of (round_reject_reasons ps) r)" using assms(3) by simp
    then have tot: "reason_total ps' r = unat (count_of (round_reject_reasons ps) r)"
      using b d'(2) by (simp add: reason_total_def count_of_loaded w) (simp add: count_of_def)
    also have "\<dots> < 2 ^ 63" using u(3) [of r] fits [of r] by linarith
    finally have "reason_total ps' r < 2 ^ 63" .
    from count_of_round_reasons [OF keys _ this] b tot
    show ?thesis by (simp add: count_of_def [of "[]"]) (metis word_unat_eq_iff)
  qed
  moreover have "map_of (ps_pending_blocks ps') = map_of (ps_pending_blocks ps)"
    using assms(2) b d'(3) pending_fold [of "db_found d" "[]"]
    by (auto simp: load_pending_blocks_def fun_eq_iff split: option.splits)
  moreover have "round_shares_accepted ps' = ps_round_accepted_base ps'" "round_shares_rejected ps' = ps_round_rejected_base ps'"
    using b by (simp_all add: round_shares_accepted_def round_shares_rejected_def sat_zero)
  moreover have "rr_accepted (db_round d) = unat (round_shares_accepted ps)" "rr_rejected (db_round d) = unat (round_shares_rejected ps)"
    "rr_work (db_round d) = unat (ps_round_work ps)" "rr_since_ts (db_round d) = unat (ps_round_since_ts ps)"
    "rr_best_share (db_round d) = unat (ps_best_share_difficulty ps)" "ps_round_since_ts ps \<noteq> 0"
    using assms(1,3) by auto
  moreover have "block_counts (db_found d) = (unat (ps_blocks_found ps), unat (ps_blocks_orphaned ps), unat (ps_blocks_inconclusive ps))"
    using assms(2) by simp
  ultimately show ?thesis using b d' by (simp add: w)
qed



definition sample_file :: db where
  "sample_file = sample_found_db\<lparr>db_round := \<lparr> rr_accepted = 5, rr_rejected = 0, rr_work = 40, rr_since_ts = 61,
     rr_best_share = 9, rr_best_hashrate = Fin 0 \<rparr>\<rparr>"

lemma sample_file_ok: "file_ok sample_file 100"
  by (auto simp: file_ok_def sample_file_def sample_found_db_def sample_block_def wins_of_def nat_count_of_def)

lemma open_db_meters [simp]:
  "db_worker_state (open_db d) = db_worker_state d" "db_share_rate_state (open_db d) = db_share_rate_state d"
  by (simp_all add: open_db_def prune_worker_rows_def reconcile_eq apply_round_reset_def Let_def)

lemma boot_total: "\<exists>ps d'. open_recording ex pw (\<lambda>_. False) d wall inst = Some (ps, d')
    \<and> (db_worker_state d = [] \<longrightarrow> ps_session_hashrates ps = [])
    \<and> (db_share_rate_state d = None \<longrightarrow> ps_share_rate ps = decay_new inst)"
  by (simp add: open_recording_def persisted_load_def from_persisted_def Let_def case_prod_unfold
      load_hashrate_state_def load_share_rate_state_def)

lemma shutdown_store:
  assumes "ps_store ps \<noteq> None"
  shows "ps_store (shutdown_persist now ps) \<noteq> None"
proof -
  have q: "ps_store b \<noteq> None" if "quiet_ext a b" "ps_store a \<noteq> None" for a b using that by (auto simp: quiet_ext_def)
  have "ps_store (record_hashrate_snapshot_at now ps) \<noteq> None"
    using q [OF quiet_flush_ledger(1) assms] by (auto simp: snapshot_eq Let_def enqueue_def)
  from q [OF quiet_flush_ledger(2) this] show ?thesis by (simp add: shutdown_persist_def enqueue_def)
qed

lemma snapshot_binds_quiet:
  assumes "ps_session_hashrates ps = []" "ps_share_rate ps = decay_new inst" "now = 100"
  shows "snapshot_binds (snapshot_of now ps)"
  using assms
  by (simp add: snapshot_binds_def snapshot_of_def hashrates_by_worker_def total_windows_def windows_default_def not_null_def
      sql_int_def SNAPSHOT_INTERVAL_SECS_def share_rate_windows_def per_minute_def decay_new_def SECS_PER_MINUTE_def)

text \<open>A run on the sample file: one found block, reported at the second its round was reset.\<close>

lemma sample_run:
  obtains ps0 d0 ps where "open_recording exp_sample powf_sample (\<lambda>_. False) sample_file 100 0 = Some (ps0, d0)" "d0 = open_db sample_file"
    "stats_run exp_sample (unat (100 :: u64), fst ` set (db_found sample_file), ps0) (100, {''ab'', ''cd''}, ps)"
    "ps_store ps \<noteq> None" "snapshot_binds (snapshot_of 100 (flush_ledger_at 100 ps))"
    "ps_blocks_found ps = 2" "ps_blocks_orphaned ps = 0" "ps_blocks_inconclusive ps = 0"
    "round_shares_accepted ps = 0" "map_of (ps_pending_blocks ps) ''cd'' \<noteq> None"
proof -
  obtain ps0 d0 where b: "open_recording exp_sample powf_sample (\<lambda>_. False) sample_file 100 0 = Some (ps0, d0)"
    "ps_session_hashrates ps0 = []" "ps_share_rate ps0 = decay_new 0"
    using boot_total [of exp_sample powf_sample sample_file 100 0] by (auto simp: sample_file_def sample_found_db_def)
  note f = boot_eq [OF b(1)]
  define ps where "ps = record_block_outcome Accepted 8 ''addr.rig'' ''addr'' ''cd'' 100 100 ps0"
  have keys: "fst ` set (db_found sample_file) = {''ab''}" by (simp add: sample_file_def sample_found_db_def)
  have bc: "block_counts (db_found sample_file) = (1, 0, 0)"
    by (simp add: sample_file_def sample_found_db_def block_counts_def sample_block_def)
  have pend: "map_of (ps_pending_blocks ps0) ''cd'' = None"
    using f by (simp add: load_pending_blocks_def sample_file_def sample_found_db_def BLOCK_STATUS_PENDING_def)
  have "stats_run exp_sample (100, {''ab''}, ps0) (100, {''ab'', ''cd''}, ps)"
    using run_step [OF run_refl, of 100 "{''ab''}" "EOutcome Accepted 8 ''addr.rig'' ''addr'' ''cd'' 100 100" ps0 exp_sample] f
    by (simp add: ps_def insert_commute)
  then have run: "stats_run exp_sample (unat (100 :: u64), fst ` set (db_found sample_file), ps0) (100, {''ab'', ''cd''}, ps)"
    by (simp add: keys)
  have store: "ps_store ps \<noteq> None" and meters: "ps_session_hashrates (flush_ledger_at 100 ps) = []"
    "ps_share_rate (flush_ledger_at 100 ps) = decay_new 0"
    using b f by (auto simp: ps_def record_block_outcome_def is_win_def block_found_def round_reset_eq reset_core_def enqueue_def
        enroll_pending_block_def Let_def pend flush_ledger_at_def persist_ledger_minute_def split: prod.splits option.splits)
  have vals: "ps_blocks_found ps = 2" "ps_blocks_orphaned ps = 0" "ps_blocks_inconclusive ps = 0" "round_shares_accepted ps = 0"
    "map_of (ps_pending_blocks ps) ''cd'' \<noteq> None"
    using f bc by (simp_all add: ps_def record_block_outcome_def is_win_def block_found_def round_reset_eq reset_core_def enqueue_def
        enroll_pending_block_def Let_def pend round_shares_accepted_def sat_add_def sat_sub_def map_add_def)
  show ?thesis by (rule that [OF b(1) _ run store snapshot_binds_quiet [OF meters refl] vals]) (use f in simp)
qed



section \<open>A round that is reset twice\<close>

fun is_reset :: "store_write \<Rightarrow> bool" where
  "is_reset (RoundReset epoch ts) \<longleftrightarrow> True"
| "is_reset w \<longleftrightarrow> False"

lemma write_ok_since:
  assumes "\<not> is_reset w"
  shows "rr_since_ts (db_round (fst (write_ok s w))) = rr_since_ts (db_round (fst s))"
proof (cases w)
  case (Ledger ts es)
  then show ?thesis using apply_ledger_view [of w "(False, False)" "fst s" "snd s"]
    by (cases "apply_write (False, False) (fst s) w (snd s)") (simp add: write_ok_def book_view_def)
next
  case (BlockFound b)
  then show ?thesis by (auto simp: write_ok_def apply_write_def insert_found_def split: option.splits bind_splits)
next
  case (BlockResolved h r ts)
  then show ?thesis by (auto simp: write_ok_def apply_write_def resolve_found_def split: option.splits)
next
  case (Snapshot x)
  then show ?thesis
    by (auto simp: write_ok_def apply_write_def write_snapshot_def snapshot_tx_def merge_round_def prune_history_def Let_def
        split: option.splits bind_splits)
qed (use assms in \<open>auto simp: write_ok_def apply_write_def prune_worker_rows_def Let_def split: option.splits\<close>)

lemma drain_since: "list_all (\<lambda>w. \<not> is_reset w) ws \<Longrightarrow> rr_since_ts (db_round (fst (drain s ws))) = rr_since_ts (db_round (fst s))"
  by (induction ws arbitrary: s) (simp_all add: write_ok_since)

lemma drain_found_le: "found_le (fst s) (fst (drain s ws))"
proof (induction ws arbitrary: s)
  case (Cons w ws)
  obtain ok d' st' where a: "apply_write (False, False) (fst s) w (snd s) = (ok, d', st')" by (metis prod_cases3)
  from found_le_trans [OF apply_write_found_le [OF a] Cons.IH [of "(d', st')", simplified]] show ?case
    by (simp add: write_ok_def a)
qed (simp add: found_le_refl)

text \<open>
  C33: The round reset of a won block and the block's enrolment read the clock separately.  When the
  second reading falls in a later second, the next boot takes the reset for lost and resets
  the round again, from the time of the enrolment: whatever was accepted since, the counts,
  the work and the best share of the running round are zero after the restart.
\<close>

theorem late_enrolment_resets_again:
  assumes "is_win oc" "now1 < now2" "unat now2 < 2 ^ 63" "unat height < 2 ^ 63"
    and "ps_store ps = Some q" "map_of (ps_pending_blocks ps) hash = None" "map_of (db_found (fst s)) hash = None"
    and "list_all (\<lambda>w. \<not> is_reset w) later"
    and "ps_store (record_block_outcome oc height worker payout hash now1 now2 ps) = Some (q @ new)"
  shows "db_round (open_db (fst (drain s (new @ later)))) =
    \<lparr> rr_accepted = 0, rr_rejected = 0, rr_work = 0, rr_since_ts = Max (wins_of (db_found (fst (drain s (new @ later))))),
      rr_best_share = 0, rr_best_hashrate = Fin 0 \<rparr>"
proof -
  define b where "b = \<lparr> pb_hash = hash, pb_height = height, pb_worker = worker, pb_payout = payout, pb_found_ts = now2,
    pb_won_at_submit = True \<rparr>"
  have new: "new = [RoundReset (ps_round_epoch ps + 1) now1, BlockFound b]"
    using assms(1,5,6,9) by (simp add: record_block_outcome_def block_found_def round_reset_eq reset_core_def enqueue_def
        enroll_pending_block_def Let_def b_def)
  have n1: "unat now1 < 2 ^ 63" using assms(2,3) by (simp add: word_less_nat_alt)
  define s2 where "s2 = drain s new"
  have s2: "rr_since_ts (db_round (fst s2)) = unat now1"
    "map_of (db_found (fst s2)) hash = Some \<lparr> br_block = b, br_status = BLOCK_STATUS_PENDING, br_resolved_ts = None \<rparr>"
    using assms(3,4,7) n1
    by (auto simp: s2_def new write_ok_def apply_write_def apply_round_reset_def insert_found_def sql_int_def b_def map_add_def)
  let ?d = "fst (drain s2 later)"
  have since: "rr_since_ts (db_round ?d) = unat now1" using drain_since [OF assms(8)] s2(1) by simp
  obtain row where "map_of (db_found ?d) hash = Some row" "br_block row = b"
    using drain_found_le [of s2 later] s2(2) unfolding found_le_def by fastforce
  then have "unat now2 \<in> wins_of (db_found ?d)"
    unfolding wins_of_def by (intro CollectI exI [of _ hash] exI [of _ row]) (simp add: map_of_SomeD b_def)
  moreover from Max_ge [OF finite_wins this] have "unat now1 < Max (wins_of (db_found ?d))"
    using assms(2) by (simp add: word_less_nat_alt)
  ultimately have "reconcile_round ?d = apply_round_reset ?d (Max (wins_of (db_found ?d)))"
    using since by (auto simp: reconcile_eq)
  then show ?thesis by (simp add: open_db_def prune_worker_rows_def apply_round_reset_def Let_def s2_def)
qed

theorem late_enrolment_resets_again_witness:
  "\<exists>ps q. ps_store ps = Some q
     \<and> (\<forall>new later. ps_store (record_block_outcome Accepted 8 ''addr.rig'' ''addr'' ''cd'' 100 101 ps) = Some (q @ new)
          \<and> list_all (\<lambda>w. \<not> is_reset w) later
          \<longrightarrow> rr_accepted (db_round (open_db (fst (drain (sample_file, writer_init) (new @ later))))) = 0)"
proof -
  obtain ps d0 where b: "open_recording exp_sample powf_sample (\<lambda>_. False) sample_file 100 0 = Some (ps, d0)"
    using boot_total by blast
  note f = boot_eq [OF b]
  have "map_of (ps_pending_blocks ps) ''cd'' = None" "map_of (db_found (fst (sample_file, writer_init))) ''cd'' = None"
    using f by (simp_all add: load_pending_blocks_def sample_file_def sample_found_db_def BLOCK_STATUS_PENDING_def)
  from late_enrolment_resets_again [of Accepted 100 101 8 ps "[]", OF _ _ _ _ _ this] f show ?thesis
    by (intro exI [of _ ps] exI [of _ "[]"]) (auto simp: is_win_def)
qed

end
