(* ===== verification/Accounts.thy ===== *)
theory Accounts
  imports Store
begin

text \<open>
  The books of the share ledger: through failed writes, rollbacks, retries and the hourly rollup,
  every worker's work, accepted and rejected counts are written exactly once.
\<close>

declare of_nat_unat [simp del]

section \<open>Sums over interval tables\<close>

definition rows_total :: "(nat \<Rightarrow> bool) \<Rightarrow> (ledger_row \<Rightarrow> nat) \<Rightarrow> interval_table \<Rightarrow> nat" where
  "rows_total P sel rows = sum_list (map (\<lambda>((w, ts), row). if P w then sel row else 0) rows)"

lemma rows_total_simps [simp]:
  "rows_total P sel [] = 0"
  "rows_total P sel (r # rs) = (if P (fst (fst r)) then sel (snd r) else 0) + rows_total P sel rs"
  "rows_total P sel (as @ bs) = rows_total P sel as + rows_total P sel bs"
  by (simp_all add: rows_total_def case_prod_unfold)

definition additive :: "(ledger_row \<Rightarrow> nat) \<Rightarrow> bool" where
  "additive sel \<longleftrightarrow> (\<forall>a b. sel (row_add a b) = sel a + sel b)"

lemma rows_total_update:
  "map_of rows k = Some old \<Longrightarrow>
   rows_total P sel (AList.update k v rows) + (if P (fst k) then sel old else 0) =
   rows_total P sel rows + (if P (fst k) then sel v else 0)"
  by (induction rows) (auto split: if_splits)

lemma rows_total_insert:
  "map_of rows k = None \<Longrightarrow>
   rows_total P sel (AList.update k v rows) = rows_total P sel rows + (if P (fst k) then sel v else 0)"
  by (induction rows) (auto split: if_splits)

lemma rows_total_accumulate:
  assumes "additive sel"
  shows "rows_total P sel (accumulate k row rows) = rows_total P sel rows + (if P (fst k) then sel row else 0)"
proof (cases "map_of rows k")
  case None
  then show ?thesis by (simp add: accumulate_def rows_total_insert)
next
  case (Some old)
  then show ?thesis
    using rows_total_update [OF Some, of P sel "row_add old row"] assms
    by (auto simp: accumulate_def additive_def split: if_splits)
qed

lemma set_accumulate: "fst ` set (accumulate k row rows) = insert k (fst ` set rows)"
  by (simp add: accumulate_def dom_update)

lemma rows_total_fold:
  assumes "additive sel" "\<And>k. fst (g k) = fst k"
  shows "rows_total P sel (foldl (\<lambda>acc (k, row). accumulate (g k) row acc) acc rows) =
    rows_total P sel acc + rows_total P sel rows"
  by (induction rows arbitrary: acc) (auto simp: rows_total_accumulate [OF assms(1)] assms(2))

lemma keys_fold:
  "fst ` set (foldl (\<lambda>acc (k, row). accumulate (g k) row acc) acc rows) = fst ` set acc \<union> g ` fst ` set rows"
proof (induction rows arbitrary: acc)
  case (Cons r rows)
  then show ?case by (cases r) (simp add: set_accumulate)
qed simp

lemma rows_total_filter:
  "rows_total P sel (filter Q rows) + rows_total P sel (filter (\<lambda>r. \<not> Q r) rows) = rows_total P sel rows"
  by (induction rows) auto

definition to_hour :: "nat \<times> nat \<Rightarrow> nat \<times> nat" where
  "to_hour k = (fst k, hour_of (snd k))"

lemma hourly_sums_fold:
  "hourly_sums c rows =
     foldl (\<lambda>acc (k, row). accumulate (to_hour k) row acc) [] (filter (\<lambda>r. snd (fst r) < c) rows)"
  by (simp add: hourly_sums_def to_hour_def case_prod_unfold)

definition owned :: "db \<Rightarrow> interval_table" where
  "owned d = db_minutes d @ db_hours d"

lemma roll_up_total:
  assumes "additive sel"
  shows "rows_total P sel (owned (roll_up_ledger f d now)) = rows_total P sel (owned d)"
proof -
  define c where "c = hour_of (unat now - LEDGER_FINE_RETENTION_SECS)"
  have "rows_total P sel (hourly_sums c (db_minutes d)) = rows_total P sel (filter (\<lambda>r. snd (fst r) < c) (db_minutes d))"
    unfolding hourly_sums_fold using rows_total_fold [OF assms, of to_hour] by (simp add: to_hour_def)
  moreover have "rows_total P sel (foldl (\<lambda>hours (k, row). accumulate k row hours) (db_hours d) xs) =
      rows_total P sel (db_hours d) + rows_total P sel xs" for xs
    using rows_total_fold [OF assms, of "\<lambda>k. k"] by simp
  ultimately show ?thesis
    using rows_total_filter [of P sel "\<lambda>r. snd (fst r) < c" "db_minutes d"]
    by (simp add: roll_up_ledger_def owned_def c_def [symmetric] Let_def case_prod_unfold)
qed

lemma roll_up_keys:
  "fst ` fst ` set (owned (roll_up_ledger f d now)) \<subseteq> fst ` fst ` set (owned d)"
proof -
  define c where "c = hour_of (unat now - LEDGER_FINE_RETENTION_SECS)"
  have 1: "fst ` set (hourly_sums c (db_minutes d)) = to_hour ` fst ` set (filter (\<lambda>r. snd (fst r) < c) (db_minutes d))"
    unfolding hourly_sums_fold keys_fold by simp
  have 2: "fst ` set (foldl (\<lambda>hours (k, row). accumulate k row hours) (db_hours d) xs) = fst ` set (db_hours d) \<union> fst ` set xs"
    for xs using keys_fold [of "\<lambda>k. k"] by simp
  have hrs: "fst ` set (db_hours (roll_up_ledger f d now)) \<subseteq> fst ` set (db_hours d) \<union> fst ` set (hourly_sums c (db_minutes d))"
    using 2 [of "hourly_sums c (db_minutes d)"] by (simp add: roll_up_ledger_def c_def [symmetric] Let_def)
  have hs: "fst ` fst ` set (hourly_sums c (db_minutes d)) \<subseteq> fst ` fst ` set (db_minutes d)"
    unfolding 1 image_image to_hour_def fst_conv by (rule image_mono) auto
  have "set (db_minutes (roll_up_ledger f d now)) \<subseteq> set (db_minutes d)"
    by (auto simp: roll_up_ledger_def Let_def)
  then have ms: "fst ` fst ` set (db_minutes (roll_up_ledger f d now)) \<subseteq> fst ` fst ` set (db_minutes d)"
    by (intro image_mono)
  have "X \<union> Y \<subseteq> M \<union> H" if "X \<subseteq> M" "Y \<subseteq> H \<union> S" "S \<subseteq> M" for X Y M H S :: "nat set" using that by blast
  from this [OF ms image_mono [OF hrs, of fst, unfolded image_Un] hs] show ?thesis
    unfolding owned_def set_append image_Un .
qed

lemma roll_up_same [simp]:
  "db_users (roll_up_ledger f d now) = db_users d" "db_workers (roll_up_ledger f d now) = db_workers d"
  by (simp_all add: roll_up_ledger_def Let_def)

section \<open>Worker rows\<close>

text \<open>The address and label behind each worker row, in row order.\<close>

definition pairs :: "db \<Rightarrow> (string \<times> string) list" where
  "pairs d = map (\<lambda>((u, lbl), _). (fst (db_users d ! (u - 1)), lbl)) (db_workers d)"

definition db_ok :: "db \<Rightarrow> bool" where
  "db_ok d \<longleftrightarrow> distinct (map fst (db_users d)) \<and> distinct (map fst (db_workers d))
     \<and> (\<forall>r \<in> set (db_workers d). 0 < fst (fst r) \<and> fst (fst r) \<le> length (db_users d))
     \<and> (\<forall>k \<in> fst ` fst ` set (owned d). 0 < k \<and> k \<le> length (db_workers d))"

lemma length_pairs [simp]: "length (pairs d) = length (db_workers d)"
  by (simp add: pairs_def)

lemma position_Some: "position p xs = Some i \<Longrightarrow> i < length xs \<and> p (xs ! i)"
  by (induction xs arbitrary: i) (auto split: if_splits)

lemma position_None: "position p xs = None \<longleftrightarrow> (\<forall>x \<in> set xs. \<not> p x)"
  by (induction xs) auto

lemma user_id_Some: "user_id d a = Some u \<Longrightarrow> 0 < u \<and> u \<le> length (db_users d) \<and> fst (db_users d ! (u - 1)) = a"
  by (auto simp: user_id_def dest: position_Some)

lemma user_id_None: "user_id d a = None \<longleftrightarrow> a \<notin> fst ` set (db_users d)"
  by (auto simp: user_id_def position_None)

lemma worker_row_id_Some:
  assumes "worker_row_id d a l = Some i"
  shows "0 < i \<and> i \<le> length (db_workers d) \<and> pairs d ! (i - 1) = (a, l)"
proof -
  from assms obtain u j where u: "user_id d a = Some u" "position (\<lambda>r. fst r = (u, l)) (db_workers d) = Some j" "i = Suc j"
    by (auto simp: worker_row_id_def bind_eq_Some_conv)
  with position_Some [OF u(2)] user_id_Some [OF u(1)] show ?thesis
    by (auto simp: pairs_def case_prod_unfold)
qed

lemma user_index_eq:
  assumes "distinct (map fst us)" "0 < u" "u \<le> length us" "0 < u'" "u' \<le> length us"
    and "fst (us ! (u - 1)) = fst (us ! (u' - 1))"
  shows "u = u'"
proof -
  have "u - 1 < length us" "u' - 1 < length us" using assms(2-5) by linarith+
  then have "u - 1 = u' - 1" using assms(1,6) nth_eq_iff_index_eq [of "map fst us" "u - 1" "u' - 1"] by simp
  then show ?thesis using assms(2,4) by linarith
qed

lemma worker_row_id_None:
  assumes "db_ok d" "worker_row_id d a l = None"
  shows "(a, l) \<notin> set (pairs d)"
proof
  assume "(a, l) \<in> set (pairs d)"
  then obtain u t where u: "((u, l), t) \<in> set (db_workers d)" "fst (db_users d ! (u - 1)) = a"
    by (auto simp: pairs_def)
  have "\<forall>r \<in> set (db_workers d). 0 < fst (fst r) \<and> fst (fst r) \<le> length (db_users d)"
    using assms(1) by (simp add: db_ok_def)
  from bspec [OF this u(1)] have v: "0 < u" "u \<le> length (db_users d)" by simp_all
  then have "u - 1 < length (db_users d)" by linarith
  from nth_mem [OF this] have "a \<in> fst ` set (db_users d)" using u(2) by (metis image_eqI)
  then obtain u' where u': "user_id d a = Some u'" using user_id_None [of d a] by (cases "user_id d a") auto
  note v' = user_id_Some [OF u']
  have "u = u'"
    using assms(1) v v' u(2) by (intro user_index_eq [of "db_users d"]) (auto simp: db_ok_def)
  then show False using assms(2) u(1) u' by (auto simp: worker_row_id_def position_None)
qed

lemma distinct_pairs:
  assumes "db_ok d"
  shows "distinct (pairs d)"
proof -
  have "inj_on (\<lambda>((u, lbl), t). (fst (db_users d ! (u - 1)), lbl)) (set (db_workers d))"
  proof (rule inj_onI)
    fix x y assume m: "x \<in> set (db_workers d)" "y \<in> set (db_workers d)"
      and eq: "(\<lambda>((u, lbl), t). (fst (db_users d ! (u - 1)), lbl)) x = (\<lambda>((u, lbl), t). (fst (db_users d ! (u - 1)), lbl)) y"
    have "\<forall>r \<in> set (db_workers d). 0 < fst (fst r) \<and> fst (fst r) \<le> length (db_users d)"
      using assms by (simp add: db_ok_def)
    from bspec [OF this m(1)] bspec [OF this m(2)] eq assms have "fst (fst x) = fst (fst y)"
      by (intro user_index_eq [of "db_users d"]) (auto simp: db_ok_def case_prod_unfold)
    with eq have "fst x = fst y" by (simp add: case_prod_unfold prod_eq_iff)
    then show "x = y" using m assms unfolding db_ok_def by (metis distinct_map inj_onD)
  qed
  moreover have "distinct (db_workers d)" using assms by (simp add: db_ok_def distinct_map)
  ultimately show ?thesis by (simp add: pairs_def distinct_map)
qed

text \<open>What resolving a name gives: the row of its pair, appended at the end if it was not there.\<close>

lemma insert_user_ok:
  fixes now :: nat and a :: string
  assumes "db_ok d"
  defines "d' \<equiv> insert_user d a now"
  shows "db_ok d'" "pairs d' = pairs d" "owned d' = owned d" "db_workers d' = db_workers d"
proof -
  have nth: "(db_users d @ xs) ! (u - 1) = db_users d ! (u - 1)" if "0 < u" "u \<le> length (db_users d)" for u xs
  proof -
    have "u - 1 < length (db_users d)" using that by linarith
    then show ?thesis by (simp add: nth_append)
  qed
  have v: "0 < fst (fst r) \<and> fst (fst r) \<le> length (db_users d)" if "r \<in> set (db_workers d)" for r
    using assms(1) that by (simp add: db_ok_def)
  show "db_ok d'" using assms(1) user_id_None [of d a] v unfolding d'_def
    by (auto simp: insert_user_def db_ok_def owned_def le_SucI)
  show "pairs d' = pairs d" using nth v unfolding d'_def by (auto simp: pairs_def insert_user_def)
  show "owned d' = owned d" "db_workers d' = db_workers d" by (simp_all add: d'_def owned_def insert_user_def)
qed

lemma insert_worker_ok:
  fixes now :: nat
  assumes "db_ok d" "user_id d a = Some u" "(a, l) \<notin> set (pairs d)"
  defines "d' \<equiv> insert_worker d a l now"
  shows "db_ok d'" "pairs d' = pairs d @ [(a, l)]" "owned d' = owned d" "length (db_workers d') = Suc (length (db_workers d))"
proof -
  note u = user_id_Some [OF assms(2)]
  have "(u, l) \<notin> fst ` set (db_workers d)"
  proof
    assume "(u, l) \<in> fst ` set (db_workers d)"
    then obtain t where "((u, l), t) \<in> set (db_workers d)" by auto
    then have "(a, l) \<in> set (pairs d)" using u unfolding pairs_def by (force intro: rev_image_eqI)
    then show False using assms(3) by simp
  qed
  then have d': "d' = d\<lparr>db_workers := db_workers d @ [((u, l), now)]\<rparr>" using assms(2) by (simp add: d'_def insert_worker_def)
  show "owned d' = owned d" "length (db_workers d') = Suc (length (db_workers d))" by (simp_all add: d' owned_def)
  show "pairs d' = pairs d @ [(a, l)]" using u by (simp add: d' pairs_def)
  show "db_ok d'" using assms(1) u \<open>(u, l) \<notin> fst ` set (db_workers d)\<close> by (auto simp: d' db_ok_def owned_def le_SucI)
qed

lemma resolve_worker_spec:
  assumes "db_ok d" "resolve_worker_id d name now = Some (r, d')"
    and "finite N" "set (pairs d) \<subseteq> N" "split_worker name \<in> N" "card N \<le> MAX_LEDGER_WORKERS"
  obtains i where "r = Some i" "db_ok d'" "0 < i" "i \<le> length (db_workers d')"
    "pairs d' ! (i - 1) = split_worker name" "owned d' = owned d"
    "\<exists>xs. pairs d' = pairs d @ xs" "set (pairs d') \<subseteq> N"
proof -
  obtain a l where al: "split_worker name = (a, l)" by (cases "split_worker name")
  show ?thesis
  proof (cases "worker_row_id d a l")
    case (Some i)
    with assms worker_row_id_Some [OF Some] al show ?thesis
      by (intro that [of i]) (auto simp: resolve_worker_id_def)
  next
    case None
    from worker_row_id_None [OF assms(1) None] have new: "(a, l) \<notin> set (pairs d)" .
    have "card (insert (a, l) (set (pairs d))) \<le> card N" using assms(3-5) al by (intro card_mono) auto
    then have "length (db_workers d) < MAX_LEDGER_WORKERS"
      using new distinct_card [OF distinct_pairs [OF assms(1)]] assms(6) by simp
    then have res: "r = worker_row_id d' a l" "d' = insert_worker (insert_user d a now) a l now"
      "worker_row_id d' a l \<noteq> None"
      using assms(2) None al
      by (cases "worker_row_id (insert_worker (insert_user d a now) a l now) a l"; auto simp: resolve_worker_id_def Let_def)+
    let ?d = "insert_user d a now"
    note user = insert_user_ok [OF assms(1), of a now]
    show ?thesis
    proof (cases "user_id ?d a")
      case None
      then show ?thesis using res(2,3) by (simp add: insert_worker_def worker_row_id_def)
    next
      case (Some u)
      note wk = insert_worker_ok [OF user(1) Some, of l now] 
      obtain i where i: "worker_row_id d' a l = Some i" using res(3) by auto
      show ?thesis
        using wk new user i res worker_row_id_Some [OF i] assms(4,5) al by (intro that [of i]) auto
    qed
  qed
qed

lemma db_ok_roll_up:
  assumes "db_ok d"
  shows "db_ok (roll_up_ledger f d now)"
proof -
  have "\<forall>k \<in> fst ` fst ` set (owned d). 0 < k \<and> k \<le> length (db_workers d)"
    using assms unfolding db_ok_def by (elim conjE)
  then have "\<forall>k \<in> fst ` fst ` set (owned (roll_up_ledger f d now)). 0 < k \<and> k \<le> length (db_workers d)"
    using roll_up_keys [of f d now] by (meson subset_iff)
  with assms show ?thesis unfolding db_ok_def roll_up_same by (elim conjE) (intro conjI)
qed

section \<open>Totals per worker\<close>

definition row_of :: "db \<Rightarrow> string \<times> string \<Rightarrow> nat \<Rightarrow> bool" where
  "row_of d p w \<longleftrightarrow> 0 < w \<and> w \<le> length (db_workers d) \<and> pairs d ! (w - 1) = p"

definition worker_total :: "(ledger_row \<Rightarrow> nat) \<Rightarrow> db \<Rightarrow> string \<times> string \<Rightarrow> nat" where
  "worker_total sel d p = rows_total (row_of d p) sel (owned d)"

definition entries_total :: "(ledger_entry \<Rightarrow> u64) \<Rightarrow> ledger_entry list \<Rightarrow> string \<times> string \<Rightarrow> nat" where
  "entries_total esel es p = sum_list (map (\<lambda>e. if split_worker (le_worker e) = p then unat (esel e) else 0) es)"

definition sel_ok :: "(ledger_row \<Rightarrow> nat) \<Rightarrow> (ledger_entry \<Rightarrow> u64) \<Rightarrow> bool" where
  "sel_ok sel esel \<longleftrightarrow> additive sel \<and> (\<forall>e row. entry_row e = Some row \<longrightarrow> sel row = unat (esel e))"

lemma sel_ok_columns: "sel_ok lr_work le_work" "sel_ok lr_accepted le_accepted" "sel_ok lr_rejected le_rejected"
  by (auto simp: sel_ok_def additive_def row_add_def entry_row_def sql_int_def bind_eq_Some_conv split: if_splits)

lemma rows_total_cong:
  "(\<And>w. w \<in> fst ` fst ` set rows \<Longrightarrow> P w = Q w) \<Longrightarrow> rows_total P sel rows = rows_total Q sel rows"
  by (induction rows) auto

lemma row_of_extend:
  assumes "pairs d' = pairs d @ xs" "w \<le> length (db_workers d)"
  shows "row_of d' p w = row_of d p w"
proof -
  have "length (db_workers d') = length (db_workers d) + length xs"
    using assms(1) length_pairs by (metis length_append)
  moreover have "pairs d' ! (w - 1) = pairs d ! (w - 1)" if "0 < w"
  proof -
    have "w - 1 < length (pairs d)" using that assms(2) by simp
    then show ?thesis using assms(1) by (simp add: nth_append)
  qed
  ultimately show ?thesis using assms(2) by (auto simp: row_of_def)
qed

lemma worker_total_extend:
  assumes "db_ok d" "pairs d' = pairs d @ xs" "owned d' = owned d"
  shows "worker_total sel d' p = worker_total sel d p"
  unfolding worker_total_def assms(3)
proof (rule rows_total_cong)
  fix w assume "w \<in> fst ` fst ` set (owned d)"
  then have "w \<le> length (db_workers d)" using assms(1) unfolding db_ok_def by blast
  then show "row_of d' p w = row_of d p w" by (rule row_of_extend [OF assms(2)])
qed

definition ids_ok :: "db \<Rightarrow> (string \<times> nat) list \<Rightarrow> bool" where
  "ids_ok d ids \<longleftrightarrow> (\<forall>name i. map_of ids name = Some i \<longrightarrow> row_of d (split_worker name) i)"

lemma ids_ok_extend: "ids_ok d ids \<Longrightarrow> pairs d' = pairs d @ xs \<Longrightarrow> ids_ok d' ids"
  unfolding ids_ok_def using row_of_extend row_of_def by metis

lemma upsert_minute_total:
  assumes "upsert_minute d i ts e = Some d'" "db_ok d" "sel_ok sel esel" "row_of d q i"
  shows "db_ok d'" "pairs d' = pairs d" "db_workers d' = db_workers d"
    "worker_total sel d' p = worker_total sel d p + (if p = q then unat (esel e) else 0)"
proof -
  from assms(1) obtain row where row: "entry_row e = Some row" "d' = d\<lparr>db_minutes := accumulate (i, ts) row (db_minutes d)\<rparr>"
    by (auto simp: upsert_minute_def split: if_splits)
  have i: "0 < i" "i \<le> length (db_workers d)" "pairs d ! (i - 1) = q" using assms(4) by (simp_all add: row_of_def)
  show 1: "pairs d' = pairs d" "db_workers d' = db_workers d" by (simp_all add: row(2) pairs_def)
  have "fst ` fst ` set (accumulate (i, ts) row (db_minutes d)) = insert i (fst ` fst ` set (db_minutes d))"
    by (simp add: set_accumulate)
  then show "db_ok d'" using assms(2) i by (auto simp: db_ok_def row(2) owned_def image_Un)
  have "sel row = unat (esel e)" "additive sel" using assms(3) row(1) by (auto simp: sel_ok_def)
  moreover have "row_of d' p = row_of d p" using 1 by (auto simp: row_of_def)
  ultimately show "worker_total sel d' p = worker_total sel d p + (if p = q then unat (esel e) else 0)"
    using i by (auto simp: worker_total_def row(2) owned_def rows_total_accumulate row_of_def)
qed

lemma write_entries_total:
  assumes "write_entries ts d ids es = Some (d', ids')" "db_ok d" "ids_ok d ids" "sel_ok sel esel"
    and "finite N" "set (pairs d) \<subseteq> N" "split_worker ` le_worker ` set es \<subseteq> N" "card N \<le> MAX_LEDGER_WORKERS"
  shows "db_ok d' \<and> ids_ok d' ids' \<and> set (pairs d') \<subseteq> N
     \<and> worker_total sel d' p = worker_total sel d p + entries_total esel es p"
  using assms(1-3,6,7)
proof (induction es arbitrary: d ids)
  case Nil
  then show ?case by (simp add: entries_total_def)
next
  case (Cons e es)
  let ?q = "split_worker (le_worker e)"
  show ?case
  proof (cases "map_of ids (le_worker e)")
    case (Some i)
    then obtain d1 where d1: "upsert_minute d i ts e = Some d1" "write_entries ts d1 ids es = Some (d', ids')"
      using Cons.prems(1) by (auto simp: bind_eq_Some_conv)
    have "row_of d ?q i" using Cons.prems(3) Some by (simp add: ids_ok_def)
    note up = upsert_minute_total [OF d1(1) Cons.prems(2) assms(4) this]
    have "ids_ok d1 ids" using ids_ok_extend [OF Cons.prems(3), of d1 "[]"] up(2) by simp
    then show ?thesis
      using Cons.IH [OF d1(2) up(1)] Cons.prems(4,5) up(2,4) by (auto simp: entries_total_def)
  next
    case None
    then obtain r d0 where r: "resolve_worker_id d (le_worker e) ts = Some (r, d0)"
      using Cons.prems(1) by (auto split: option.splits prod.splits)
    from Cons.prems(5) have q: "?q \<in> N" by simp
    from resolve_worker_spec [OF Cons.prems(2) r assms(5) Cons.prems(4) q assms(8)] obtain i xs where
      i: "r = Some i" "db_ok d0" "row_of d0 ?q i" "owned d0 = owned d" "pairs d0 = pairs d @ xs" "set (pairs d0) \<subseteq> N"
      unfolding row_of_def by metis
    then obtain d1 where d1: "upsert_minute d0 i ts e = Some d1"
      "write_entries ts d1 (AList.update (le_worker e) i ids) es = Some (d', ids')"
      using Cons.prems(1) None r by (auto simp: bind_eq_Some_conv)
    note up = upsert_minute_total [OF d1(1) i(2) assms(4) i(3)]
    have "ids_ok d0 ids" using ids_ok_extend [OF Cons.prems(3) i(5)] .
    then have "ids_ok d1 (AList.update (le_worker e) i ids)"
      using i(3) up(2,3) by (auto simp: ids_ok_def row_of_def AList.update_conv')
    from Cons.IH [OF d1(2) up(1) this] Cons.prems(5) up(2,4) i(6)
      worker_total_extend [OF Cons.prems(2) i(5,4)] show ?thesis
      by (auto simp: entries_total_def)
  qed
qed

section \<open>The writer keeps the books\<close>

fun write_total :: "(ledger_entry \<Rightarrow> u64) \<Rightarrow> string \<times> string \<Rightarrow> store_write \<Rightarrow> nat" where
  "write_total esel p (Ledger ts es) = entries_total esel es p"
| "write_total esel p w = 0"

definition writes_total :: "(ledger_entry \<Rightarrow> u64) \<Rightarrow> store_write list \<Rightarrow> string \<times> string \<Rightarrow> nat" where
  "writes_total esel ws p = sum_list (map (write_total esel p) ws)"

lemma writes_total_simps [simp]:
  "writes_total esel [] p = 0"
  "writes_total esel (w # ws) p = write_total esel p w + writes_total esel ws p"
  "writes_total esel (xs @ ys) p = writes_total esel xs p + writes_total esel ys p"
  by (simp_all add: writes_total_def)

fun write_names :: "store_write \<Rightarrow> (string \<times> string) set" where
  "write_names (Ledger ts es) = split_worker ` le_worker ` set es"
| "write_names w = {}"

definition books_ok :: "(string \<times> string) set \<Rightarrow> db \<Rightarrow> writer_state \<Rightarrow> bool" where
  "books_ok N d st \<longleftrightarrow> db_ok d \<and> ids_ok d (ws_worker_ids st) \<and> set (pairs d) \<subseteq> N"

lemma ledger_same_books:
  assumes "ledger_same d d'"
  shows "db_ok d' = db_ok d" "pairs d' = pairs d" "worker_total sel d' p = worker_total sel d p" "ids_ok d' ids = ids_ok d ids"
proof -
  have 1: "pairs d' = pairs d" "owned d' = owned d" "db_workers d' = db_workers d" "db_users d' = db_users d"
    using assms by (simp_all add: ledger_same_def pairs_def owned_def)
  then have "row_of d' q = row_of d q" for q by (auto simp: row_of_def)
  then show "db_ok d' = db_ok d" "pairs d' = pairs d" "worker_total sel d' p = worker_total sel d p" "ids_ok d' ids = ids_ok d ids"
    using 1 by (simp_all add: db_ok_def worker_total_def ids_ok_def)
qed

lemma apply_other_same:
  assumes "apply_write f d w st = (ok, d', st')" "\<And>ts es. w \<noteq> Ledger ts es"
  shows "ledger_same d d' \<and> ws_worker_ids st' = ws_worker_ids st"
proof (cases w)
  case (BlockFound b)
  then show ?thesis using assms(1) insert_found_same [of d b]
    by (auto simp: apply_write_def Let_def ledger_same_def split: option.splits bool.splits)
next
  case (BlockResolved h r ts)
  then show ?thesis using assms(1) resolve_found_same [of "snd f" d h r ts]
    by (auto simp: apply_write_def Let_def ledger_same_def split: prod.splits if_splits)
next
  case (Snapshot s)
  then show ?thesis using assms(1) write_snapshot_same [of f d s]
    by (auto simp: apply_write_def Let_def split: prod.splits)
qed (use assms in \<open>auto simp: apply_write_def apply_round_reset_def prune_worker_rows_def Let_def ledger_same_def
    split: option.splits bool.splits if_splits\<close>)

lemma apply_write_books:
  assumes "apply_write f d w st = (ok, d', st')" "books_ok N d st" "sel_ok sel esel"
    and "finite N" "write_names w \<subseteq> N" "card N \<le> MAX_LEDGER_WORKERS"
  shows "books_ok N d' st' \<and> worker_total sel d' p = worker_total sel d p + (if ok then write_total esel p w else 0)"
proof (cases "\<exists>ts es. w = Ledger ts es")
  case False
  then have "write_total esel p w = 0" by (cases w) auto
  with False apply_other_same [OF assms(1)] assms(2) show ?thesis
    by (auto simp: books_ok_def ledger_same_books)
next
  case True
  then obtain ts es where w: "w = Ledger ts es" by blast
  show ?thesis
  proof (cases "write_ledger_minute (fst f) d ts es (ws_worker_ids st)")
    case None
    then show ?thesis using assms(1,2) w by (auto simp: apply_write_def books_ok_def ids_ok_def)
  next
    case (Some r)
    then obtain d1 ids where r: "write_ledger_minute (fst f) d ts es (ws_worker_ids st) = Some (d1, ids)" by (cases r) auto
    then have res: "ok" "d' = roll_up_ledger (snd f) d1 ts" "st' = st\<lparr>ws_worker_ids := ids\<rparr>"
      using assms(1) w by (auto simp: apply_write_def)
    have d1: "db_ok d1 \<and> ids_ok d1 ids \<and> set (pairs d1) \<subseteq> N
        \<and> worker_total sel d1 p = worker_total sel d p + entries_total esel es p"
    proof (cases "es = []")
      case True
      then show ?thesis using r assms(2) by (simp add: write_ledger_minute_def books_ok_def entries_total_def)
    next
      case False
      then obtain n where "write_entries n d (ws_worker_ids st) es = Some (d1, ids)"
        using r by (auto simp: write_ledger_minute_def bind_eq_Some_conv split: if_splits)
      from write_entries_total [OF this _ _ assms(3,4)] show ?thesis using assms(2,5,6) w by (simp add: books_ok_def)
    qed
    have rp: "pairs d' = pairs d1" by (simp add: res(2) pairs_def)
    have row: "row_of d' q = row_of d1 q" for q using rp by (auto simp: row_of_def res(2))
    have "db_ok d'" using d1 by (simp add: res(2) db_ok_roll_up)
    moreover have "worker_total sel d' p = worker_total sel d1 p"
      using roll_up_total assms(3) row by (simp add: worker_total_def res(2) sel_ok_def)
    ultimately show ?thesis using d1 rp row res w by (simp add: books_ok_def ids_ok_def)
  qed
qed

lemma retry_books:
  assumes "retry_backlog fs d bl st = (d', st', bl')" "books_ok N d st" "sel_ok sel esel"
    and "finite N" "\<Union> (write_names ` set bl) \<subseteq> N" "card N \<le> MAX_LEDGER_WORKERS"
  shows "books_ok N d' st' \<and> set bl' \<subseteq> set bl
     \<and> worker_total sel d' p + writes_total esel bl' p = worker_total sel d p + writes_total esel bl p"
  using assms(1,2,5)
proof (induction bl arbitrary: fs d st)
  case (Cons w bl)
  obtain ok d1 st1 where a: "apply_write (fs 0) d w st = (ok, d1, st1)" by (cases "apply_write (fs 0) d w st") auto
  from Cons.prems(3) have "write_names w \<subseteq> N" by simp
  note st = apply_write_books [OF a Cons.prems(2) assms(3,4) this assms(6), of p]
  show ?case
  proof (cases ok)
    case True
    then have "retry_backlog (\<lambda>n. fs (Suc n)) d1 bl st1 = (d', st', bl')" using Cons.prems(1) a by simp
    from Cons.IH [OF this] st True Cons.prems(3) show ?thesis by auto
  next
    case False
    then show ?thesis using Cons.prems(1) a st by auto
  qed
qed simp

text \<open>What an iteration drops: the oldest parked write, when the backlog is full.\<close>

definition dropped :: "db \<times> writer_state \<times> store_write list \<Rightarrow> loop_input \<Rightarrow> store_write list" where
  "dropped s i =
     (let (d, st, backlog) = s; (d1, st1, backlog1) = retry_backlog (li_retry_faults i) d backlog st in
      case li_next i of
        None \<Rightarrow> []
      | Some w \<Rightarrow> if \<not> fst (apply_write (li_fault i) d1 w st1) \<and> is_durable w \<and> MAX_WRITE_BACKLOG \<le> length backlog1
                  then take 1 backlog1 else [])"

fun all_dropped :: "db \<times> writer_state \<times> store_write list \<Rightarrow> loop_input list \<Rightarrow> store_write list" where
  "all_dropped s [] = []"
| "all_dropped s (i # is) = dropped s i @ all_dropped (writer_iteration s i) is"

definition input_writes :: "loop_input list \<Rightarrow> store_write list" where
  "input_writes is = List.map_filter li_next is"

lemma set_input_writes: "set (input_writes is) = {w. \<exists>i \<in> set is. li_next i = Some w}"
  by (force simp: input_writes_def List.map_filter_def)

lemma non_durable_total: "\<not> is_durable w \<Longrightarrow> write_total esel p w = 0"
  by (cases w) auto

lemma handle_books:
  assumes "handle_write f d w st bl = (d', st', bl')" "books_ok N d st" "sel_ok sel esel"
    and "finite N" "write_names w \<subseteq> N" "card N \<le> MAX_LEDGER_WORKERS"
  shows "books_ok N d' st' \<and> set bl' \<subseteq> insert w (set bl)
     \<and> worker_total sel d' p + writes_total esel bl' p
       + writes_total esel (if \<not> fst (apply_write f d w st) \<and> is_durable w \<and> MAX_WRITE_BACKLOG \<le> length bl then take 1 bl else []) p
       = worker_total sel d p + writes_total esel bl p + write_total esel p w"
proof -
  obtain ok d1 st1 where a: "apply_write f d w st = (ok, d1, st1)" by (cases "apply_write f d w st") auto
  note st = apply_write_books [OF a assms(2-6), of p]
  have take1: "writes_total esel (take 1 bl) p + writes_total esel (tl bl) p = writes_total esel bl p"
    by (cases bl) auto
  have tl: "\<And>x. x \<in> set (tl bl) \<Longrightarrow> x \<in> set bl" by (cases bl) auto
  show ?thesis
    using assms(1) a st take1 non_durable_total [of w esel p] tl
    by (auto simp: handle_write_def split: if_splits)
qed

lemma iteration_books:
  assumes "books_ok N d st" "sel_ok sel esel" "finite N" "card N \<le> MAX_LEDGER_WORKERS"
    and "\<Union> (write_names ` set bl) \<subseteq> N" "\<forall>w. li_next i = Some w \<longrightarrow> write_names w \<subseteq> N"
  defines "s' \<equiv> writer_iteration (d, st, bl) i"
  shows "books_ok N (fst s') (fst (snd s')) \<and> \<Union> (write_names ` set (snd (snd s'))) \<subseteq> N
     \<and> worker_total sel (fst s') p + writes_total esel (snd (snd s')) p + writes_total esel (dropped (d, st, bl) i) p
       = worker_total sel d p + writes_total esel bl p + writes_total esel (input_writes [i]) p"
proof -
  obtain d1 st1 bl1 where r: "retry_backlog (li_retry_faults i) d bl st = (d1, st1, bl1)"
    by (cases "retry_backlog (li_retry_faults i) d bl st") auto
  note rb = retry_books [OF r assms(1-3,5,4), of p]
  show ?thesis
  proof (cases "li_next i")
    case None
    then show ?thesis
      using rb assms(5) by (auto simp: s'_def writer_iteration_def dropped_def r input_writes_def List.map_filter_def)
  next
    case (Some w)
    obtain d2 st2 bl2 where h: "handle_write (li_fault i) d1 w st1 bl1 = (d2, st2, bl2)"
      by (cases "handle_write (li_fault i) d1 w st1 bl1") auto
    have wn: "write_names w \<subseteq> N" using assms(6) Some by simp
    have "books_ok N d1 st1" using rb by simp
    note hb = handle_books [OF h this assms(2,3) wn assms(4), of p]
    have "\<Union> (write_names ` set bl2) \<subseteq> N" using hb rb wn assms(5) by blast
    moreover have "s' = (d2, st2, bl2)" using Some h by (simp add: s'_def writer_iteration_def r)
    moreover have "dropped (d, st, bl) i = (if \<not> fst (apply_write (li_fault i) d1 w st1) \<and> is_durable w
        \<and> MAX_WRITE_BACKLOG \<le> length bl1 then take 1 bl1 else [])" using Some by (simp add: dropped_def r)
    ultimately show ?thesis using hb rb Some by (simp add: input_writes_def List.map_filter_def)
  qed
qed

lemma input_writes_Cons: "writes_total esel (input_writes (i # is)) p =
    writes_total esel (input_writes [i]) p + writes_total esel (input_writes is) p"
  by (simp add: input_writes_def List.map_filter_def)

lemma run_books:
  assumes "books_ok N (fst s) (fst (snd s))" "sel_ok sel esel" "finite N" "card N \<le> MAX_LEDGER_WORKERS"
    and "\<Union> (write_names ` set (snd (snd s))) \<subseteq> N" "\<Union> (write_names ` set (input_writes is)) \<subseteq> N"
  shows "let s' = foldl writer_iteration s is in
     books_ok N (fst s') (fst (snd s')) \<and> \<Union> (write_names ` set (snd (snd s'))) \<subseteq> N
     \<and> worker_total sel (fst s') p + writes_total esel (snd (snd s')) p + writes_total esel (all_dropped s is) p
       = worker_total sel (fst s) p + writes_total esel (snd (snd s)) p + writes_total esel (input_writes is) p"
  using assms(1,5,6)
proof (induction "is" arbitrary: s)
  case Nil
  then show ?case by (simp add: input_writes_def List.map_filter_def)
next
  case (Cons i "is")
  obtain d st bl where s: "s = (d, st, bl)" by (cases s) auto
  have names: "\<forall>w. li_next i = Some w \<longrightarrow> write_names w \<subseteq> N" "\<Union> (write_names ` set (input_writes is)) \<subseteq> N"
    using Cons.prems(3) by (auto simp: set_input_writes)
  have "books_ok N d st" "\<Union> (write_names ` set bl) \<subseteq> N" using Cons.prems s by auto
  note it = iteration_books [OF this(1) assms(2-4) this(2) names(1), of p]
  show ?case
    using Cons.IH [of "writer_iteration s i"] it names(2) input_writes_Cons [of esel i "is" p]
    by (simp add: s Let_def)
qed

lemma ledger_exact_column:
  assumes ok: "sel_ok sel esel" and "db_ok d" "finite N" "card N \<le> MAX_LEDGER_WORKERS" "set (pairs d) \<subseteq> N"
    and "\<Union> (write_names ` set (input_writes inputs)) \<subseteq> N"
    and "writer_loop d inputs final = (d', st', parked)"
  shows "worker_total sel d' p + writes_total esel parked p + writes_total esel (all_dropped (d, writer_init, []) inputs) p
      = worker_total sel d p + writes_total esel (input_writes inputs) p"
proof -
  obtain d1 st1 bl1 where f: "foldl writer_iteration (d, writer_init, []) inputs = (d1, st1, bl1)"
    by (cases "foldl writer_iteration (d, writer_init, []) inputs") auto
  have "books_ok N d writer_init" using assms(2,5) by (simp add: books_ok_def ids_ok_def writer_init_def)
  from run_books [of N "(d, writer_init, [])", OF _ ok assms(3,4) _ assms(6), of p] this f
  have run: "books_ok N d1 st1" "\<Union> (write_names ` set bl1) \<subseteq> N"
    "worker_total sel d1 p + writes_total esel bl1 p + writes_total esel (all_dropped (d, writer_init, []) inputs) p
     = worker_total sel d p + writes_total esel (input_writes inputs) p" by (simp_all add: Let_def)
  have "retry_backlog final d1 bl1 st1 = (d', st', parked)" using assms(7) f by (simp add: writer_loop_def)
  from retry_books [OF this run(1) ok assms(3) run(2) assms(4), of p] run(3) show ?thesis by simp
qed

text \<open>
  C4: The ledger is exact.  Whatever the disk does, for every worker (up to the table's cap of
  workers) the work, accepted and rejected sums on disk, minute and hourly rows together,
  grow by exactly what was handed to the writer, less what is still parked and what a full
  backlog dropped: no failure, retry, partial flush or rollup loses or counts a share twice,
  or books it on another worker.
\<close>

theorem ledger_exact:
  assumes "db_ok d" "finite N" "card N \<le> MAX_LEDGER_WORKERS" "set (pairs d) \<subseteq> N"
    and "\<Union> (write_names ` set (input_writes inputs)) \<subseteq> N"
    and "writer_loop d inputs final = (d', st', parked)"
  defines "lost \<equiv> all_dropped (d, writer_init, []) inputs"
  shows "worker_total lr_work d' p + writes_total le_work parked p + writes_total le_work lost p
       = worker_total lr_work d p + writes_total le_work (input_writes inputs) p
    \<and> worker_total lr_accepted d' p + writes_total le_accepted parked p + writes_total le_accepted lost p
       = worker_total lr_accepted d p + writes_total le_accepted (input_writes inputs) p
    \<and> worker_total lr_rejected d' p + writes_total le_rejected parked p + writes_total le_rejected lost p
       = worker_total lr_rejected d p + writes_total le_rejected (input_writes inputs) p"
  using assms ledger_exact_column [OF sel_ok_columns(1) assms(1-6)] ledger_exact_column [OF sel_ok_columns(2) assms(1-6)]
    ledger_exact_column [OF sel_ok_columns(3) assms(1-6)] by simp

definition empty_db :: db where
  "empty_db = \<lparr> db_round = \<lparr> rr_accepted = 0, rr_rejected = 0, rr_work = 0, rr_since_ts = 0, rr_best_share = 0,
     rr_best_hashrate = Fin 0 \<rparr>, db_reject_reasons = [], db_worker_best = [], db_found = [], db_users = [],
     db_workers = [], db_minutes = [], db_hours = [], db_hashrate_history = [], db_worker_state = [],
     db_share_rate_history = [], db_share_rate_state = None \<rparr>"

definition sample_minute :: "u64 \<Rightarrow> store_write" where
  "sample_minute ts = Ledger ts [\<lparr> le_worker = ''addr.rig'', le_work = 500, le_accepted = 2, le_rejected = 1 \<rparr>]"

text \<open>The first minute fails once and is retried before the second one.\<close>

definition sample_inputs :: "loop_input list" where
  "sample_inputs =
     [\<lparr> li_next = Some (sample_minute 60), li_retry_faults = (\<lambda>_. (False, False)), li_fault = (True, False) \<rparr>,
      \<lparr> li_next = Some (sample_minute 120), li_retry_faults = (\<lambda>_. (False, False)), li_fault = (False, False) \<rparr>]"

lemma sample_inputs_writes: "input_writes sample_inputs = [sample_minute 60, sample_minute 120]"
  by (simp add: input_writes_def sample_inputs_def List.map_filter_def)

lemma split_sample: "split_worker ''addr.rig'' = (''addr'', ''rig'')"
  by (simp add: split_worker_def)

theorem ledger_exact_witness:
  "case writer_loop empty_db sample_inputs (\<lambda>_. (False, False)) of (d', st', parked) \<Rightarrow>
     worker_total lr_work d' (''addr'', ''rig'') + writes_total le_work parked (''addr'', ''rig'')
       + writes_total le_work (all_dropped (empty_db, writer_init, []) sample_inputs) (''addr'', ''rig'') = 1000"
proof -
  obtain d' st' parked where run: "writer_loop empty_db sample_inputs (\<lambda>_. (False, False)) = (d', st', parked)"
    by (cases "writer_loop empty_db sample_inputs (\<lambda>_. (False, False))") auto
  have "worker_total lr_work empty_db p = 0" for p by (simp add: worker_total_def owned_def empty_db_def)
  moreover have "db_ok empty_db" by (simp add: db_ok_def owned_def empty_db_def)
  moreover have "\<Union> (write_names ` set (input_writes sample_inputs)) \<subseteq> {(''addr'', ''rig'')}"
    by (simp add: sample_inputs_writes sample_minute_def split_sample)
  ultimately show ?thesis
    using ledger_exact [of empty_db "{(''addr'', ''rig'')}" sample_inputs "\<lambda>_. (False, False)" d' st' parked "(''addr'', ''rig'')"] run
    by (simp add: MAX_LEDGER_WORKERS_def pairs_def empty_db_def sample_inputs_writes sample_minute_def entries_total_def split_sample)
qed

section \<open>The backlog drains\<close>

text \<open>
  A write the tables can hold: integers that bind, minutes on the grid, names with an address.  A
  resolution additionally needs its block, on disk or parked before it.
\<close>

fun write_good :: "store_write \<Rightarrow> bool" where
  "write_good (Ledger ts es) \<longleftrightarrow> sql_int ts \<noteq> None \<and> unat ts mod LEDGER_INTERVAL_SECS = 0
     \<and> (\<forall>e \<in> set es. entry_row e \<noteq> None \<and> fst (split_worker (le_worker e)) \<noteq> [])"
| "write_good (BlockFound b) \<longleftrightarrow> sql_int (pb_height b) \<noteq> None \<and> sql_int (pb_found_ts b) \<noteq> None"
| "write_good (BlockResolved h r ts) \<longleftrightarrow> sql_int ts \<noteq> None"
| "write_good (RoundReset epoch ts) \<longleftrightarrow> sql_int ts \<noteq> None"
| "write_good w \<longleftrightarrow> False"

fun resolutions_ordered :: "string set \<Rightarrow> store_write list \<Rightarrow> bool" where
  "resolutions_ordered known [] \<longleftrightarrow> True"
| "resolutions_ordered known (w # ws) \<longleftrightarrow>
     (case w of BlockResolved h r ts \<Rightarrow> h \<in> known | _ \<Rightarrow> True)
     \<and> resolutions_ordered (case w of BlockFound b \<Rightarrow> insert (pb_hash b) known | _ \<Rightarrow> known) ws"

lemma resolve_progress:
  assumes "db_ok d" "fst (split_worker name) \<noteq> []"
  shows "\<exists>r d'. resolve_worker_id d name now = Some (r, d') \<and> db_ok d'
     \<and> (\<exists>xs. pairs d' = pairs d @ xs) \<and> (\<forall>i. r = Some i \<longrightarrow> row_of d' (split_worker name) i)"
proof -
  obtain a l where al: "split_worker name = (a, l)" by (cases "split_worker name")
  show ?thesis
  proof (cases "worker_row_id d a l")
    case (Some i)
    then show ?thesis
      using assms worker_row_id_Some [OF Some] al by (simp add: resolve_worker_id_def row_of_def)
  next
    case None
    let ?d = "insert_user d a now"
    note user = insert_user_ok [OF assms(1), of a now]
    have "a \<noteq> []" using assms(2) al by simp
    then have "user_id ?d a \<noteq> None" unfolding user_id_None by (auto simp: insert_user_def user_id_None split: if_splits)
    then obtain u where u: "user_id ?d a = Some u" by blast
    from worker_row_id_None [OF assms(1) None] have "(a, l) \<notin> set (pairs ?d)" using user(2) by simp
    note wk = insert_worker_ok [OF user(1) u this, of now]
    let ?d2 = "insert_worker ?d a l now"
    have "worker_row_id ?d2 a l \<noteq> None"
    proof
      assume "worker_row_id ?d2 a l = None"
      from worker_row_id_None [OF wk(1) this] wk(2) show False by simp
    qed
    then obtain i where i: "worker_row_id ?d2 a l = Some i" by blast
    show ?thesis
      using None al assms(1) wk(1,2) user(2) i worker_row_id_Some [OF i]
      by (cases "MAX_LEDGER_WORKERS \<le> length (db_workers d)") (auto simp: resolve_worker_id_def Let_def row_of_def)
  qed
qed

lemma upsert_progress:
  assumes "row_of d q i" "entry_row e \<noteq> None" "ts mod LEDGER_INTERVAL_SECS = 0"
  shows "upsert_minute d i ts e \<noteq> None"
  using assms by (auto simp: upsert_minute_def row_of_def)

lemma write_entries_progress:
  assumes "db_ok d" "ids_ok d ids" "ts mod LEDGER_INTERVAL_SECS = 0"
    and "\<forall>e \<in> set es. entry_row e \<noteq> None \<and> fst (split_worker (le_worker e)) \<noteq> []"
  shows "\<exists>d' ids'. write_entries ts d ids es = Some (d', ids') \<and> db_ok d' \<and> ids_ok d' ids'"
  using assms(1,2,4)
proof (induction es arbitrary: d ids)
  case (Cons e es)
  have step: "\<exists>d' ids'. Option.bind (upsert_minute d0 i ts e) (\<lambda>d'. write_entries ts d' ids0 es) = Some (d', ids')
      \<and> db_ok d' \<and> ids_ok d' ids'"
    if row: "db_ok d0" "ids_ok d0 ids0" "row_of d0 q i" for d0 ids0 q i
  proof -
    obtain d1 where d1: "upsert_minute d0 i ts e = Some d1"
      using upsert_progress [OF row(3) _ assms(3)] Cons.prems(3) by auto
    note up = upsert_minute_total [OF d1 row(1) sel_ok_columns(1) row(3)]
    have "ids_ok d1 ids0" using ids_ok_extend [OF row(2), of d1 "[]"] up(2) by simp
    with Cons.IH [OF up(1) this] Cons.prems(3) d1 show ?thesis by simp
  qed
  show ?case
  proof (cases "map_of ids (le_worker e)")
    case (Some i)
    then have "row_of d (split_worker (le_worker e)) i" using Cons.prems(2) by (simp add: ids_ok_def)
    with step [OF Cons.prems(1,2)] Some show ?thesis by simp
  next
    case None
    obtain r d0 xs where r: "resolve_worker_id d (le_worker e) ts = Some (r, d0)" "db_ok d0" "pairs d0 = pairs d @ xs"
      "\<And>i. r = Some i \<Longrightarrow> row_of d0 (split_worker (le_worker e)) i"
      using resolve_progress [OF Cons.prems(1), of "le_worker e" ts] Cons.prems(3) by auto
    note ids = ids_ok_extend [OF Cons.prems(2) r(3)]
    show ?thesis
    proof (cases r)
      case None
      then show ?thesis using \<open>map_of ids (le_worker e) = None\<close> r Cons.IH [OF r(2) ids] Cons.prems(3) by simp
    next
      case (Some i)
      then have row: "row_of d0 (split_worker (le_worker e)) i" using r(4) by simp
      then have "ids_ok d0 (AList.update (le_worker e) i ids)" using ids by (auto simp: ids_ok_def AList.update_conv')
      from step [OF r(2) this row] Some \<open>map_of ids (le_worker e) = None\<close> r(1) show ?thesis by simp
    qed
  qed
qed simp

definition known_hashes :: "db \<Rightarrow> string set" where
  "known_hashes d = fst ` set (db_found d)"

lemma known_iff: "h \<in> known_hashes d \<longleftrightarrow> map_of (db_found d) h \<noteq> None"
  by (simp add: known_hashes_def map_of_eq_None_iff)

lemma apply_progress:
  assumes "write_good w" "db_ok d" "ids_ok d (ws_worker_ids st)"
    and "case w of BlockResolved h r ts \<Rightarrow> h \<in> known_hashes d | _ \<Rightarrow> True"
  shows "\<exists>d' st'. apply_write (False, False) d w st = (True, d', st') \<and> db_ok d' \<and> ids_ok d' (ws_worker_ids st')
     \<and> (case w of BlockFound b \<Rightarrow> insert (pb_hash b) (known_hashes d) | _ \<Rightarrow> known_hashes d) \<subseteq> known_hashes d'"
proof (cases w)
  case (Ledger ts es)
  obtain d1 ids where d1: "write_ledger_minute False d ts es (ws_worker_ids st) = Some (d1, ids)" "db_ok d1" "ids_ok d1 ids"
  proof (cases "es = []")
    case True
    then show ?thesis using that assms(2,3) by (simp add: write_ledger_minute_def)
  next
    case False
    have "sql_int ts = Some (unat ts)" using assms(1) Ledger by (simp add: sql_int_def split: if_splits)
    then show ?thesis
      using write_entries_progress [OF assms(2,3), of "unat ts" es] assms(1) Ledger False that
      by (auto simp: write_ledger_minute_def)
  qed
  have found: "db_found d1 = db_found d"
    using d1(1) write_entries_found by (auto simp: write_ledger_minute_def bind_eq_Some_conv split: if_splits)
  have "row_of (roll_up_ledger False d1 ts) q i = row_of d1 q i" for q i by (simp add: row_of_def pairs_def)
  then show ?thesis
    using Ledger d1 found db_ok_roll_up [OF d1(2), of False ts]
    by (simp add: apply_write_def ids_ok_def known_hashes_def roll_up_ledger_def Let_def)
next
  case (BlockFound b)
  then obtain d' where d': "insert_found d b = Some d'" using assms(1) by (auto simp: insert_found_def)
  then have "insert (pb_hash b) (known_hashes d) \<subseteq> known_hashes d'"
    by (cases "map_of (db_found d) (pb_hash b)")
      (auto simp: insert_found_def bind_eq_Some_conv known_hashes_def dest!: map_of_SomeD intro: rev_image_eqI)
  with d' ledger_same_books [OF insert_found_same [OF d']] assms(2,3) BlockFound show ?thesis
    by (simp add: apply_write_def)
next
  case (BlockResolved h r ts)
  then obtain row where row: "map_of (db_found d) h = Some row" using assms(4) by (auto simp: known_iff)
  obtain b d' where res: "resolve_found False d h r ts = (b, d')" by (cases "resolve_found False d h r ts")
  then have "b" using row assms(1) BlockResolved by (auto simp: resolve_found_def split: option.splits if_splits)
  moreover have "known_hashes d \<subseteq> known_hashes d'"
    using res by (auto simp: resolve_found_def known_iff AList.update_conv' split: option.splits if_splits)
  ultimately show ?thesis using res ledger_same_books [OF resolve_found_same [OF res]] assms(2,3) BlockResolved
    by (simp add: apply_write_def)
next
  case (RoundReset epoch ts)
  have same: "ledger_same d (apply_round_reset d n)" for n by (simp add: ledger_same_def apply_round_reset_def)
  have "known_hashes (apply_round_reset d n) = known_hashes d" for n by (simp add: known_hashes_def apply_round_reset_def)
  with RoundReset assms ledger_same_books(1,4) [OF same] show ?thesis by (auto simp: apply_write_def)
qed (use assms(1) in auto)

text \<open>
  C28: Once the disk has recovered, one retry pass persists every parked write: from any books the
  writer can have, a backlog of writes the tables can hold, in which each resolution comes
  after its block, is emptied.
\<close>

theorem backlog_drains:
  assumes "db_ok d" "ids_ok d (ws_worker_ids st)" "list_all write_good parked"
    and "resolutions_ordered (known_hashes d) parked"
  shows "\<exists>d' st'. retry_backlog (\<lambda>_. (False, False)) d parked st = (d', st', [])"
proof -
  have mono: "resolutions_ordered K' ws" if "resolutions_ordered K ws" "K \<subseteq> K'" for K K' ws
    using that
  proof (induction ws arbitrary: K K')
    case (Cons w ws)
    then show ?case by (cases w) (auto, (metis insert_mono)+)
  qed simp
  show ?thesis
    using assms
  proof (induction parked arbitrary: d st)
    case (Cons w ws)
    from apply_progress [of w, OF _ Cons.prems(1,2)] Cons.prems(3,4) obtain d1 st1 where
      a: "apply_write (False, False) d w st = (True, d1, st1)" "db_ok d1" "ids_ok d1 (ws_worker_ids st1)"
      "(case w of BlockFound b \<Rightarrow> insert (pb_hash b) (known_hashes d) | _ \<Rightarrow> known_hashes d) \<subseteq> known_hashes d1" by auto
    have "resolutions_ordered (known_hashes d1) ws" using Cons.prems(4) mono [OF _ a(4)] by simp
    with Cons.IH [OF a(2,3)] Cons.prems(3) a(1) show ?case by simp
  qed simp
qed

theorem backlog_drains_witness:
  "\<exists>d' st'. retry_backlog (\<lambda>_. (False, False)) empty_db
     [sample_minute 60, BlockFound \<lparr> pb_hash = ''ab'', pb_height = 7, pb_worker = ''addr.rig'', pb_payout = ''addr'',
        pb_found_ts = 61, pb_won_at_submit = True \<rparr>, BlockResolved ''ab'' Confirmed 99] writer_init = (d', st', [])"
  by (rule backlog_drains)
    (simp_all add: db_ok_def owned_def empty_db_def ids_ok_def writer_init_def sample_minute_def split_sample
      LEDGER_INTERVAL_SECS_def sql_int_def entry_row_def)

text \<open>
  The order condition is needed: a resolution whose block is neither on disk nor parked before it,
  which a full backlog that dropped the block leaves behind, stops every pass at its place.
\<close>

lemma orphan_resolution_blocks:
  assumes "h \<notin> known_hashes d"
  shows "retry_backlog faults d (BlockResolved h r ts # parked) st = (d, st, BlockResolved h r ts # parked)"
  using assms by (auto simp: known_iff apply_write_def resolve_found_def split: option.splits)

end
