(* ===== verification/Staging.thy ===== *)
theory Staging
  imports Restart Accounts
begin

text \<open>
  From the share path to the ledger.  Amounts are staged in memory per worker and minute, handed to
  the writer when the minute closes or the pool shuts down, and booked by it; here the
  staging is shown exact, and composed with the writer.
\<close>

declare of_nat_unat [simp del]

section \<open>Events that do not touch the ledger\<close>

definition ledger_ext :: "pool_stats \<Rightarrow> pool_stats \<Rightarrow> bool" where
  "ledger_ext ps ps' \<longleftrightarrow> ps_ledger ps' = ps_ledger ps
     \<and> (\<exists>ws. list_all (\<lambda>w. \<not> is_ledger w) ws \<and> ps_store ps' = map_option (\<lambda>q. q @ ws) (ps_store ps))"

lemma ledger_ext_refl: "ps_ledger ps' = ps_ledger ps \<Longrightarrow> ps_store ps' = ps_store ps \<Longrightarrow> ledger_ext ps ps'"
  by (auto simp: ledger_ext_def intro!: exI [of _ "[]"] simp: option.map_ident)

lemma ledger_ext_enqueue: "ledger_ext ps ps' \<Longrightarrow> \<not> is_ledger w \<Longrightarrow> ledger_ext ps (enqueue w ps')"
proof (clarsimp simp: ledger_ext_def, goal_cases)
  case (1 ws)
  then show ?case by (intro conjI exI [of _ "ws @ [w]"]) (auto simp: enqueue_def option.map_comp comp_def)
qed

lemma ledger_ext_trans: "ledger_ext a b \<Longrightarrow> ledger_ext b c \<Longrightarrow> ledger_ext a c"
proof (clarsimp simp: ledger_ext_def, goal_cases)
  case (1 us ws)
  then show ?case by (intro exI [of _ "us @ ws"]) (auto simp: option.map_comp comp_def)
qed

lemma ledger_with_worker [simp]: "ps_ledger (with_worker w f ps) = ps_ledger ps"
  by (simp add: with_worker_def split: option.splits)

lemma ledger_ext_shares:
  "ledger_ext ps (add_share_diff_at sid worker diff now ps)" "ledger_ext ps (share_accepted credit hash_diff ps)"
  "ledger_ext ps (worker_share_accepted worker hash_diff ps)" "ledger_ext ps (mark_worker_submit worker t ps)"
  "ledger_ext ps (share_rejected lbl ps)" "ledger_ext ps (worker_share_rejected worker lbl ps)"
  by (auto simp: add_share_diff_at_def share_accepted_def worker_share_accepted_def mark_worker_submit_def share_rejected_def
      worker_share_rejected_def Let_def intro!: ledger_ext_enqueue intro: ledger_ext_refl split: option.splits)

lemma ledger_ext_reset: "ledger_ext ps (round_reset now ps)"
  unfolding round_reset_eq by (rule ledger_ext_enqueue) (auto simp: reset_core_def intro: ledger_ext_refl)

lemma ledger_ext_found: "ledger_ext ps (block_found now ps)"
  unfolding block_found_def by (rule ledger_ext_trans [OF ledger_ext_refl ledger_ext_reset]) simp_all

lemma ledger_ext_outcome: "ledger_ext ps (record_block_outcome oc height worker payout hash now1 now2 ps)"
proof -
  have "ledger_ext p (enroll_pending_block height hash worker payout won now p)" for won now p
    by (auto simp: enroll_pending_block_def Let_def intro!: ledger_ext_enqueue intro: ledger_ext_refl)
  moreover have "ledger_ext ps (block_inconclusive ps)" by (rule ledger_ext_refl) (simp_all add: block_inconclusive_def)
  ultimately show ?thesis unfolding record_block_outcome_def Let_def
    using ledger_ext_found ledger_ext_trans by (metis (full_types))
qed

lemma ledger_ext_resolution: "ledger_ext ps (snd (record_block_resolution b r now1 now2 ps))"
proof (cases "map_of (ps_pending_blocks ps) (pb_hash b)")
  case None
  then show ?thesis by (auto simp: record_block_resolution_def resolve_block_def intro: ledger_ext_refl)
next
  case (Some b')
  have "ledger_ext ps (block_found now1 (ps\<lparr>ps_pending_blocks := x, ps_blocks_inconclusive := y\<rparr>))" for x y
    by (rule ledger_ext_trans [OF ledger_ext_refl ledger_ext_found]) simp_all
  then show ?thesis using Some
    by (cases "pb_won_at_submit b"; cases r)
      (auto simp: record_block_resolution_def resolve_block_def Let_def intro!: ledger_ext_enqueue intro: ledger_ext_refl)
qed

lemma ledger_ext_others:
  "ledger_ext ps (record_rate_limited ps)" "ledger_ext ps (tick_hashrates_at ex now ps)" "ledger_ext ps (prune_idle_workers t ps)"
  "ledger_ext ps (miner_connected ps)" "ledger_ext ps (miner_disconnected ps)" "ledger_ext ps (mark_worker_online worker vd t ps)"
  "ledger_ext ps (mark_worker_offline worker ps)" "ledger_ext ps (update_worker_vardiff worker vd t ps)"
  "ledger_ext ps (set_worker_protocol worker protocol ps)" "ledger_ext ps (update_height height val n ps)"
  "ledger_ext ps (set_est_difficulty_change_pct pct (set_network_difficulty diff (set_network_hashrate hps ps)))"
  by (auto simp: record_rate_limited_def message_rate_limited_def tick_hashrates_at_def record_best_hashrate_def
      prune_idle_workers_def miner_connected_def miner_disconnected_def mark_worker_online_def mark_worker_offline_def
      update_worker_vardiff_def set_worker_protocol_def update_height_def set_est_difficulty_change_pct_def
      set_network_difficulty_def set_network_hashrate_def Let_def
      intro!: ledger_ext_enqueue intro: ledger_ext_refl split: option.splits)

section \<open>One column of the ledger\<close>

text \<open>What one call adds: nothing without a store or for a name that is not an authorized worker.\<close>

definition booked_call :: "(u64 \<times> u64 \<times> u64 \<Rightarrow> u64) \<Rightarrow> string \<times> string \<Rightarrow> string \<Rightarrow> u64 \<times> u64 \<times> u64 \<Rightarrow> pool_stats \<Rightarrow> nat" where
  "booked_call pick p worker amounts ps =
     (if ps_store ps \<noteq> None \<and> map_of (ps_worker_states ps) worker \<noteq> None \<and> split_worker worker = p
      then unat (pick amounts) else 0)"

text \<open>
  The three columns behave alike: a column is what it reads of a staged amount and of a ledger
  entry, and what it adds when an amount is staged.
\<close>

locale ledger_column =
  fixes stage_col :: "ledger_pending \<Rightarrow> u64" and entry_col :: "ledger_entry \<Rightarrow> u64" and pick :: "u64 \<times> u64 \<times> u64 \<Rightarrow> u64"
  assumes entry_stage: "entry_col \<lparr> le_worker = w, le_work = lp_work e, le_accepted = lp_accepted e, le_rejected = lp_rejected e \<rparr> = stage_col e"
    and stage_zero: "stage_col \<lparr> lp_work = 0, lp_accepted = 0, lp_rejected = 0 \<rparr> = 0"
    and stage_add: "stage_col \<lparr> lp_work = sat_add (lp_work e) x, lp_accepted = sat_add (lp_accepted e) y,
      lp_rejected = sat_add (lp_rejected e) z \<rparr> = sat_add (stage_col e) (pick (x, y, z))"
begin

definition staged :: "string \<times> string \<Rightarrow> (string \<times> ledger_pending) list \<Rightarrow> nat" where
  "staged p pending = sum_list (map (\<lambda>(w, e). if split_worker w = p then unat (stage_col e) else 0) pending)"

lemma staged_simps [simp]:
  "staged p [] = 0" "staged p ((w, e) # m) = (if split_worker w = p then unat (stage_col e) else 0) + staged p m"
  by (simp_all add: staged_def)

lemma staged_update:
  "staged p (AList.update w e m) + (case map_of m w of None \<Rightarrow> 0 | Some old \<Rightarrow> if split_worker w = p then unat (stage_col old) else 0)
   = staged p m + (if split_worker w = p then unat (stage_col e) else 0)"
  by (induction m) (auto split: option.splits)

lemma staged_ge: "map_of m w = Some e \<Longrightarrow> split_worker w = p \<Longrightarrow> unat (stage_col e) \<le> staged p m"
  by (induction m) (auto split: if_splits)

definition pending_total :: "string \<times> string \<Rightarrow> pool_stats \<Rightarrow> nat" where
  "pending_total p ps = staged p (la_pending (ps_ledger ps))"

definition handed :: "string \<times> string \<Rightarrow> pool_stats \<Rightarrow> nat" where
  "handed p ps = (case ps_store ps of None \<Rightarrow> 0 | Some q \<Rightarrow> writes_total entry_col q p)"

lemma no_ledger_total: "list_all (\<lambda>w. \<not> is_ledger w) ws \<Longrightarrow> writes_total entry_col ws p = 0"
proof (induction ws)
  case (Cons w ws)
  then show ?case by (cases w) auto
qed simp

lemma ext_total: "ledger_ext ps ps' \<Longrightarrow> handed p ps' + pending_total p ps' = handed p ps + pending_total p ps"
  by (auto simp: ledger_ext_def handed_def pending_total_def no_ledger_total split: option.splits)

lemma take_open_total:
  assumes "take_open a = (ended, a')"
  shows "staged p (la_pending a') + (case ended of None \<Rightarrow> 0 | Some (ts, es) \<Rightarrow> entries_total entry_col es p)
     = staged p (la_pending a)"
proof -
  have "entries_total entry_col (map (\<lambda>(worker, amounts). \<lparr> le_worker = worker, le_work = lp_work amounts,
      le_accepted = lp_accepted amounts, le_rejected = lp_rejected amounts \<rparr>) m) p = staged p m" for m
    by (induction m) (auto simp: entries_total_def entry_stage)
  then show ?thesis using assms by (auto simp: take_open_def split: if_splits)
qed

lemma persist_total:
  assumes "ps_store ps = Some q"
  shows "handed p (persist_ledger_minute ended (ps\<lparr>ps_ledger := a\<rparr>)) =
      writes_total entry_col q p + (case ended of None \<Rightarrow> 0 | Some (ts, es) \<Rightarrow> entries_total entry_col es p)"
    "pending_total p (persist_ledger_minute ended (ps\<lparr>ps_ledger := a\<rparr>)) = staged p (la_pending a)"
  using assms by (auto simp: persist_ledger_minute_def handed_def pending_total_def enqueue_def split: option.splits)

lemma roll_to_total:
  assumes "roll_to a now = (ended, a')"
  shows "staged p (la_pending a') + (case ended of None \<Rightarrow> 0 | Some (ts, es) \<Rightarrow> entries_total entry_col es p)
     = staged p (la_pending a)"
  using assms take_open_total [of a, where p = p] by (auto simp: roll_to_def Let_def split: if_splits prod.splits)

lemma flush_total:
  "handed p (flush_ledger_at now ps) + pending_total p (flush_ledger_at now ps) = handed p ps + pending_total p ps"
proof (cases "ps_store ps")
  case (Some q)
  obtain ended a where r: "roll_to (ps_ledger ps) now = (ended, a)" by (metis surj_pair)
  show ?thesis using persist_total [OF Some, of p ended a] roll_to_total [OF r, of p] Some r
    by (simp add: flush_ledger_at_def handed_def [where ps = ps] pending_total_def [where ps = ps])
qed (simp add: flush_ledger_at_def)

lemma flush_partial_total:
  assumes "ps_store ps = Some q"
  shows "handed p (flush_ledger_partial ps) = handed p ps + pending_total p ps" "pending_total p (flush_ledger_partial ps) = 0"
proof -
  obtain ended a where r: "take_open (ps_ledger ps) = (ended, a)" by (metis surj_pair)
  then have e: "la_pending a = []" by (auto simp: take_open_def split: if_splits)
  show "handed p (flush_ledger_partial ps) = handed p ps + pending_total p ps" "pending_total p (flush_ledger_partial ps) = 0"
    using persist_total [OF assms, of p ended a] take_open_total [OF r, of p] assms r e
    by (simp_all add: flush_ledger_partial_def handed_def [where ps = ps] pending_total_def [where ps = ps])
qed

lemma add_pending_total:
  assumes "staged p (la_pending a) + unat (pick (x, y, z)) < 2 ^ 64 \<or> split_worker worker \<noteq> p"
  shows "staged p (la_pending (add_pending worker x y z a)) =
      staged p (la_pending a) + (if split_worker worker = p then unat (pick (x, y, z)) else 0)"
proof (cases "map_of (la_pending a) worker")
  case None
  have "sat_add 0 v = v" for v :: u64 using unat_lt [of v] by (simp add: sat_add_def)
  then have "stage_col \<lparr> lp_work = sat_add 0 x, lp_accepted = sat_add 0 y, lp_rejected = sat_add 0 z \<rparr> = pick (x, y, z)"
    using stage_add [of "\<lparr> lp_work = 0, lp_accepted = 0, lp_rejected = 0 \<rparr>" x y z] stage_zero by simp
  then show ?thesis using None staged_update [of p worker _ "la_pending a"] by (simp add: add_pending_def)
next
  case (Some e)
  have "unat (sat_add (stage_col e) (pick (x, y, z))) = unat (stage_col e) + unat (pick (x, y, z))" if "split_worker worker = p"
    using staged_ge [OF Some that] assms that by (simp add: unat_sat_add)
  then show ?thesis
    using Some staged_update [of p worker "\<lparr> lp_work = sat_add (lp_work e) x, lp_accepted = sat_add (lp_accepted e) y,
        lp_rejected = sat_add (lp_rejected e) z \<rparr>" "la_pending a"] staged_ge [OF Some, of p]
    by (auto simp: add_pending_def stage_add split: if_splits)
qed

lemma record_ledger_total:
  assumes "handed p ps + pending_total p ps + booked_call pick p worker (x, y, z) ps < 2 ^ 64"
  shows "handed p (record_ledger worker x y z now ps) + pending_total p (record_ledger worker x y z now ps)
     = handed p ps + pending_total p ps + booked_call pick p worker (x, y, z) ps"
proof (cases "ps_store ps = None \<or> map_of (ps_worker_states ps) worker = None")
  case False
  then obtain q where q: "ps_store ps = Some q" by auto
  obtain ended a where r: "roll_to (ps_ledger ps) now = (ended, a)" by (metis surj_pair)
  have "staged p (la_pending a) \<le> pending_total p ps" using roll_to_total [OF r, of p] by (simp add: pending_total_def)
  then have "staged p (la_pending (add_pending worker x y z a)) =
      staged p (la_pending a) + (if split_worker worker = p then unat (pick (x, y, z)) else 0)"
    using assms False by (intro add_pending_total) (auto simp: booked_call_def)
  then show ?thesis
    using persist_total [OF q, of p ended "add_pending worker x y z a"] roll_to_total [OF r, of p] q r False
    by (auto simp: record_ledger_def booked_call_def handed_def [where ps = ps] pending_total_def [where ps = ps])
qed (auto simp: record_ledger_def booked_call_def)

end

section \<open>Runs\<close>

text \<open>What an event books in a column, and a run of events.\<close>

fun booked_event :: "(u64 \<times> u64 \<times> u64 \<Rightarrow> u64) \<Rightarrow> string \<times> string \<Rightarrow> stats_event \<Rightarrow> pool_stats \<Rightarrow> nat" where
  "booked_event pick p (EAccept sid worker credit hash_diff inst now1 now2) ps = booked_call pick p worker (credit, 1, 0) ps"
| "booked_event pick p (EReject worker reason now guard) ps = booked_call pick p worker (0, 0, 1) ps"
| "booked_event pick p e ps = 0"

fun booked :: "(f64 \<Rightarrow> f64) \<Rightarrow> (u64 \<times> u64 \<times> u64 \<Rightarrow> u64) \<Rightarrow> string \<times> string \<Rightarrow> stats_event list \<Rightarrow> pool_stats \<Rightarrow> nat" where
  "booked ex pick p [] ps = 0"
| "booked ex pick p (e # es) ps = booked_event pick p e ps + booked ex pick p es (stats_event_step ex e ps)"

definition stats_events :: "(f64 \<Rightarrow> f64) \<Rightarrow> stats_event list \<Rightarrow> pool_stats \<Rightarrow> pool_stats" where
  "stats_events ex es ps = foldl (\<lambda>ps e. stats_event_step ex e ps) ps es"

lemma workers_known:
  "(map_of (ps_worker_states (with_worker w f ps)) x = None) = (map_of (ps_worker_states ps) x = None)"
  by (auto simp: with_worker_def AList.update_conv' split: option.splits)

lemma accept_known:
  "(map_of (ps_worker_states (mark_worker_submit worker now (worker_share_accepted worker hash_diff
     (share_accepted credit hash_diff (add_share_diff_at sid worker diff inst ps))))) x = None) = (map_of (ps_worker_states ps) x = None)"
  by (simp add: mark_worker_submit_def workers_known worker_share_accepted_def Let_def enqueue_def share_accepted_def
      add_share_diff_at_def split: option.splits)

lemma booked_call_same:
  assumes "\<And>x. (map_of (ps_worker_states ps') x = None) = (map_of (ps_worker_states ps) x = None)"
    and "(ps_store ps' = None) = (ps_store ps = None)"
  shows "booked_call pick p worker amounts ps' = booked_call pick p worker amounts ps"
  using assms by (auto simp: booked_call_def)

lemma ledger_ext_store: "ledger_ext ps ps' \<Longrightarrow> (ps_store ps' = None) = (ps_store ps = None)"
  by (auto simp: ledger_ext_def)

context ledger_column
begin

lemma accept_total:
  assumes "handed p ps + pending_total p ps + booked_event pick p (EAccept sid worker credit hash_diff inst now1 now2) ps < 2 ^ 64"
  defines "ps' \<equiv> record_accepted sid worker credit hash_diff inst now1 now2 ps"
  shows "handed p ps' + pending_total p ps' =
    handed p ps + pending_total p ps + booked_event pick p (EAccept sid worker credit hash_diff inst now1 now2) ps"
proof -
  define ps1 where "ps1 = mark_worker_submit worker now1 (worker_share_accepted worker hash_diff
    (share_accepted credit hash_diff (add_share_diff_at sid worker (f64_of_word credit) inst ps)))"
  have e: "ledger_ext ps ps1" unfolding ps1_def by (meson ledger_ext_shares ledger_ext_trans)
  have k: "(map_of (ps_worker_states ps1) x = None) = (map_of (ps_worker_states ps) x = None)" for x
    unfolding ps1_def by (rule accept_known)
  have "booked_call pick p worker (credit, 1, 0) ps1 = booked_call pick p worker (credit, 1, 0) ps"
    by (rule booked_call_same [OF k ledger_ext_store [OF e]])
  then show ?thesis
    using record_ledger_total [of p ps1 worker credit 1 0 now2] ext_total [OF e, of p] assms(1)
    by (simp add: ps'_def record_accepted_def Let_def ps1_def [symmetric] ledger_share_accepted_def)
qed

lemma reject_total:
  assumes "handed p ps + pending_total p ps + booked_event pick p (EReject worker reason now guard) ps < 2 ^ 64"
  defines "ps' \<equiv> snd (snd (record_rejected worker reason now guard ps))"
  shows "handed p ps' + pending_total p ps' = handed p ps + pending_total p ps + booked_event pick p (EReject worker reason now guard) ps"
proof -
  define ps1 where "ps1 = worker_share_rejected worker (reject_label reason) (share_rejected (reject_label reason) ps)"
  have e: "ledger_ext ps ps1" unfolding ps1_def by (meson ledger_ext_shares ledger_ext_trans)
  have k: "(map_of (ps_worker_states ps1) x = None) = (map_of (ps_worker_states ps) x = None)" for x
    by (simp add: ps1_def worker_share_rejected_def workers_known share_rejected_def)
  have "booked_call pick p worker (0, 0, 1) ps1 = booked_call pick p worker (0, 0, 1) ps"
    by (rule booked_call_same [OF k ledger_ext_store [OF e]])
  moreover have "ps' = ledger_share_rejected worker now ps1"
    by (simp add: ps'_def record_rejected_def Let_def ps1_def split: prod.splits)
  ultimately show ?thesis
    using record_ledger_total [of p ps1 worker 0 0 1 now] ext_total [OF e, of p] assms(1)
    by (simp add: ledger_share_rejected_def)
qed

lemma snapshot_total:
  "handed p (record_hashrate_snapshot_at now ps) + pending_total p (record_hashrate_snapshot_at now ps) = handed p ps + pending_total p ps"
proof -
  have "ledger_ext (flush_ledger_at now ps) (record_hashrate_snapshot_at now ps)"
    by (auto simp: snapshot_eq Let_def intro!: ledger_ext_enqueue intro: ledger_ext_refl)
  from ext_total [OF this] flush_total show ?thesis by simp
qed

lemma event_total:
  assumes "handed p ps + pending_total p ps + booked_event pick p e ps < 2 ^ 64"
  shows "handed p (stats_event_step ex e ps) + pending_total p (stats_event_step ex e ps)
    = handed p ps + pending_total p ps + booked_event pick p e ps"
proof (cases e)
  case EAccept
  then show ?thesis using accept_total assms by simp
next
  case EReject
  then show ?thesis using reject_total assms by simp
next
  case ESnapshot
  then show ?thesis using snapshot_total by simp
qed (simp_all add: ext_total ledger_ext_outcome ledger_ext_resolution ledger_ext_others)

lemma run_total:
  assumes "handed p ps + pending_total p ps + booked ex pick p es ps < 2 ^ 64"
  shows "handed p (stats_events ex es ps) + pending_total p (stats_events ex es ps)
    = handed p ps + pending_total p ps + booked ex pick p es ps"
  using assms
proof (induction es arbitrary: ps)
  case (Cons e es)
  then show ?case using event_total [of p ps e ex] Cons.IH [of "stats_event_step ex e ps"] by (simp add: stats_events_def)
qed (simp add: stats_events_def)

lemma shutdown_total:
  assumes "ps_store (shutdown_persist now ps) = Some q"
  shows "writes_total entry_col q p = handed p ps + pending_total p ps"
proof -
  let ?s = "record_hashrate_snapshot_at now ps"
  obtain r where r: "ps_store (flush_ledger_partial ?s) = Some r" "q = r @ [Flush]"
    using assms by (auto simp: shutdown_persist_def enqueue_def)
  then obtain u where "ps_store ?s = Some u" by (cases "ps_store ?s") (auto simp: flush_ledger_partial_def)
  from flush_partial_total(1) [OF this, of p] snapshot_total [of p now ps] r show ?thesis by (simp add: handed_def [where ps = "flush_ledger_partial ?s"])
qed

lemma end_to_end:
  assumes "ps_store ps0 = Some []" "la_pending (ps_ledger ps0) = []" "booked ex pick p es ps0 < 2 ^ 64"
    and "ps_store (shutdown_persist now (stats_events ex es ps0)) = Some q"
  shows "writes_total entry_col q p = booked ex pick p es ps0"
proof -
  have "handed p ps0 = 0" "pending_total p ps0 = 0" using assms(1,2) by (simp_all add: handed_def pending_total_def)
  then show ?thesis using run_total [of p ps0 ex es] assms(3) shutdown_total [OF assms(4), of p] by simp
qed

end

definition pick_work :: "u64 \<times> u64 \<times> u64 \<Rightarrow> u64" where "pick_work a = fst a"
definition pick_accepted :: "u64 \<times> u64 \<times> u64 \<Rightarrow> u64" where "pick_accepted a = fst (snd a)"
definition pick_rejected :: "u64 \<times> u64 \<times> u64 \<Rightarrow> u64" where "pick_rejected a = snd (snd a)"

interpretation work_col: ledger_column lp_work le_work pick_work
  by unfold_locales (simp_all add: pick_work_def)

interpretation accepted_col: ledger_column lp_accepted le_accepted pick_accepted
  by unfold_locales (simp_all add: pick_accepted_def)

interpretation rejected_col: ledger_column lp_rejected le_rejected pick_rejected
  by unfold_locales (simp_all add: pick_rejected_def)

lemma boot_ledger:
  "open_recording ex pw (\<lambda>_. False) f wall inst = Some (ps, d) \<Longrightarrow> ps_ledger ps = \<lparr> la_minute_ts = minute_of wall, la_pending = [] \<rparr>"
  "open_recording ex pw (\<lambda>_. False) f wall inst = Some (ps, d) \<Longrightarrow> ps_worker_states ps = []"
  by (auto simp: open_recording_def persisted_load_def from_persisted_def Let_def split: prod.splits)

text \<open>
  C3: Every share of an authorized worker is booked once.  Boot the pool, let any events happen and
  shut down, and let the writer take the queue with whatever disk failures: for every worker
  the ledger on disk, with what is still parked and what a full backlog dropped, has grown by
  exactly the credited work of the accepted shares, their number, and the number of rejected
  shares that were recorded under that worker while it was known.
\<close>

theorem shares_booked_once:
  assumes "open_recording ex pw (\<lambda>_. False) f wall inst = Some (ps0, d)"
    and "booked ex pick_work p es ps0 < 2 ^ 64" "booked ex pick_accepted p es ps0 < 2 ^ 64" "booked ex pick_rejected p es ps0 < 2 ^ 64"
    and "ps_store (shutdown_persist now (stats_events ex es ps0)) = Some (input_writes inputs)"
    and "db_ok d" "finite N" "card N \<le> MAX_LEDGER_WORKERS" "set (pairs d) \<subseteq> N"
    and "\<Union> (write_names ` set (input_writes inputs)) \<subseteq> N" "writer_loop d inputs final = (d', st', parked)"
  defines "lost \<equiv> all_dropped (d, writer_init, []) inputs"
  shows "worker_total lr_work d' p + writes_total le_work parked p + writes_total le_work lost p
       = worker_total lr_work d p + booked ex pick_work p es ps0
    \<and> worker_total lr_accepted d' p + writes_total le_accepted parked p + writes_total le_accepted lost p
       = worker_total lr_accepted d p + booked ex pick_accepted p es ps0
    \<and> worker_total lr_rejected d' p + writes_total le_rejected parked p + writes_total le_rejected lost p
       = worker_total lr_rejected d p + booked ex pick_rejected p es ps0"
proof -
  have boot: "ps_store ps0 = Some []" "la_pending (ps_ledger ps0) = []" using boot_eq [OF assms(1)] boot_ledger(1) [OF assms(1)] by auto
  show ?thesis
    using ledger_exact_column [OF sel_ok_columns(1) assms(6-11)] ledger_exact_column [OF sel_ok_columns(2) assms(6-11)]
      ledger_exact_column [OF sel_ok_columns(3) assms(6-11)] work_col.end_to_end [OF boot assms(2,5)]
      accepted_col.end_to_end [OF boot assms(3,5)] rejected_col.end_to_end [OF boot assms(4,5)]
    by (simp add: lost_def)
qed

definition share_events :: "stats_event list" where
  "share_events = [EOnline ''addr.rig'' 1 100, EAccept ''s1'' ''addr.rig'' 500 700 0 100 100]"

lemma minute_100: "minute_of 100 = 60"
  by (simp add: minute_of_def)

lemma sample_queue:
  assumes "open_recording exp_sample powf_sample (\<lambda>_. False) empty_db 100 0 = Some (ps0, d)"
  shows "\<exists>q. ps_store (shutdown_persist 100 (stats_events exp_sample share_events ps0)) = Some q
     \<and> \<Union> (write_names ` set q) \<subseteq> {(''addr'', ''rig'')} \<and> booked exp_sample pick_work (''addr'', ''rig'') share_events ps0 = 500"
proof -
  note b = boot_eq [OF assms] boot_ledger [OF assms]
  define ps1 where "ps1 = mark_worker_online ''addr.rig'' 1 100 ps0"
  have p1: "map_of (ps_worker_states ps1) ''addr.rig'' \<noteq> None" "ps_store ps1 = Some []" "ps_ledger ps1 = \<lparr> la_minute_ts = 60, la_pending = [] \<rparr>"
    using b by (auto simp: ps1_def mark_worker_online_def minute_100)
  define ps2 where "ps2 = mark_worker_submit ''addr.rig'' 100 (worker_share_accepted ''addr.rig'' 700
    (share_accepted 500 700 (add_share_diff_at ''s1'' ''addr.rig'' (f64_of_word (500 :: u64)) 0 ps1)))"
  have e: "ledger_ext ps1 ps2" unfolding ps2_def by (meson ledger_ext_shares ledger_ext_trans)
  then obtain ws where ws: "list_all (\<lambda>w. \<not> is_ledger w) ws" "ps_store ps2 = Some ws" "ps_ledger ps2 = \<lparr> la_minute_ts = 60, la_pending = [] \<rparr>"
    using p1 by (auto simp: ledger_ext_def)
  have k: "map_of (ps_worker_states ps2) ''addr.rig'' \<noteq> None"
    using p1(1) unfolding ps2_def accept_known .
  let ?pending = "[(''addr.rig'', \<lparr> lp_work = 500, lp_accepted = 1, lp_rejected = 0 \<rparr>)]"
  have run: "stats_events exp_sample share_events ps0 = ps2\<lparr>ps_ledger := \<lparr> la_minute_ts = 60, la_pending = ?pending \<rparr>\<rparr>"
    using ws k
    by (simp add: stats_events_def share_events_def record_accepted_def Let_def ps1_def [symmetric] ps2_def [symmetric]
        ledger_share_accepted_def record_ledger_def roll_to_def minute_100 persist_ledger_minute_def add_pending_def sat_add_def)
  let ?x = "snapshot_of 100 (ps2\<lparr>ps_ledger := \<lparr> la_minute_ts = 60, la_pending = ?pending \<rparr>\<rparr>)"
  let ?entry = "\<lparr> le_worker = ''addr.rig'', le_work = 500, le_accepted = 1, le_rejected = 0 \<rparr>"
  have "ps_store (shutdown_persist 100 (stats_events exp_sample share_events ps0)) = Some (ws @ [Snapshot ?x, Ledger 60 [?entry], Flush])"
    using ws by (simp add: run shutdown_persist_def snapshot_eq flush_ledger_at_def roll_to_def minute_100 persist_ledger_minute_def
        Let_def enqueue_def flush_ledger_partial_def take_open_def)
  moreover have "write_names w = {}" if "\<not> is_ledger w" for w using that by (cases w) auto
  then have "\<Union> (write_names ` set ws) = {}" using ws(1) by (auto simp: list_all_iff)
  moreover have "booked exp_sample pick_work (''addr'', ''rig'') share_events ps0 = 500"
    using p1 by (simp add: share_events_def ps1_def [symmetric] booked_call_def split_sample pick_work_def)
  ultimately show ?thesis by (auto simp: split_sample)
qed

theorem shares_booked_once_witness:
  "\<exists>ps0 inputs d' st' parked.
     ps_store (shutdown_persist 100 (stats_events exp_sample share_events ps0)) = Some (input_writes inputs)
     \<and> writer_loop (open_db empty_db) inputs (\<lambda>_. (False, False)) = (d', st', parked)
     \<and> worker_total lr_work d' (''addr'', ''rig'') + writes_total le_work parked (''addr'', ''rig'')
       + writes_total le_work (all_dropped (open_db empty_db, writer_init, []) inputs) (''addr'', ''rig'') = 500"
proof -
  obtain ps0 d where b: "open_recording exp_sample powf_sample (\<lambda>_. False) empty_db 100 0 = Some (ps0, d)" using boot_total by blast
  obtain q where q: "ps_store (shutdown_persist 100 (stats_events exp_sample share_events ps0)) = Some q"
    "\<Union> (write_names ` set q) \<subseteq> {(''addr'', ''rig'')}" "booked exp_sample pick_work (''addr'', ''rig'') share_events ps0 = 500"
    using sample_queue [OF b] by blast
  have small: "booked exp_sample pick_accepted (''addr'', ''rig'') share_events ps0 < 2 ^ 64"
    "booked exp_sample pick_rejected (''addr'', ''rig'') share_events ps0 < 2 ^ 64"
    by (simp_all add: share_events_def booked_call_def pick_accepted_def pick_rejected_def)
  have w: "input_writes (map healthy q) = q" by (induction q) (simp_all add: input_writes_def healthy_def List.map_filter_def)
  have d: "d = open_db empty_db" "open_db empty_db = empty_db"
    using boot_eq [OF b] by (auto simp: open_db_def reconcile_eq prune_worker_rows_def empty_db_def wins_of_def)
  have ok: "db_ok d" "pairs d = []" "worker_total lr_work d (''addr'', ''rig'') = 0"
    unfolding d by (simp_all add: db_ok_def owned_def pairs_def worker_total_def empty_db_def)
  obtain d' st' parked where l: "writer_loop d (map healthy q) (\<lambda>_. (False, False)) = (d', st', parked)" by (metis prod_cases3)
  from shares_booked_once [OF b _ small _ ok(1), of 100 "map healthy q" "{(''addr'', ''rig'')}" "\<lambda>_. (False, False)" d' st' parked] q w ok l
  show ?thesis using q(1) w l d(1)
    by (intro exI [of _ ps0] exI [of _ "map healthy q"] exI [of _ d'] exI [of _ st'] exI [of _ parked]) (simp add: MAX_LEDGER_WORKERS_def)
qed

end
