(* ===== verification/Wellformed.thy ===== *)
theory Wellformed
  imports Staging
begin

text \<open>
  What holds of the statistics after any sequence of operations, and what the pruner keeps.
\<close>

declare of_nat_unat [simp del]

section \<open>Association lists\<close>

lemma list_all_update: "list_all P m \<Longrightarrow> P (k, v) \<Longrightarrow> list_all P (AList.update k v m)"
  by (induction m) auto

lemma sum_count_add: "sum_list (map snd (count_add k n m)) = sum_list (map snd m) + n"
  unfolding count_add_def by (induction m) (auto simp: algebra_simps)

lemma fst_map_snd [simp]: "fst \<circ> (\<lambda>(a, b). (a, f b)) = fst"
  by auto

lemma distinct_count_add: "distinct (map fst m) \<Longrightarrow> distinct (map fst (count_add k n m))"
  by (simp add: count_add_def distinct_update)

lemma minute_of_idem [simp]: "minute_of (minute_of now) = minute_of now"
proof -
  have "unat (minute_of n) = unat n div 60 * 60" for n
  proof -
    have "unat n div 60 * 60 \<le> unat n" by (rule div_times_less_eq_dividend)
    then have "unat (n div 60) * 60 < 2 ^ 64" using unat_lt [of n] by (simp add: unat_div_distrib)
    moreover have "unat (n div 60) = unat n div 60" by (simp add: unat_div_distrib)
    ultimately show ?thesis unfolding minute_of_def unat_word_ariths by simp
  qed
  then have "unat (minute_of (minute_of now)) = unat (minute_of now)" by simp
  then show ?thesis by (rule word_unat_eq_iff [THEN iffD2])
qed

section \<open>The invariant\<close>

definition worker_ok :: "string \<times> worker_state \<Rightarrow> bool" where
  "worker_ok e \<longleftrightarrow> wk_worker (snd e) = fst e \<and> (wk_online (snd e) \<longleftrightarrow> wk_active_sessions (snd e) \<noteq> 0)
     \<and> wk_shares_rejected (snd e) = sum_list (map snd (wk_reject_reasons (snd e)))
     \<and> wk_shares_stale (snd e) = count_of (wk_reject_reasons (snd e)) ''stale''"

definition stats_wf :: "pool_stats \<Rightarrow> bool" where
  "stats_wf ps \<longleftrightarrow> list_all worker_ok (ps_worker_states ps) \<and> distinct (map fst (ps_worker_states ps))
     \<and> ps_shares_rejected ps = sum_list (map snd (ps_reject_reasons ps)) \<and> distinct (map fst (ps_reject_reasons ps))
     \<and> distinct (map fst (ps_session_hashrates ps)) \<and> distinct (map fst (ps_worker_best_shares ps))
     \<and> distinct (map fst (ps_pending_blocks ps)) \<and> list_all (\<lambda>(h, b). pb_hash b = h) (ps_pending_blocks ps)
     \<and> minute_of (la_minute_ts (ps_ledger ps)) = la_minute_ts (ps_ledger ps) \<and> distinct (map fst (la_pending (ps_ledger ps)))"

named_theorems wf_intros

lemma wf_enqueue [simp]: "stats_wf (enqueue w ps) = stats_wf ps"
  by (simp add: stats_wf_def enqueue_def)

lemma wf_with_worker:
  assumes "stats_wf ps" "\<And>s. worker_ok (w, s) \<Longrightarrow> worker_ok (w, f s)"
  shows "stats_wf (with_worker w f ps)"
proof (cases "map_of (ps_worker_states ps) w")
  case (Some s)
  then have "worker_ok (w, s)" using assms(1) map_of_SomeD [OF Some] by (auto simp: stats_wf_def list_all_iff)
  then show ?thesis using assms Some by (simp add: with_worker_def stats_wf_def list_all_update distinct_update)
qed (simp add: with_worker_def assms(1))

lemma wf_ledger:
  assumes "minute_of (la_minute_ts a) = la_minute_ts a" "distinct (map fst (la_pending a))"
  shows "roll_to a now = (ended, a') \<Longrightarrow> minute_of (la_minute_ts a') = la_minute_ts a' \<and> distinct (map fst (la_pending a'))"
    "take_open a = (ended, a') \<Longrightarrow> minute_of (la_minute_ts a') = la_minute_ts a' \<and> distinct (map fst (la_pending a'))"
    "minute_of (la_minute_ts (add_pending w x y z a)) = la_minute_ts (add_pending w x y z a)
     \<and> distinct (map fst (la_pending (add_pending w x y z a)))"
  using assms by (auto simp: roll_to_def take_open_def add_pending_def Let_def distinct_update split: if_splits prod.splits)

lemma wf_record_ledger [wf_intros]:
  assumes "stats_wf ps"
  shows "stats_wf (record_ledger worker x y z now ps)"
proof -
  obtain ended a where r: "roll_to (ps_ledger ps) now = (ended, a)" by (metis surj_pair)
  have "minute_of (la_minute_ts a) = la_minute_ts a \<and> distinct (map fst (la_pending a))"
    using wf_ledger(1) [OF _ _ r] assms by (simp add: stats_wf_def)
  then have "stats_wf (ps\<lparr>ps_ledger := add_pending worker x y z a\<rparr>)" using assms wf_ledger(3) [of a] by (simp add: stats_wf_def)
  then show ?thesis using assms r by (simp add: record_ledger_def persist_ledger_minute_def split: option.splits)
qed

lemma wf_flush [wf_intros]:
  assumes "stats_wf ps"
  shows "stats_wf (flush_ledger_at now ps)" "stats_wf (flush_ledger_partial ps)"
proof -
  obtain ended a b c where r: "roll_to (ps_ledger ps) now = (ended, a)" "take_open (ps_ledger ps) = (b, c)" by (metis surj_pair)
  have "stats_wf (ps\<lparr>ps_ledger := a\<rparr>)" "stats_wf (ps\<lparr>ps_ledger := c\<rparr>)"
    using wf_ledger(1) [OF _ _ r(1)] wf_ledger(2) [OF _ _ r(2)] assms by (simp_all add: stats_wf_def)
  then show "stats_wf (flush_ledger_at now ps)" "stats_wf (flush_ledger_partial ps)"
    using assms r by (simp_all add: flush_ledger_at_def flush_ledger_partial_def persist_ledger_minute_def split: option.splits)
qed

lemma wf_snapshot [wf_intros]: "stats_wf ps \<Longrightarrow> stats_wf (record_hashrate_snapshot_at now ps)"
  by (simp add: snapshot_eq Let_def wf_flush)

lemma wf_add_share_diff [wf_intros]: "stats_wf ps \<Longrightarrow> stats_wf (add_share_diff_at sid worker diff now ps)"
  by (simp add: add_share_diff_at_def stats_wf_def distinct_update split: option.splits)

lemma wf_share_accepted [wf_intros]: "stats_wf ps \<Longrightarrow> stats_wf (share_accepted credit hash_diff ps)"
  by (simp add: share_accepted_def Let_def) (simp add: stats_wf_def)

lemma wf_share_rejected [wf_intros]: "stats_wf ps \<Longrightarrow> stats_wf (share_rejected lbl ps)"
  by (simp add: share_rejected_def stats_wf_def sum_count_add distinct_count_add)

lemma wf_mark_submit [wf_intros]: "stats_wf ps \<Longrightarrow> stats_wf (mark_worker_submit worker now ps)"
  unfolding mark_worker_submit_def by (rule wf_with_worker) (simp_all add: stats_wf_def worker_ok_def)

lemma wf_worker_share_accepted [wf_intros]:
  assumes "stats_wf ps"
  shows "stats_wf (worker_share_accepted worker diff ps)"
proof -
  have "stats_wf (with_worker worker (\<lambda>s. s\<lparr>wk_shares_accepted := wk_shares_accepted s + 1,
      wk_best_share_difficulty := max (wk_best_share_difficulty s) diff\<rparr>) ps)"
    by (rule wf_with_worker [OF assms]) (simp add: worker_ok_def)
  then show ?thesis by (simp add: worker_share_accepted_def Let_def) (simp add: stats_wf_def distinct_update)
qed

lemma wf_worker_share_rejected [wf_intros]: "stats_wf ps \<Longrightarrow> stats_wf (worker_share_rejected worker lbl ps)"
  unfolding worker_share_rejected_def by (rule wf_with_worker) (auto simp: worker_ok_def sum_count_add count_of_add)

lemma wf_round_reset [wf_intros]:
  assumes "stats_wf ps"
  shows "stats_wf (round_reset now ps)"
proof -
  have "list_all worker_ok (map (\<lambda>(w, s). (w, s\<lparr>wk_best_share_difficulty := 0\<rparr>)) m) = list_all worker_ok m" for m :: "(string \<times> worker_state) list"
    by (induction m) (auto simp: worker_ok_def)
  then show ?thesis using assms by (simp add: round_reset_eq) (simp add: reset_core_def stats_wf_def)
qed

lemma wf_block_found [wf_intros]: "stats_wf ps \<Longrightarrow> stats_wf (block_found now ps)"
  unfolding block_found_def by (rule wf_round_reset) (simp add: stats_wf_def)

lemma wf_enroll [wf_intros]:
  assumes "stats_wf ps"
  shows "stats_wf (enroll_pending_block height hash worker payout won now ps)"
  using assms by (auto simp: enroll_pending_block_def Let_def stats_wf_def enqueue_def map_of_eq_None_iff)

lemma wf_outcome [wf_intros]: "stats_wf ps \<Longrightarrow> stats_wf (record_block_outcome oc height worker payout hash now1 now2 ps)"
  by (auto simp: record_block_outcome_def Let_def block_inconclusive_def intro!: wf_intros) (simp add: stats_wf_def)

lemma wf_resolution [wf_intros]:
  assumes "stats_wf ps"
  shows "stats_wf (snd (record_block_resolution b r now1 now2 ps))"
proof -
  have d: "list_all P m \<Longrightarrow> list_all P (AList.delete k m)" for P k and m :: "(string \<times> pending_block) list"
    by (induction m) auto
  have "stats_wf (ps\<lparr>ps_pending_blocks := AList.delete (pb_hash b) (ps_pending_blocks ps), ps_blocks_inconclusive := x\<rparr>)" for x
    using assms by (simp add: stats_wf_def d distinct_delete)
  then show ?thesis using assms
    by (cases "pb_won_at_submit b"; cases r)
      (auto simp: record_block_resolution_def resolve_block_def Let_def intro!: wf_intros, auto simp: stats_wf_def d distinct_delete)
qed

lemma wf_tick [wf_intros]:
  assumes "stats_wf ps"
  shows "stats_wf (tick_hashrates_at ex now ps)"
proof -
  have "distinct (map fst (filter P (map (\<lambda>(sid, e). (sid, e\<lparr>sh_decay := tick ex (sh_decay e) now\<rparr>)) (ps_session_hashrates ps))))" for P
    using assms by (intro distinct_map_filter) (simp add: stats_wf_def)
  then show ?thesis using assms
    by (auto simp: tick_hashrates_at_def record_best_hashrate_def Let_def stats_wf_def enqueue_def)
qed

lemma wf_prune [wf_intros]: "stats_wf ps \<Longrightarrow> stats_wf (prune_idle_workers now ps)"
  by (auto simp: prune_idle_workers_def Let_def stats_wf_def enqueue_def list_all_iff intro!: distinct_map_filter)

lemma wf_online [wf_intros]:
  assumes "stats_wf ps"
  shows "stats_wf (mark_worker_online worker vd now ps)"
proof (cases "map_of (ps_worker_states ps) worker")
  case (Some s)
  have "worker_ok (worker, s)" using assms map_of_SomeD [OF Some] by (auto simp: stats_wf_def list_all_iff)
  moreover have "sat_add x 1 \<noteq> (0 :: u64)" for x
  proof
    assume "sat_add x 1 = 0"
    then have "unat (sat_add x 1) = 0" by simp
    then show False by (simp add: unat_sat_add)
  qed
  ultimately have "worker_ok (worker, s\<lparr>wk_online := True, wk_current_vardiff := vd, wk_connected_ts := now,
      wk_active_sessions := sat_add (wk_active_sessions s) 1\<rparr>)" by (simp add: worker_ok_def)
  then show ?thesis using assms Some by (simp add: mark_worker_online_def stats_wf_def list_all_update distinct_update)
next
  case None
  then show ?thesis using assms
    by (simp add: mark_worker_online_def stats_wf_def list_all_update distinct_update worker_ok_def count_of_def)
qed

lemma wf_offline [wf_intros]: "stats_wf ps \<Longrightarrow> stats_wf (mark_worker_offline worker ps)"
  unfolding mark_worker_offline_def
proof (rule wf_with_worker)
  fix s assume "worker_ok (worker, s)"
  moreover have "1 < x \<Longrightarrow> x - 1 \<noteq> 0" for x :: u64 by auto
  ultimately show "worker_ok (worker, if 1 < wk_active_sessions s then s\<lparr>wk_active_sessions := wk_active_sessions s - 1\<rparr>
      else s\<lparr>wk_active_sessions := 0, wk_online := False\<rparr>)" by (auto simp: worker_ok_def)
qed

lemma wf_vardiff [wf_intros]: "stats_wf ps \<Longrightarrow> stats_wf (update_worker_vardiff worker vd now ps)"
  by (auto simp: update_worker_vardiff_def worker_ok_def intro!: wf_with_worker wf_online)

lemma wf_protocol [wf_intros]: "stats_wf ps \<Longrightarrow> stats_wf (set_worker_protocol worker protocol ps)"
  unfolding set_worker_protocol_def by (rule wf_with_worker) (simp_all add: stats_wf_def worker_ok_def)

lemma wf_step: "stats_wf ps \<Longrightarrow> stats_wf (stats_event_step ex e ps)"
proof (cases e)
  case EAccept
  assume "stats_wf ps"
  then show ?thesis using EAccept by (auto simp: record_accepted_def Let_def ledger_share_accepted_def intro!: wf_intros)
next
  case EReject
  assume "stats_wf ps"
  then show ?thesis using EReject
    by (auto simp: record_rejected_def Let_def ledger_share_rejected_def intro!: wf_intros split: prod.splits)
qed (auto intro!: wf_intros, auto simp: stats_wf_def record_rate_limited_def message_rate_limited_def miner_connected_def
    miner_disconnected_def update_height_def set_est_difficulty_change_pct_def set_network_difficulty_def set_network_hashrate_def)

lemma wf_events: "stats_wf ps \<Longrightarrow> stats_wf (stats_events ex es ps)"
  by (induction es arbitrary: ps) (simp_all add: stats_events_def wf_step)

lemma distinct_updates: "distinct (map fst m) \<Longrightarrow> distinct (map fst (foldl (\<lambda>m x. AList.update (f x) (g x) m) m xs))"
  by (induction xs arbitrary: m) (simp_all add: distinct_update)

lemma keyed_updates: "list_all (\<lambda>(h, b). f b = h) m \<Longrightarrow> list_all (\<lambda>(h, b). f b = h) (foldl (\<lambda>m b. AList.update (f b) b m) m xs)"
  by (induction xs arbitrary: m) (simp_all add: list_all_update)

lemma wf_from_persisted:
  assumes "distinct (map fst (pe_worker_best_shares p))"
  shows "stats_wf (from_persisted ex pw p wall inst)"
proof -
  have "distinct (map fst (foldl (\<lambda>m (k, s). AList.update k s m) [] xs))" for xs :: "(string \<times> session_hashrate) list"
    using distinct_updates [of "[]" fst snd xs] by (simp add: case_prod_unfold)
  moreover have "distinct (map fst (foldl (\<lambda>m b. AList.update (pb_hash b) b m) [] xs))" for xs :: "pending_block list"
    using distinct_updates [of "[]" pb_hash "\<lambda>b. b" xs] by simp
  ultimately show ?thesis using assms
    by (cases "pe_block_counts p") (simp add: from_persisted_def stats_wf_def keyed_updates)
qed

lemma wf_boot:
  assumes "open_recording ex pw fails d wall inst = Some (ps, d')" "distinct (map fst (db_worker_best d))"
  shows "stats_wf ps"
proof -
  obtain p where p: "persisted_load fails d = Some (p, d')" "ps = from_persisted ex pw p wall inst"
    using assms(1) by (auto simp: open_recording_def)
  have "distinct (map fst (db_worker_best (open_db d)))" using assms(2)
    by (simp add: open_db_def prune_worker_rows_def reconcile_eq apply_round_reset_def Let_def distinct_map_filter)
  moreover have "map fst (pe_worker_best_shares p) = map fst (db_worker_best (open_db d))"
    using p(1) by (auto simp: persisted_load_def load_values_def Let_def split: if_splits prod.splits)
  ultimately show ?thesis using p(2) wf_from_persisted by metis
qed

text \<open>
  C32: After any boot and any sequence of operations the statistics are well formed.  Every worker
  is filed under its own name, is online exactly while it has sessions, and its rejections are the
  sum of its reasons, with the stale ones counted under that reason; the pool's rejections are the
  sum of its reasons; no session, worker, reason or pending block is filed twice; a pending block is
  filed under its hash; and the open ledger minute is a whole minute.
\<close>

theorem stats_well_formed:
  assumes "open_recording ex pw fails d wall inst = Some (ps, d')" "distinct (map fst (db_worker_best d))"
  shows "stats_wf (stats_events ex es ps)"
  by (rule wf_events [OF wf_boot [OF assms]])

theorem stats_well_formed_witness:
  "\<exists>ps d'. open_recording exp_sample powf_sample (\<lambda>_. False) empty_db 100 0 = Some (ps, d')
     \<and> stats_wf (stats_events exp_sample share_events ps)"
proof -
  obtain ps d' where b: "open_recording exp_sample powf_sample (\<lambda>_. False) empty_db 100 0 = Some (ps, d')" using boot_total by blast
  have "distinct (map fst (db_worker_best empty_db))" by (simp add: empty_db_def)
  from stats_well_formed [OF b this] b show ?thesis by blast
qed

section \<open>Pruning\<close>

lemma sorted_take_drop:
  assumes "sorted xs" "x \<in> set (drop n xs)" "y \<in> set (take n xs)"
  shows "y \<le> x"
proof -
  have "sorted (take n xs @ drop n xs)" using assms(1) by simp
  then show ?thesis using assms(2,3) unfolding sorted_append by blast
qed

lemma top_best_sorted:
  assumes "e \<in> set (top_best_shares m)" "e' \<in> set m" "e' \<notin> set (top_best_shares m)"
  shows "snd e' \<le> snd e"
proof -
  let ?s = "sort_key snd (rev m)"
  have top: "top_best_shares m = rev (drop (length m - MAX_WORKER_BEST_SHARES) ?s)"
    by (simp add: top_best_shares_def take_rev)
  have "e' \<in> set (take (length m - MAX_WORKER_BEST_SHARES) ?s @ drop (length m - MAX_WORKER_BEST_SHARES) ?s)"
    using assms(2) by simp
  then have "e' \<in> set (take (length m - MAX_WORKER_BEST_SHARES) ?s)" using assms(3) unfolding top set_append by auto
  then have "snd e' \<in> set (take (length m - MAX_WORKER_BEST_SHARES) (map snd ?s))" by (simp add: take_map)
  moreover have "snd e \<in> set (drop (length m - MAX_WORKER_BEST_SHARES) (map snd ?s))" using assms(1) by (simp add: top drop_map)
  ultimately show ?thesis using sorted_take_drop [of "map snd ?s"] by simp
qed

lemma filter_keys_top:
  assumes "distinct (map fst m)"
  shows "set (filter (\<lambda>e. fst e \<in> fst ` set (top_best_shares m)) m) = set (top_best_shares m)"
    "length (filter (\<lambda>e. fst e \<in> fst ` set (top_best_shares m)) m) \<le> MAX_WORKER_BEST_SHARES"
proof -
  let ?f = "filter (\<lambda>e. fst e \<in> fst ` set (top_best_shares m)) m"
  have sub: "set (top_best_shares m) \<subseteq> set m" using set_take_subset [of _ "rev (sort_key snd (rev m))"] by (auto simp: top_best_shares_def)
  show eq: "set ?f = set (top_best_shares m)"
  proof
    show "set ?f \<subseteq> set (top_best_shares m)"
      using sub assms by (auto simp: distinct_map inj_on_def)
  qed (use sub in auto)
  have "distinct m" using assms by (simp add: distinct_map)
  then have "length ?f = card (set ?f)" by (intro distinct_card [symmetric]) simp
  then show "length ?f \<le> MAX_WORKER_BEST_SHARES"
    unfolding eq using card_length [of "top_best_shares m"] by (simp add: top_best_shares_def)
qed

lemma prune_best:
  assumes "stats_wf ps"
  shows "set (ps_worker_best_shares (prune_idle_workers now ps)) = (if MAX_WORKER_BEST_SHARES < length (ps_worker_best_shares ps)
      then set (top_best_shares (ps_worker_best_shares ps)) else set (ps_worker_best_shares ps))"
    "length (ps_worker_best_shares (prune_idle_workers now ps)) \<le> MAX_WORKER_BEST_SHARES"
  using assms filter_keys_top [of "ps_worker_best_shares ps"]
  by (auto simp: prune_idle_workers_def stats_wf_def enqueue_def Let_def)

lemma prune_states:
  assumes "stats_wf ps"
  shows "map_of (ps_worker_states (prune_idle_workers now ps)) w =
    (case map_of (ps_worker_states ps) w of
       None \<Rightarrow> None
     | Some s \<Rightarrow> if stale_worker (sat_sub now IDLE_WORKER_EVICT_SECS) ps (w, s) then None else Some s)"
proof -
  have d: "distinct (map fst (ps_worker_states ps))" using assms by (simp add: stats_wf_def)
  have "map_of (filter (\<lambda>e. fst e \<notin> A) m) w = (if w \<in> A then None else map_of m w)" for A and m :: "(string \<times> worker_state) list"
    by (induction m) auto
  moreover have "w \<in> set (map fst (filter P (ps_worker_states ps))) \<longleftrightarrow> (\<exists>s. map_of (ps_worker_states ps) w = Some s \<and> P (w, s))" for P
    using map_of_eq_Some_iff [OF d] by force
  ultimately show ?thesis
    by (auto simp: prune_idle_workers_def enqueue_def Let_def simp del: set_map set_filter split: option.splits)
qed

text \<open>
  What the hourly pruning keeps.  At most 512 best shares remain and every one that remains is at
  least as good as every one that is dropped; a worker that is online is kept as it is; and a
  worker is evicted only when it is offline and both its last connection and its last submission
  are more than a day old.
\<close>

theorem prune_bounds:
  fixes now :: u64
  assumes "stats_wf ps"
  defines "ps' \<equiv> prune_idle_workers now ps"
  shows "length (ps_worker_best_shares ps') \<le> 512
    \<and> (\<forall>e \<in> set (ps_worker_best_shares ps'). e \<in> set (ps_worker_best_shares ps)
         \<and> (\<forall>e' \<in> set (ps_worker_best_shares ps). e' \<notin> set (ps_worker_best_shares ps') \<longrightarrow> snd e' \<le> snd e))
    \<and> (\<forall>w s. map_of (ps_worker_states ps) w = Some s \<longrightarrow>
         (wk_online s \<longrightarrow> map_of (ps_worker_states ps') w = Some s)
       \<and> (map_of (ps_worker_states ps') w \<noteq> Some s \<longrightarrow> \<not> wk_online s \<and> unat (wk_connected_ts s) + 86400 < unat now
            \<and> unat (case map_of (ps_worker_last_submit_ts ps) w of None \<Rightarrow> wk_last_submit_ts s | Some t \<Rightarrow> t) + 86400 < unat now))"
proof -
  have top: "set (top_best_shares m) \<subseteq> set m" for m
    using set_take_subset [of _ "rev (sort_key snd (rev m))"] by (auto simp: top_best_shares_def)
  have "x < sat_sub now IDLE_WORKER_EVICT_SECS \<Longrightarrow> unat x + 86400 < unat now" for x
    by (simp add: word_less_nat_alt unat_sat_sub IDLE_WORKER_EVICT_SECS_def)
  then have "stale_worker (sat_sub now IDLE_WORKER_EVICT_SECS) ps (w, s) \<Longrightarrow>
      \<not> wk_online s \<and> unat (wk_connected_ts s) + 86400 < unat now
        \<and> unat (case map_of (ps_worker_last_submit_ts ps) w of None \<Rightarrow> wk_last_submit_ts s | Some t \<Rightarrow> t) + 86400 < unat now" for w s
    by (auto simp: stale_worker_def Let_def)
  then show ?thesis
    using prune_best [OF assms(1), of now] top top_best_sorted prune_states [OF assms(1), of now]
    by (auto simp: ps'_def MAX_WORKER_BEST_SHARES_def split: if_splits)
qed

theorem prune_bounds_witness:
  "\<exists>ps d'. open_recording exp_sample powf_sample (\<lambda>_. False) empty_db 100 0 = Some (ps, d')
     \<and> length (ps_worker_best_shares (prune_idle_workers 200000 (stats_events exp_sample share_events ps))) \<le> 512"
proof -
  obtain ps d' where b: "open_recording exp_sample powf_sample (\<lambda>_. False) empty_db 100 0 = Some (ps, d')" using boot_total by blast
  have "distinct (map fst (db_worker_best empty_db))" by (simp add: empty_db_def)
  from prune_bounds [OF wf_events [OF wf_boot [OF b this], of exp_sample share_events], of 200000] b show ?thesis by blast
qed

end
