(* ===== verification/Sweep.thy ===== *)
theory Sweep
  imports Wellformed
begin

text \<open>
  What one pass of the deferred confirmation does to the pending blocks and to the write queue,
  whatever the node answers.
\<close>

declare of_nat_unat [simp del]

section \<open>The decisions of a pass\<close>

text \<open>The node is asked about the blocks in turn; the answers alone decide.\<close>

fun sweep_decisions ::
  "('c, 'v, 'w) node_api \<Rightarrow> u32 \<Rightarrow> (nat \<Rightarrow> u64 \<times> u64 \<times> u64) \<Rightarrow> nat \<Rightarrow> pending_block list
     \<Rightarrow> 'c rpc_state \<Rightarrow> 'w \<Rightarrow> block_resolution option list" where
  "sweep_decisions api depth clocks i [] rpc w = []"
| "sweep_decisions api depth clocks i (b # bs) rpc w =
     (let (answer, rpc', w') = block_chain_position api (pb_hash b) rpc w in
      (case answer of Inl e \<Rightarrow> None | Inr pos \<Rightarrow> sweep_resolution b pos depth (fst (clocks i)))
        # sweep_decisions api depth clocks (Suc i) bs rpc' w')"

fun settle_all ::
  "(nat \<Rightarrow> u64 \<times> u64 \<times> u64) \<Rightarrow> nat \<Rightarrow> (pending_block \<times> block_resolution option) list \<Rightarrow> pool_stats \<Rightarrow> pool_stats" where
  "settle_all clocks i [] ps = ps"
| "settle_all clocks i ((b, None) # xs) ps = settle_all clocks (Suc i) xs ps"
| "settle_all clocks i ((b, Some r) # xs) ps =
     settle_all clocks (Suc i) xs
       (snd (record_block_resolution b r (fst (snd (clocks i))) (snd (snd (clocks i))) ps))"

lemma length_decisions [simp]: "length (sweep_decisions api depth clocks i bs rpc w) = length bs"
  by (induction bs arbitrary: i rpc w) (simp_all add: Let_def case_prod_unfold)

lemma sweep_settles:
  "snd (snd (foldl (\<lambda>s (i, block). sweep_block api depth block (clocks i) s) (rpc, w, ps) (List.enumerate i bs)))
     = settle_all clocks i (zip bs (sweep_decisions api depth clocks i bs rpc w)) ps"
proof (induction bs arbitrary: i rpc w ps)
  case (Cons b bs)
  obtain answer rpc' w' where r: "block_chain_position api (pb_hash b) rpc w = (answer, rpc', w')" by (metis prod_cases3)
  obtain t t1 t2 where c: "clocks i = (t, t1, t2)" by (metis prod_cases3)
  show ?case
    using Cons.IH r c
    by (cases answer) (auto simp: sweep_block_def Let_def split: option.splits)
qed simp

section \<open>What a settled block changes\<close>

fun resolved_write :: "store_write \<Rightarrow> bool" where
  "resolved_write (BlockResolved h r ts) \<longleftrightarrow> True"
| "resolved_write w \<longleftrightarrow> False"

definition resolutions :: "pool_stats \<Rightarrow> store_write list option" where
  "resolutions ps = map_option (filter resolved_write) (ps_store ps)"

lemma resolutions_enqueue:
  "resolutions (enqueue w ps) = map_option (\<lambda>q. if resolved_write w then q @ [w] else q) (resolutions ps)"
  by (cases "ps_store ps") (simp_all add: resolutions_def enqueue_def)

lemma resolutions_store: "ps_store ps' = ps_store ps \<Longrightarrow> resolutions ps' = resolutions ps"
  by (simp add: resolutions_def)

lemma enqueue_frame [simp]:
  "ps_pending_blocks (enqueue w ps) = ps_pending_blocks ps" "ps_blocks_orphaned (enqueue w ps) = ps_blocks_orphaned ps"
  by (simp_all add: enqueue_def)

lemma round_reset_frame:
  "ps_pending_blocks (round_reset now ps) = ps_pending_blocks ps"
  "ps_blocks_orphaned (round_reset now ps) = ps_blocks_orphaned ps"
  "resolutions (round_reset now ps) = resolutions ps"
  by (simp_all add: round_reset_eq resolutions_enqueue option.map_ident)
    (simp_all add: reset_core_def resolutions_def)

lemma block_found_frame:
  "ps_pending_blocks (block_found now ps) = ps_pending_blocks ps"
  "ps_blocks_orphaned (block_found now ps) = ps_blocks_orphaned ps"
  "resolutions (block_found now ps) = resolutions ps"
  by (simp_all add: block_found_def round_reset_frame) (simp add: resolutions_def)

lemma resolve_effect:
  assumes "map_of (ps_pending_blocks ps) (pb_hash b) \<noteq> None"
    and "ps' = snd (record_block_resolution b r t1 t2 ps)"
  shows "ps_pending_blocks ps' = AList.delete (pb_hash b) (ps_pending_blocks ps)"
    "ps_blocks_orphaned ps' = ps_blocks_orphaned ps + (if pb_won_at_submit b \<and> r = Orphaned then 1 else 0)"
    "resolutions ps' = map_option (\<lambda>q. q @ [BlockResolved (pb_hash b) r t2]) (resolutions ps)"
proof -
  define u where "u = ps\<lparr>ps_pending_blocks := AList.delete (pb_hash b) (ps_pending_blocks ps)\<rparr>"
  define v where "v = (case (pb_won_at_submit b, r) of
      (True, Orphaned) \<Rightarrow> u\<lparr>ps_blocks_orphaned := ps_blocks_orphaned u + 1, ps_blocks_found := sat_sub (ps_blocks_found u) 1\<rparr>
    | (False, Confirmed) \<Rightarrow> block_found t1 (u\<lparr>ps_blocks_inconclusive := sat_sub (ps_blocks_inconclusive u) 1\<rparr>)
    | _ \<Rightarrow> u)"
  have p: "ps' = enqueue (BlockResolved (pb_hash b) r t2) v"
    unfolding assms(2) record_block_resolution_def resolve_block_def if_not_P [OF assms(1)] Let_def snd_conv
      v_def u_def by (rule refl)
  have "ps_pending_blocks v = ps_pending_blocks u"
    "ps_blocks_orphaned v = ps_blocks_orphaned u + (if pb_won_at_submit b \<and> r = Orphaned then 1 else 0)" "resolutions v = resolutions u"
    by (cases "pb_won_at_submit b"; cases r; simp add: v_def block_found_frame resolutions_def; simp add: resolutions_def [symmetric] block_found_frame)+
  then show "ps_pending_blocks ps' = AList.delete (pb_hash b) (ps_pending_blocks ps)"
    "ps_blocks_orphaned ps' = ps_blocks_orphaned ps + (if pb_won_at_submit b \<and> r = Orphaned then 1 else 0)"
    "resolutions ps' = map_option (\<lambda>q. q @ [BlockResolved (pb_hash b) r t2]) (resolutions ps)"
    by (simp_all add: p resolutions_enqueue u_def) (simp_all add: resolutions_def)
qed

fun settle_writes ::
  "(nat \<Rightarrow> u64 \<times> u64 \<times> u64) \<Rightarrow> nat \<Rightarrow> (pending_block \<times> block_resolution option) list \<Rightarrow> store_write list" where
  "settle_writes clocks i [] = []"
| "settle_writes clocks i ((b, None) # xs) = settle_writes clocks (Suc i) xs"
| "settle_writes clocks i ((b, Some r) # xs) = BlockResolved (pb_hash b) r (snd (snd (clocks i))) # settle_writes clocks (Suc i) xs"

fun settled_hashes :: "(pending_block \<times> block_resolution option) list \<Rightarrow> string list" where
  "settled_hashes [] = []"
| "settled_hashes ((b, None) # xs) = settled_hashes xs"
| "settled_hashes ((b, Some r) # xs) = pb_hash b # settled_hashes xs"

lemma settle_effect:
  assumes "distinct (map (pb_hash \<circ> fst) xs)" "\<forall>x \<in> set xs. map_of (ps_pending_blocks ps) (pb_hash (fst x)) \<noteq> None"
  shows "ps_pending_blocks (settle_all clocks i xs ps) = filter (\<lambda>e. fst e \<notin> set (settled_hashes xs)) (ps_pending_blocks ps)
    \<and> ps_blocks_orphaned (settle_all clocks i xs ps)
        = ps_blocks_orphaned ps + of_nat (length (filter (\<lambda>x. pb_won_at_submit (fst x) \<and> snd x = Some Orphaned) xs))
    \<and> resolutions (settle_all clocks i xs ps) = map_option (\<lambda>q. q @ settle_writes clocks i xs) (resolutions ps)"
  using assms
proof (induction clocks i xs ps rule: settle_all.induct)
  case (3 clocks i b r xs ps)
  note e = resolve_effect [OF _ refl, of ps b r "fst (snd (clocks i))" "snd (snd (clocks i))"]
  have "map_of (ps_pending_blocks ps) (pb_hash b) \<noteq> None" using "3.prems"(2) by auto
  note e = e [OF this]
  have "\<forall>x \<in> set xs. map_of (AList.delete (pb_hash b) (ps_pending_blocks ps)) (pb_hash (fst x)) \<noteq> None"
    using "3.prems" by (force simp: delete_conv')
  then show ?case using "3.IH" "3.prems"(1) e
    by (cases "resolutions ps") (auto simp: AList.delete_eq filter_filter case_prod_unfold intro: filter_cong)
qed (simp_all add: option.map_ident)

lemma settled_hashes_subset: "set (settled_hashes (zip bs ds)) \<subseteq> pb_hash ` set bs"
proof (induction bs arbitrary: ds)
  case (Cons b bs)
  show ?case
  proof (cases ds)
    case (Cons d ds')
    then show ?thesis using Cons.IH [of ds'] by (cases d) auto
  qed simp
qed simp

lemma undecided:
  assumes "length ds = length m" "list_all (\<lambda>(h, b). pb_hash b = h) m" "distinct (map fst m)"
  shows "filter (\<lambda>e. fst e \<notin> set (settled_hashes (zip (map snd m) ds))) m = map fst (filter (\<lambda>x. snd x = None) (zip m ds))"
  using assms
proof (induction ds m rule: list_induct2)
  case (Cons d ds e m)
  have "pb_hash (snd x) = fst x" if "x \<in> set m" for x using that Cons.prems(1) by (auto simp: list_all_iff)
  then have keys: "pb_hash ` set (map snd m) = fst ` set m" by force
  have "fst e \<notin> fst ` set m" using Cons.prems(2) by simp
  then have e: "fst e \<notin> set (settled_hashes (zip (map snd m) ds))" "pb_hash (snd e) = fst e"
    using settled_hashes_subset [of "map snd m" ds] keys Cons.prems(1) by auto
  have "filter (\<lambda>x. fst x \<noteq> fst e \<and> P x) m = filter P m" for P
    using \<open>fst e \<notin> fst ` set m\<close> by (intro filter_cong refl) (metis imageI)
  then show ?case using Cons e by (cases d) auto
qed simp

text \<open>
  C9: One pass of the deferred confirmation settles exactly the blocks the node has decided.  Whatever
  the node answers, the blocks still pending afterwards are those whose answer decided nothing;
  one resolution per settled block is handed to the store, in the order of the pass and under
  its own clock reading; every block that won its height and turned out orphaned is counted as
  orphaned once; and with nothing pending the node is not asked at all.
\<close>

theorem sweep_exact:
  assumes "stats_wf ps" "sweep api depth clocks (rpc, w, ps) = (rpc', w', ps')"
  defines "ds \<equiv> sweep_decisions api depth clocks 0 (pending_blocks ps) rpc w"
  shows "ps_pending_blocks ps' = map fst (filter (\<lambda>x. snd x = None) (zip (ps_pending_blocks ps) ds))
    \<and> resolutions ps' = map_option (\<lambda>q. q @ settle_writes clocks 0 (zip (pending_blocks ps) ds)) (resolutions ps)
    \<and> ps_blocks_orphaned ps' = ps_blocks_orphaned ps
        + of_nat (length (filter (\<lambda>x. pb_won_at_submit (fst x) \<and> snd x = Some Orphaned) (zip (pending_blocks ps) ds)))
    \<and> (pending_blocks ps = [] \<longrightarrow> (rpc', w', ps') = (rpc, w, ps))"
proof -
  let ?m = "ps_pending_blocks ps" and ?xs = "zip (pending_blocks ps) ds"
  have wf: "list_all (\<lambda>(h, b). pb_hash b = h) ?m" "distinct (map fst ?m)" using assms(1) by (simp_all add: stats_wf_def)
  have len: "length ds = length ?m" by (simp add: ds_def pending_blocks_def)
  have hash: "map pb_hash (pending_blocks ps) = map fst ?m"
    using wf(1) by (auto simp: pending_blocks_def list_all_iff)
  have "map (pb_hash \<circ> fst) ?xs = map pb_hash (pending_blocks ps)"
    using len by (simp add: map_map [symmetric] pending_blocks_def del: map_map)
  then have "distinct (map (pb_hash \<circ> fst) ?xs)" using wf(2) hash by simp
  moreover have "\<forall>x \<in> set ?xs. map_of ?m (pb_hash (fst x)) \<noteq> None"
  proof
    fix x assume "x \<in> set ?xs"
    then have "fst x \<in> set (pending_blocks ps)" by (metis in_set_zipE prod.collapse)
    then have "pb_hash (fst x) \<in> set (map fst ?m)" unfolding hash [symmetric] by simp
    then show "map_of ?m (pb_hash (fst x)) \<noteq> None" by (simp add: map_of_eq_None_iff)
  qed
  ultimately have e: "ps_pending_blocks (settle_all clocks 0 ?xs ps) = filter (\<lambda>e. fst e \<notin> set (settled_hashes ?xs)) ?m
    \<and> ps_blocks_orphaned (settle_all clocks 0 ?xs ps)
        = ps_blocks_orphaned ps + of_nat (length (filter (\<lambda>x. pb_won_at_submit (fst x) \<and> snd x = Some Orphaned) ?xs))
    \<and> resolutions (settle_all clocks 0 ?xs ps) = map_option (\<lambda>q. q @ settle_writes clocks 0 ?xs) (resolutions ps)"
    by (rule settle_effect)
  have "ps' = settle_all clocks 0 ?xs ps"
    using sweep_settles [of api depth clocks rpc w ps 0 "pending_blocks ps"] assms(2) by (simp add: sweep_def ds_def)
  then show ?thesis using e undecided [OF len wf] assms(2) by (auto simp: pending_blocks_def sweep_def)
qed

text \<open>A node that has every block a hundred deep.\<close>

definition sample_node :: "(unit, unit, unit) node_api" where
  "sample_node = \<lparr> n_call = \<lambda>c f xs w. (Inr (), w), n_best_block_hash = \<lambda>c w. (Inr [], w),
     n_header_confirmations = \<lambda>c h w. (Inr 100, w), n_block_count = \<lambda>c w. (Inr 900, w),
     n_block_hash = \<lambda>c n w. (Inr [], w), n_header_time = \<lambda>c h w. (Inr 0, w), n_parse_block_hash = \<lambda>s. Some [],
     n_read_cookie = \<lambda>w. None, n_build_client = \<lambda>k. Inr (), j_get = \<lambda>v k. None, j_as_str = \<lambda>v. None,
     j_as_u64 = \<lambda>v. None, j_as_array = \<lambda>v. None, j_is_null = \<lambda>v. True, j_string = \<lambda>s. (), j_gbt_request = () \<rparr>"

theorem sweep_exact_witness:
  "\<exists>ps ps' rpc' w'. pending_blocks ps \<noteq> []
     \<and> sweep sample_node 6 (\<lambda>_. (200, 200, 200)) (\<lparr> r_client = (), r_cookie = None \<rparr>, (), ps) = (rpc', w', ps')
     \<and> ps_pending_blocks ps' = [] \<and> ps_blocks_orphaned ps' = ps_blocks_orphaned ps"
proof -
  obtain ps0 d where b: "open_recording exp_sample powf_sample (\<lambda>_. False) empty_db 100 0 = Some (ps0, d)" using boot_total by blast
  define ps where "ps = enroll_pending_block 8 ''cd'' ''addr.rig'' ''addr'' True 100 ps0"
  have "ps_pending_blocks ps0 = []" using boot_eq [OF b] by (simp add: load_pending_blocks_def empty_db_def)
  then have p: "ps_pending_blocks ps = [(''cd'', \<lparr> pb_hash = ''cd'', pb_height = 8, pb_worker = ''addr.rig'', pb_payout = ''addr'',
      pb_found_ts = 100, pb_won_at_submit = True \<rparr>)]"
    by (simp add: ps_def enroll_pending_block_def Let_def)
  have wf: "stats_wf ps" unfolding ps_def by (rule wf_enroll [OF wf_boot [OF b]]) (simp add: empty_db_def)
  obtain rpc' w' ps' where s: "sweep sample_node 6 (\<lambda>_. (200, 200, 200)) (\<lparr> r_client = (), r_cookie = None \<rparr>, (), ps) = (rpc', w', ps')"
    by (metis prod_cases3)
  show ?thesis using sweep_exact [OF wf s] p s
    by (intro exI [of _ ps] exI [of _ ps'] exI [of _ rpc'] exI [of _ w'])
      (simp add: pending_blocks_def block_chain_position_def call_with_refresh_def chain_position_call_def sample_node_def
        sweep_resolution_def)
qed

end
