(* ===== verification/Zmq.thy ===== *)
theory Zmq
  imports Security Rpc
begin

text \<open>
  The tip watchers (\<open>src/bitcoin/zmq.rs\<close>).  The ZeroMQ socket is library code: of one connection
  attempt only how many notifications it delivered and how long it lasted matters.  Both
  watchers announce a new tip by advancing one shared counter.
\<close>

declare of_nat_unat [simp del]

definition ZMQ_INITIAL_BACKOFF :: duration where
  "ZMQ_INITIAL_BACKOFF = secs 1"

definition ZMQ_MAX_BACKOFF :: duration where
  "ZMQ_MAX_BACKOFF = secs 60"

definition ZMQ_STABLE_AFTER :: duration where
  "ZMQ_STABLE_AFTER = secs 60"

definition next_backoff :: "duration \<Rightarrow> duration" where
  "next_backoff current = min (current * 2) ZMQ_MAX_BACKOFF"

text \<open>One message on the socket advances the counter; the stream's error or end ends the attempt.\<close>

definition run_zmq_listener :: "nat \<Rightarrow> u64 \<Rightarrow> u64" where
  "run_zmq_listener notifications n = ((\<lambda>n. n + 1) ^^ notifications) n"

text \<open>
  The supervisor over a sequence of attempts, each with its notifications and its duration: the
  delays it sleeps and the counter at the end.
\<close>

fun supervise_zmq_listener :: "duration \<Rightarrow> (nat \<times> duration) list \<Rightarrow> u64 \<Rightarrow> duration list \<times> u64" where
  "supervise_zmq_listener backoff [] n = ([], n)"
| "supervise_zmq_listener backoff ((notifications, connection_lasted) # attempts) n =
     (let n = run_zmq_listener notifications n;
          backoff' = (if ZMQ_STABLE_AFTER \<le> connection_lasted then ZMQ_INITIAL_BACKOFF else next_backoff backoff);
          (delays, n) = supervise_zmq_listener backoff' attempts n
      in (backoff # delays, n))"

text \<open>One round of the poll: the hash seen last, the counter, the client and the world.\<close>

definition poll_round ::
  "('c, 'v, 'w) node_api \<Rightarrow> string \<times> u64 \<times> 'c rpc_state \<times> 'w \<Rightarrow> string \<times> u64 \<times> 'c rpc_state \<times> 'w" where
  "poll_round api s =
     (let (last_hash, n, rpc, w) = s in
      case best_block_hash api rpc w of
        (Inr hash, rpc, w) \<Rightarrow> if hash \<noteq> last_hash then (hash, n + 1, rpc, w) else (last_hash, n, rpc, w)
      | (Inl _, rpc, w) \<Rightarrow> (last_hash, n, rpc, w))"

definition run_poll_fallback ::
  "('c, 'v, 'w) node_api \<Rightarrow> nat \<Rightarrow> u64 \<times> 'c rpc_state \<times> 'w \<Rightarrow> string \<times> u64 \<times> 'c rpc_state \<times> 'w" where
  "run_poll_fallback api rounds s = (poll_round api ^^ rounds) ([], s)"

section \<open>Delays\<close>

text \<open>The delay after \<open>k\<close> short-lived connections in a row.\<close>

definition delay_after :: "nat \<Rightarrow> duration" where
  "delay_after k = min (secs (2 ^ k)) (secs 60)"

lemma next_delay: "next_backoff (delay_after k) = delay_after (Suc k)"
  by (auto simp: next_backoff_def delay_after_def ZMQ_MAX_BACKOFF_def secs_def min_def)

fun short_runs :: "nat \<Rightarrow> duration list \<Rightarrow> nat list" where
  "short_runs k [] = []"
| "short_runs k (d # ds) = k # short_runs (if secs 60 \<le> d then 0 else Suc k) ds"

lemma supervise_delays:
  "fst (supervise_zmq_listener (delay_after k) attempts n) = map delay_after (short_runs k (map snd attempts))"
proof (induction attempts arbitrary: k n)
  case (Cons a attempts)
  have "ZMQ_INITIAL_BACKOFF = delay_after 0" by (simp add: ZMQ_INITIAL_BACKOFF_def delay_after_def secs_def)
  then show ?case using Cons.IH [of 0] Cons.IH [of "Suc k"]
    by (cases a) (simp add: Let_def case_prod_unfold next_delay ZMQ_STABLE_AFTER_def)
qed simp

lemma supervise_counter:
  "snd (supervise_zmq_listener b attempts n) = n + of_nat (sum_list (map fst attempts))"
proof (induction attempts arbitrary: b n)
  case (Cons a attempts)
  have "run_zmq_listener m n = n + of_nat m" for m n
    by (induction m) (simp_all add: run_zmq_listener_def algebra_simps)
  then show ?case using Cons by (cases a) (simp add: Let_def case_prod_unfold)
qed simp

text \<open>
  The supervisor's retry delays.  Whatever the connections do, the delay after \<open>k\<close> short-lived
  connections in a row is \<open>2\<^sup>k\<close> seconds capped at a minute, it starts over after a connection that
  lasted a minute, and every notification of every attempt advances the tip counter once.
\<close>

theorem zmq_supervision:
  "supervise_zmq_listener ZMQ_INITIAL_BACKOFF attempts n =
     (map (\<lambda>k. min (secs (2 ^ k)) (secs 60)) (short_runs 0 (map snd attempts)), n + of_nat (sum_list (map fst attempts)))"
proof -
  have "ZMQ_INITIAL_BACKOFF = delay_after 0" by (simp add: ZMQ_INITIAL_BACKOFF_def delay_after_def secs_def)
  then show ?thesis
    using supervise_delays [of 0 attempts n] supervise_counter [of "delay_after 0" attempts n]
    by (simp add: prod_eq_iff delay_after_def)
qed

end
