(* ===== verification/Spec2Isabelle.thy ===== *)
theory Spec2Isabelle
  imports Tip Lines Server Sweep Zmq
begin

text \<open>
  A verification development of btcpool-rs, a solo Bitcoin mining pool: miners connect over Stratum
  V1 or V2, each names the address it wants to be paid at, and every job it gets carries a coinbase
  that pays that address.  Source paths below are relative to \<open>src/\<close> of the repository.

  \<^bold>\<open>The program and how its parts interact.\<close>  The template engine (\<open>mining/engine.rs\<close>) asks the node
  (\<open>bitcoin/rpc.rs\<close>) for block templates whenever a tip watcher (\<open>bitcoin/zmq.rs\<close>) signals or a timer
  ticks, builds a job template (\<open>bitcoin/template.rs\<close>) and broadcasts it.  The listener
  (\<open>network/server.rs\<close>) admits connections under a cap, a ban list and a rate limit
  (\<open>security/mod.rs\<close>) and starts a session, \<open>network/session.rs\<close> for Stratum V1 and
  \<open>protocol/sv2/mod.rs\<close> for V2.  A session binds a payout identity (\<open>mining/identity.rs\<close>), turns
  every template into a job of its own, keeps the jobs it issued (\<open>mining/jobs.rs\<close>), validates
  submitted shares (\<open>mining/validator.rs\<close>), credits them (\<open>mining/credit.rs\<close>) and retargets its
  difficulty (\<open>mining/vardiff.rs\<close>).  Shares and blocks are booked (\<open>mining/accounting.rs\<close>) in the pool
  statistics (\<open>stats.rs\<close>), whose writer thread owns an SQLite file; a sweep
  (\<open>mining/confirm.rs\<close>) settles found blocks once the node has decided them.

  \<^bold>\<open>Conventions.\<close>  Unsigned integers are words of their width, with the wrapping, saturating or
  checked operation the source uses; \<open>usize\<close> is \<open>nat\<close>; strings are their UTF-8 bytes; an \<open>f64\<close> is
  an exact rational with IEEE 754 rounding (theory \<open>F64\<close>).  Errors are the left side of a sum
  (\<open>'a result\<close>), panics are \<open>None\<close>.  Every clock reading is an argument, in the order in which
  the code takes them, so properties hold for any clock unless they say otherwise.  Library code is
  a record of functions (\<open>crates\<close>: hex, SHA-256 and the transaction codec; \<open>node_api\<close>, \<open>value_api\<close>,
  \<open>address_api\<close>, \<open>sv2_api\<close>; \<open>exp\<close> and \<open>powf\<close> as plain arguments); what a property needs of it is a
  named hypothesis stating documented behaviour (\<open>hex_ok\<close>, \<open>sha_ok\<close>, \<open>value_ok\<close>, \<open>codec_ok\<close>), and
  the witnesses discharge it on concrete functions.

  \<^bold>\<open>Theories, code and results.\<close>

  \<^item> \<open>Prelude\<close>, \<open>F64\<close>, \<open>Repr\<close>, \<open>Utf8\<close>, \<open>Crates\<close>: machine integers and their byte encodings, floating
    point, UTF-8 validation and replacement, and the library interface.
  \<^item> \<open>Errors\<close> (\<open>error.rs\<close>), \<open>Config\<close> (\<open>config.rs\<close>, \<open>settings.rs\<close>): error values and codes; settings,
    defaults, overrides and validation.  A validated configuration never exceeds the scriptSig cap.
  \<^item> \<open>Targets\<close>, \<open>Merkle\<close>, \<open>Coinbase\<close>, \<open>Template\<close> (\<open>bitcoin/template.rs\<close>): targets are the exact
    quotients, the branch sent to a miner folds to the root of the whole transaction tree, the
    coinbase builds within its caps, and splicing the extranonces gives what the miner hashed.
  \<^item> \<open>Rpc\<close>, \<open>Zmq\<close>, \<open>Engine\<close>: the node client and the classification of its answers; the tip
    watchers; the refresh loop, what it serves and announces, block submission with its retries
    (which always end).
  \<^item> \<open>Security\<close>, \<open>Server\<close>: bans, rate limits and budgets; the accept loop as a machine whose slot
    counter is shared with the sessions that end.  Admission holds under every interleaving.
  \<^item> \<open>Identity\<close>, \<open>Jobs\<close>, \<open>Validator\<close>, \<open>Credit\<close>, \<open>Hashrate\<close>, \<open>Vardiff\<close>: the parts a session is made
    of.  An accepted share hashes, under the job it names, to a header that meets the target; the
    bounded job history and duplicate tracker implement their unbounded specifications (locales
    \<open>job_book\<close> and \<open>dup_filter\<close>); difficulties stay in range; a meter is restored by its checkpoint.
  \<^item> \<open>Sv1\<close>, \<open>Session\<close>, \<open>Payouts\<close>, \<open>Duplicates\<close>, \<open>Lines\<close> (\<open>protocol/sv1.rs\<close>, \<open>network/session.rs\<close>):
    messages, the session with every handler, what holds after any sequence of events while the
    rest of the pool changes freely, a concrete session, and how input is cut into lines.
  \<^item> \<open>Sv2\<close>, \<open>Channel\<close>, \<open>Device\<close>, \<open>Tip\<close> (\<open>protocol/sv2/messages.rs\<close>, \<open>job.rs\<close>, \<open>mod.rs\<close>): messages and
    jobs, the session with every handler, its invariant, and its properties, among them that the
    device assembles the very header its share is checked with, and stays on the parent block the
    engine announced.
  \<^item> \<open>Store\<close>, \<open>Accounts\<close> (\<open>stats.rs\<close>, the writer thread): the tables as lists of rows, transactions
    that fail and roll back by an arbitrary oracle, the retry backlog and the hourly roll-up.  The
    ledger holds exactly what was committed, a found block settles once, a healthy disk drains the
    backlog.
  \<^item> \<open>Stats\<close>, \<open>Accounting\<close>, \<open>Confirm\<close>, \<open>Replay\<close>, \<open>Books\<close>, \<open>Restart\<close>, \<open>Staging\<close>, \<open>Wellformed\<close>,
    \<open>Sweep\<close>: the statistics in memory and every operation on them; the queue of writes replayed; the
    step relation that keeps the found blocks in memory and in the tables in step; what a restart
    reads back; shares from their acceptance to the ledger (locale \<open>ledger_column\<close>); the type
    invariant; and one pass of the confirmation sweep.

  \<^bold>\<open>Concurrency.\<close>  Sessions are tasks that share the pool.  A session's properties quantify over the
  shared state at every event, so they hold whatever other tasks do in between; an event
  itself is atomic.  The listener, whose compare-exchange loop is about interleaving, is modelled at
  the granularity of its atomic operations.

  \<^bold>\<open>Loops and bounds.\<close>  Loops over data are structural or have a termination proof.  The retry of
  a found block, which the clock ends, is a \<open>partial_function\<close> and is shown to return.  The endless
  loops (the refresh loop, the sessions, the writer, the listener) are folds over or step relations on
  arbitrary event sequences.  No model runs on fuel.

  \<^bold>\<open>Not modelled.\<close>  The Noise transport (\<open>protocol/sv2/noise.rs\<close>) is cryptography and socket I/O of
  libraries: a V2 session starts after the handshake, receives decrypted frames as events, and a
  write is answered by success or failure.  The dashboard (\<open>network/dashboard.rs\<close>) and the chart
  queries of \<open>stats.rs\<close> only read; Prometheus metrics (\<open>metrics/mod.rs\<close>) and logging are never read back;
  \<open>main.rs\<close> wires the parts together.  Archiving a found block's hex and the cookie file are
  file I/O, the latter an answer of the node interface.  SQLite is taken at its word: a transaction happens or
  does not.  Idle deadlines are events that may come at any time.
\<close>

end
